(* ===== verification/Prelude.thy ===== *)
theory Prelude
  imports Main "HOL-Library.Word" "HOL-Library.Sublist"
begin

text \<open>
  Shared vocabulary of the development: Rust's machine integers and byte vectors, panicking
  slice and subtraction primitives, the \<open>Poll\<close> type, and the generic lemmas and fact
  collections the component theories use.

  A Rust panic is the value \<open>None\<close> of an option. \<open>usize\<close> quantities that the
  code adds and subtracts with the ordinary operators (which panic on overflow in debug builds
  and wrap in release builds) are natural numbers with a checked subtraction, so that a theorem
  that no panic occurs covers both builds. Atomics, whose \<open>fetch_add\<close> and
  \<open>fetch_sub\<close> wrap by definition, are 64-bit words.
\<close>

unbundle bit_operations_syntax

named_theorems panic_free \<open>functions that never return the panic value\<close>
named_theorems frame \<open>fields an operation leaves unchanged\<close>

type_synonym u8 = "8 word"
type_synonym u16 = "16 word"
type_synonym u32 = "32 word"
type_synonym usize = "64 word"
type_synonym bytes = "u8 list"

subsection \<open>Polling\<close>

datatype 'a poll = Pending | Ready 'a

fun map_poll :: "('a \<Rightarrow> 'b) \<Rightarrow> 'a poll \<Rightarrow> 'b poll" where
  "map_poll f Pending = Pending"
| "map_poll f (Ready x) = Ready (f x)"

lemma map_poll_eq_Ready [simp]: "map_poll f p = Ready y \<longleftrightarrow> (\<exists>x. p = Ready x \<and> y = f x)"
  by (cases p) auto

lemma map_poll_eq_Pending [simp]: "map_poll f p = Pending \<longleftrightarrow> p = Pending"
  by (cases p) auto

lemma map_sum_eq_iff [simp]:
  "map_sum f g x = Inl a \<longleftrightarrow> (\<exists>b. x = Inl b \<and> a = f b)"
  "map_sum f g x = Inr c \<longleftrightarrow> (\<exists>d. x = Inr d \<and> c = g d)"
  "Inl a = map_sum f g x \<longleftrightarrow> (\<exists>b. x = Inl b \<and> a = f b)"
  "Inr c = map_sum f g x \<longleftrightarrow> (\<exists>d. x = Inr d \<and> c = g d)"
  by (cases x; auto)+

subsection \<open>Slices, vectors and checked arithmetic\<close>

text \<open>\<open>&xs[..n]\<close> and \<open>&xs[n..]\<close> panic when \<open>n\<close> is out of range.\<close>

definition slice_to :: "'a list \<Rightarrow> nat \<Rightarrow> 'a list option" where
  "slice_to xs n = (if n \<le> length xs then Some (take n xs) else None)"

definition slice_from :: "'a list \<Rightarrow> nat \<Rightarrow> 'a list option" where
  "slice_from xs n = (if n \<le> length xs then Some (drop n xs) else None)"

definition checked_sub :: "nat \<Rightarrow> nat \<Rightarrow> nat option" where
  "checked_sub a b = (if b \<le> a then Some (a - b) else None)"

text \<open>\<open>Vec::resize\<close>: truncate, or pad with copies of the value.\<close>

definition resize :: "nat \<Rightarrow> 'a \<Rightarrow> 'a list \<Rightarrow> 'a list" where
  "resize n x xs = take n xs @ replicate (n - length xs) x"

lemma slice_to_Some [simp]: "slice_to xs n = Some ys \<longleftrightarrow> n \<le> length xs \<and> ys = take n xs"
  by (auto simp: slice_to_def)

lemma slice_from_Some [simp]: "slice_from xs n = Some ys \<longleftrightarrow> n \<le> length xs \<and> ys = drop n xs"
  by (auto simp: slice_from_def)

lemma slice_None [simp]:
  "slice_to xs n = None \<longleftrightarrow> length xs < n" "slice_from xs n = None \<longleftrightarrow> length xs < n"
  by (auto simp: slice_to_def slice_from_def)

lemma checked_sub_Some [simp]: "checked_sub a b = Some c \<longleftrightarrow> b \<le> a \<and> c = a - b"
  by (auto simp: checked_sub_def)

lemma checked_sub_None [simp]: "checked_sub a b = None \<longleftrightarrow> a < b"
  by (auto simp: checked_sub_def)

lemma length_resize [simp]: "length (resize n x xs) = n"
  by (simp add: resize_def)

lemma take_resize [simp]: "m \<le> n \<Longrightarrow> m \<le> length xs \<Longrightarrow> take m (resize n x xs) = take m xs"
  by (simp add: resize_def min_def)

subsection \<open>Powers of two\<close>

text \<open>
  \<open>usize::next_power_of_two\<close>: the least power of two that is not below the argument, found
  by doubling from 1. The lengths it is applied to are at most \<open>CHUNK_SIZE\<close>, far from the
  overflow at the top of the \<open>usize\<close> range.
\<close>

function next_pow2_from :: "nat \<Rightarrow> nat \<Rightarrow> nat" where
  "next_pow2_from p n = (if p = 0 \<or> n \<le> p then p else next_pow2_from (2 * p) n)"
  by pat_completeness auto
termination
  by (relation "measure (\<lambda>(p, n). n - p)") auto

declare next_pow2_from.simps [simp del]

definition next_power_of_two :: "nat \<Rightarrow> nat" where
  "next_power_of_two n = next_pow2_from 1 n"

definition clamp :: "nat \<Rightarrow> nat \<Rightarrow> nat \<Rightarrow> nat" where
  "clamp lo hi x = (if x < lo then lo else if x > hi then hi else x)"

definition power_of_two :: "nat \<Rightarrow> bool" where
  "power_of_two n \<longleftrightarrow> (\<exists>k. n = 2 ^ k)"

lemma next_pow2_from_ge: "0 < p \<Longrightarrow> n \<le> next_pow2_from p n \<and> p \<le> next_pow2_from p n"
proof (induction p n rule: next_pow2_from.induct)
  case (1 p n)
  then show ?case by (subst (1 2) next_pow2_from.simps) auto
qed

lemma next_pow2_from_power: "power_of_two p \<Longrightarrow> power_of_two (next_pow2_from p n)"
proof (induction p n rule: next_pow2_from.induct)
  case (1 p n)
  have "power_of_two (2 * p)"
    using "1.prems" by (metis power_of_two_def power_Suc)
  with 1 show ?case by (subst next_pow2_from.simps) auto
qed

lemma next_pow2_from_lt: "0 < p \<Longrightarrow> p < n \<Longrightarrow> next_pow2_from p n < 2 * n"
proof (induction p n rule: next_pow2_from.induct)
  case (1 p n)
  show ?case
  proof (cases "2 * p < n")
    case True
    with 1 have "next_pow2_from (2 * p) n < 2 * n" by simp
    with 1 True show ?thesis by (subst next_pow2_from.simps) simp
  next
    case False
    with 1 have "next_pow2_from (2 * p) n = 2 * p" by (subst next_pow2_from.simps) simp
    with 1 show ?thesis by (subst next_pow2_from.simps) simp
  qed
qed

lemma power_of_two_simps [simp]:
  "power_of_two 1" "power_of_two (Suc 0)" "power_of_two 64" "power_of_two 1024"
  "power_of_two 65536"
proof -
  show "power_of_two 1" "power_of_two (Suc 0)"
    by (auto simp: power_of_two_def intro: exI [of _ 0])
  show "power_of_two 64" by (auto simp: power_of_two_def intro!: exI [of _ 6])
  show "power_of_two 1024" by (auto simp: power_of_two_def intro!: exI [of _ 10])
  show "power_of_two 65536" by (auto simp: power_of_two_def intro!: exI [of _ 16])
qed

lemma power_of_two_double: "power_of_two n \<Longrightarrow> power_of_two (2 * n)"
  by (metis power_of_two_def power_Suc)

lemma power_of_two_next [simp]: "power_of_two (next_power_of_two n)"
  by (simp add: next_power_of_two_def next_pow2_from_power)

lemma next_power_of_two_ge: "n \<le> next_power_of_two n"
  by (simp add: next_power_of_two_def next_pow2_from_ge)

lemma clamp_bounds: "lo \<le> hi \<Longrightarrow> lo \<le> clamp lo hi x \<and> clamp lo hi x \<le> hi"
  by (simp add: clamp_def)

lemma power_of_two_clamp:
  "power_of_two lo \<Longrightarrow> power_of_two hi \<Longrightarrow> power_of_two x \<Longrightarrow> power_of_two (clamp lo hi x)"
  by (simp add: clamp_def)

lemma power_of_two_min: "power_of_two a \<Longrightarrow> power_of_two b \<Longrightarrow> power_of_two (min a b)"
  by (simp add: min_def)

end
