(* ===== verification/Commands.thy ===== *)
theory Commands
  imports Prelude
begin

text \<open>
  \<open>src/src/command.rs\<close>: the commands the JavaScript thread sends to a port's reactor.
\<close>

datatype operation =
    Op_Read nat
  | Op_ReadCredit (credit_bytes: nat) (credit_slots: nat)
  | Op_Write bytes
  | Op_Update u32
  | Op_Set u32
  | Op_Get
  | Op_GetBaudRate
  | Op_Flush
  | Op_Drain

record command =
  cmd_id :: u32
  operation :: operation

fun ordered_op :: "operation \<Rightarrow> bool" where
  "ordered_op (Op_Read _) = False"
| "ordered_op (Op_ReadCredit _ _) = False"
| "ordered_op _ = True"

definition ordered :: "command \<Rightarrow> bool" where
  "ordered c = ordered_op (operation c)"

text \<open>The bytes a command puts on the wire.\<close>

fun payload_op :: "operation \<Rightarrow> bytes" where
  "payload_op (Op_Write data) = data"
| "payload_op _ = []"

abbreviation payload :: "command \<Rightarrow> bytes" where
  "payload c \<equiv> payload_op (operation c)"

lemma not_ordered_op: "\<not> ordered_op x \<longleftrightarrow> (\<exists>n. x = Op_Read n) \<or> (\<exists>b s. x = Op_ReadCredit b s)"
  by (cases x) auto

lemma payload_unordered [simp]: "\<not> ordered c \<Longrightarrow> payload c = []"
  by (auto simp: ordered_def not_ordered_op)

end
