(* ===== verification/Errors.thy ===== *)
theory Errors
  imports Prelude
begin

text \<open>
  \<open>src/src/error.rs\<close>: the portable error codes of the addon and the conversion of a
  \<open>std::io::Error\<close> into the details an event carries.
\<close>

subsection \<open>The standard library's I/O errors\<close>

datatype error_kind =
    NotFound | PermissionDenied | ConnectionRefused | ConnectionReset | HostUnreachable
  | NetworkUnreachable | ConnectionAborted | NotConnected | AddrInUse | AddrNotAvailable
  | NetworkDown | BrokenPipe | AlreadyExists | WouldBlock | NotADirectory | IsADirectory
  | DirectoryNotEmpty | ReadOnlyFilesystem | StaleNetworkFileHandle | InvalidInput
  | InvalidData | TimedOut | WriteZero | StorageFull | NotSeekable | QuotaExceeded
  | FileTooLarge | ResourceBusy | ExecutableFileBusy | Deadlock | CrossesDevices
  | TooManyLinks | InvalidFilename | ArgumentListTooLong | Interrupted | Unsupported
  | UnexpectedEof | OutOfMemory | Other | Uncategorized

text \<open>
  An \<open>io::Error\<close> as the code observes it: its kind, its rendered message and the OS
  error number, if it was made from one.
\<close>

record io_error =
  kind :: error_kind
  to_string :: string
  raw_os_error :: "int option"

type_synonym 'a io_result = "io_error + 'a"

definition io_error_new :: "error_kind \<Rightarrow> string \<Rightarrow> io_error" where
  "io_error_new k m = \<lparr>kind = k, to_string = m, raw_os_error = None\<rparr>"

definition io_error_other :: "string \<Rightarrow> io_error" where
  "io_error_other m = io_error_new Other m"

lemma io_error_new_sel [simp]:
  "kind (io_error_new k m) = k" "to_string (io_error_new k m) = m"
  "raw_os_error (io_error_new k m) = None"
  by (simp_all add: io_error_new_def)

lemma io_error_other_sel [simp]:
  "kind (io_error_other m) = Other" "to_string (io_error_other m) = m"
  "raw_os_error (io_error_other m) = None"
  by (simp_all add: io_error_other_def)

subsection \<open>Error details\<close>

record error_details =
  details_message :: string
  details_code :: string
  details_errno :: "int option"

fun code :: "error_kind \<Rightarrow> string" where
  "code NotFound = ''ERR_SERIALPORT_NOT_FOUND''"
| "code PermissionDenied = ''ERR_SERIALPORT_PERMISSION_DENIED''"
| "code InvalidInput = ''ERR_SERIALPORT_INVALID_ARGUMENT''"
| "code InvalidData = ''ERR_SERIALPORT_INVALID_ARGUMENT''"
| "code ResourceBusy = ''ERR_SERIALPORT_BUSY''"
| "code WouldBlock = ''ERR_SERIALPORT_BUSY''"
| "code TimedOut = ''ERR_SERIALPORT_TIMED_OUT''"
| "code Unsupported = ''ERR_SERIALPORT_UNSUPPORTED''"
| "code BrokenPipe = ''ERR_SERIALPORT_DISCONNECTED''"
| "code NotConnected = ''ERR_SERIALPORT_DISCONNECTED''"
| "code ConnectionAborted = ''ERR_SERIALPORT_DISCONNECTED''"
| "code ConnectionReset = ''ERR_SERIALPORT_DISCONNECTED''"
| "code UnexpectedEof = ''ERR_SERIALPORT_DISCONNECTED''"
| "code WriteZero = ''ERR_SERIALPORT_DISCONNECTED''"
| "code _ = ''ERR_SERIALPORT_IO''"

definition error_details_from :: "io_error \<Rightarrow> error_details" where
  "error_details_from e =
     \<lparr>details_message = to_string e, details_code = code (kind e), details_errno = raw_os_error e\<rparr>"

definition invalid :: "string \<Rightarrow> io_error" where
  "invalid m = io_error_new InvalidInput m"

lemma invalid_sel [simp]:
  "kind (invalid m) = InvalidInput" "to_string (invalid m) = m" "raw_os_error (invalid m) = None"
  by (simp_all add: invalid_def)

text \<open>The codes the API documentation lists.\<close>

definition documented_codes :: "string set" where
  "documented_codes =
     {''ERR_SERIALPORT_NOT_FOUND'', ''ERR_SERIALPORT_PERMISSION_DENIED'',
      ''ERR_SERIALPORT_INVALID_ARGUMENT'', ''ERR_SERIALPORT_BUSY'',
      ''ERR_SERIALPORT_TIMED_OUT'', ''ERR_SERIALPORT_UNSUPPORTED'',
      ''ERR_SERIALPORT_DISCONNECTED'', ''ERR_SERIALPORT_IO''}"

lemma code_documented [simp]: "code k \<in> documented_codes"
  by (cases k) (simp_all add: documented_codes_def)

lemma code_disconnected_iff:
  "code k = ''ERR_SERIALPORT_DISCONNECTED'' \<longleftrightarrow>
     k \<in> {BrokenPipe, NotConnected, ConnectionAborted, ConnectionReset, UnexpectedEof, WriteZero}"
  by (cases k) simp_all

end
