(* ===== verification/Events.thy ===== *)
theory Events
  imports Errors
begin

text \<open>
  \<open>src/src/lib.rs\<close>, first part: the limits of the addon, the events a reactor publishes
  through the threadsafe function, and the callback that turns a published event into the value
  JavaScript receives.
\<close>

subsection \<open>Limits\<close>

definition CHUNK_SIZE :: nat where "CHUNK_SIZE = 64 * 1024"
definition READ_SLOTS :: nat where "READ_SLOTS = 32"
definition MAX_PENDING_OPS :: nat where "MAX_PENDING_OPS = 64"

text \<open>The model is of a 64-bit target; the other branch is the code's for 32-bit targets.\<close>

definition usize_bits :: nat where "usize_bits = LENGTH(64)"

definition INLINE_READ_CAPACITY :: nat where
  "INLINE_READ_CAPACITY = (if usize_bits = 64 then 96 else 64)"

lemma limits_simps [simp]:
  "CHUNK_SIZE = 65536" "READ_SLOTS = 32" "MAX_PENDING_OPS = 64" "INLINE_READ_CAPACITY = 96"
  by (simp_all add: CHUNK_SIZE_def READ_SLOTS_def MAX_PENDING_OPS_def INLINE_READ_CAPACITY_def
      usize_bits_def)

subsection \<open>Native events\<close>

record native_event =
  ev_id :: u32
  ev_kind :: string
  ev_data :: "bytes option"
  ev_message :: "string option"
  ev_code :: "string option"
  ev_errno :: "int option"
  ev_cts :: "bool option"
  ev_dsr :: "bool option"
  ev_dcd :: "bool option"
  ev_baud_rate :: "u32 option"

definition native_event_default :: native_event where
  "native_event_default =
     \<lparr>ev_id = 0, ev_kind = '''', ev_data = None, ev_message = None, ev_code = None,
      ev_errno = None, ev_cts = None, ev_dsr = None, ev_dcd = None, ev_baud_rate = None\<rparr>"

definition native_event_new :: "u32 \<Rightarrow> string \<Rightarrow> native_event" where
  "native_event_new i k = native_event_default\<lparr>ev_id := i, ev_kind := k\<rparr>"

definition with_error :: "native_event \<Rightarrow> io_error \<Rightarrow> native_event" where
  "with_error ev e =
     (let details = error_details_from e
      in ev\<lparr>ev_code := Some (details_code details), ev_errno := details_errno details,
            ev_message := Some (details_message details)\<rparr>)"

definition native_event_error :: "u32 \<Rightarrow> io_error \<Rightarrow> native_event" where
  "native_event_error i e = with_error (native_event_new i ''error'') e"

lemma native_event_new_sel [simp]:
  "ev_id (native_event_new i k) = i" "ev_kind (native_event_new i k) = k"
  "ev_data (native_event_new i k) = None" "ev_message (native_event_new i k) = None"
  "ev_code (native_event_new i k) = None" "ev_errno (native_event_new i k) = None"
  "ev_baud_rate (native_event_new i k) = None"
  by (simp_all add: native_event_new_def native_event_default_def)

lemma with_error_sel [simp]:
  "ev_id (with_error ev e) = ev_id ev" "ev_kind (with_error ev e) = ev_kind ev"
  "ev_data (with_error ev e) = ev_data ev" "ev_message (with_error ev e) = Some (to_string e)"
  "ev_code (with_error ev e) = Some (code (kind e))" "ev_errno (with_error ev e) = raw_os_error e"
  by (simp_all add: with_error_def error_details_from_def)

lemma native_event_error_sel [simp]:
  "ev_id (native_event_error i e) = i" "ev_kind (native_event_error i e) = ''error''"
  "ev_data (native_event_error i e) = None"
  "ev_message (native_event_error i e) = Some (to_string e)"
  "ev_code (native_event_error i e) = Some (code (kind e))"
  "ev_errno (native_event_error i e) = raw_os_error e"
  by (simp_all add: native_event_error_def)

subsection \<open>Callback events\<close>

text \<open>\<open>Vec<u8>\<close> and \<open>Buffer\<close> contents are byte lists; \<open>InlineRead\<close> holds the
  whole inline array with the length of its used part.\<close>

datatype callback_event =
    InlineRead bytes nat
  | ReadBuffer bytes
  | ReadBatch "bytes list"
  | Event native_event

text \<open>\<open>CallbackEvent::read\<close>, with the buffer it leaves behind; \<open>None\<close> is the panic of
  \<open>&buffer[..len]\<close>.\<close>

definition callback_event_read :: "bytes \<Rightarrow> nat \<Rightarrow> (callback_event \<times> bytes) option" where
  "callback_event_read buffer len =
     (if len > INLINE_READ_CAPACITY then Some (ReadBuffer (take len buffer), [])
      else case slice_to buffer len of
             None \<Rightarrow> None
           | Some used \<Rightarrow>
               Some (InlineRead (used @ replicate (INLINE_READ_CAPACITY - len) 0) len, buffer))"

text \<open>The received bytes an event carries, as the chunks JavaScript is given.\<close>

fun event_chunks :: "callback_event \<Rightarrow> bytes list" where
  "event_chunks (InlineRead bs n) = [take n bs]"
| "event_chunks (ReadBuffer bs) = [bs]"
| "event_chunks (ReadBatch bss) = bss"
| "event_chunks (Event ev) = (case ev_data ev of None \<Rightarrow> [] | Some bs \<Rightarrow> [bs])"

abbreviation event_data :: "callback_event \<Rightarrow> bytes" where
  "event_data ev \<equiv> concat (event_chunks ev)"

lemma event_chunks_new [simp]:
  "event_chunks (Event (native_event_new i k)) = []"
  "event_chunks (Event (native_event_error i e)) = []"
  "event_chunks (Event (with_error (native_event_new i k) e)) = []"
  by simp_all

lemma callback_event_read_spec:
  assumes "len \<le> length buffer"
  shows "\<exists>ev buffer'. callback_event_read buffer len = Some (ev, buffer')
           \<and> event_chunks ev = [take len buffer] \<and> (buffer' = [] \<or> buffer' = buffer)"
  using assms by (auto simp: callback_event_read_def split: option.splits)

subsection \<open>The JavaScript side of the callback\<close>

datatype napi_status =
  Status_Ok | Status_InvalidArg | Status_GenericFailure | Status_QueueFull | Status_Closing
  | Status_Other

record napi_error =
  status :: napi_status
  reason :: string

definition napi_error_new :: "napi_status \<Rightarrow> string \<Rightarrow> napi_error" where
  "napi_error_new s m = \<lparr>status = s, reason = m\<rparr>"

definition from_reason :: "string \<Rightarrow> napi_error" where
  "from_reason m = napi_error_new Status_GenericFailure m"

lemma napi_error_sel [simp]:
  "status (napi_error_new s m) = s" "reason (napi_error_new s m) = m"
  "status (from_reason m) = Status_GenericFailure" "reason (from_reason m) = m"
  by (simp_all add: napi_error_new_def from_reason_def)

text \<open>
  The Node-API environment is a parameter: \<open>borrow_back\<close> resolves the stored reference to
  the allocator, \<open>allocate\<close> calls it with a length. Both may fail, and an allocator may
  return a buffer of another length.
\<close>

record 'j js_env =
  borrow_back :: "'j \<Rightarrow> (napi_error + unit) \<times> 'j"
  allocate :: "u32 \<Rightarrow> 'j \<Rightarrow> (napi_error + bytes) \<times> 'j"

definition pooled_read :: "'j js_env \<Rightarrow> bytes \<Rightarrow> 'j \<Rightarrow> (napi_error + bytes) \<times> 'j" where
  "pooled_read js data j =
     (case allocate js (word_of_nat (length data)) j of
        (Inl e, j') \<Rightarrow> (Inl e, j')
      | (Inr buffer, j') \<Rightarrow>
          if length buffer = length data then (Inr data, j')
          else (Inl (from_reason ''Invalid read buffer allocation''), j'))"

datatype callback_value =
    V_Buffer bytes
  | V_Buffers "bytes list"
  | V_Event native_event

text \<open>The loop over a batch; \<open>borrowed\<close> says whether the allocator is already borrowed.\<close>

fun pool_batch ::
  "'j js_env \<Rightarrow> bool \<Rightarrow> bytes list \<Rightarrow> 'j \<Rightarrow> (napi_error + bytes list) \<times> 'j" where
  "pool_batch js borrowed [] j = (Inr [], j)"
| "pool_batch js borrowed (data # rest) j =
     (if length data \<le> 1024 then
        (case (if borrowed then (Inr (), j) else borrow_back js j) of
           (Inl e, j') \<Rightarrow> (Inl e, j')
         | (Inr _, j') \<Rightarrow>
             (case pooled_read js data j' of
                (Inl e, j'') \<Rightarrow> (Inl e, j'')
              | (Inr data', j'') \<Rightarrow>
                  (case pool_batch js True rest j'' of
                     (Inl e, k) \<Rightarrow> (Inl e, k)
                   | (Inr rest', k) \<Rightarrow> (Inr (data' # rest'), k))))
      else
        (case pool_batch js borrowed rest j of
           (Inl e, k) \<Rightarrow> (Inl e, k)
         | (Inr rest', k) \<Rightarrow> (Inr (data # rest'), k)))"

text \<open>The closure of \<open>build_callback\<close>; \<open>None\<close> is the panic of \<open>&bytes[..len]\<close>.\<close>

fun build_callback ::
  "'j js_env \<Rightarrow> callback_event \<Rightarrow> 'j \<Rightarrow> ((napi_error + callback_value) \<times> 'j) option" where
  "build_callback js (InlineRead bs len) j =
     (case borrow_back js j of
        (Inl e, j') \<Rightarrow> Some (Inl e, j')
      | (Inr _, j') \<Rightarrow>
          (case slice_to bs len of
             None \<Rightarrow> None
           | Some data \<Rightarrow>
               (case pooled_read js data j' of (r, j'') \<Rightarrow> Some (map_sum (\<lambda>e. e) V_Buffer r, j''))))"
| "build_callback js (ReadBuffer data) j =
     (if length data \<le> 1024 then
        (case borrow_back js j of
           (Inl e, j') \<Rightarrow> Some (Inl e, j')
         | (Inr _, j') \<Rightarrow>
             (case pooled_read js data j' of (r, j'') \<Rightarrow> Some (map_sum (\<lambda>e. e) V_Buffer r, j'')))
      else Some (Inr (V_Buffer data), j))"
| "build_callback js (ReadBatch buffers) j =
     (case pool_batch js False buffers j of (r, j') \<Rightarrow> Some (map_sum (\<lambda>e. e) V_Buffers r, j'))"
| "build_callback js (Event ev) j = Some (Inr (V_Event ev), j)"

fun value_chunks :: "callback_value \<Rightarrow> bytes list" where
  "value_chunks (V_Buffer bs) = [bs]"
| "value_chunks (V_Buffers bss) = bss"
| "value_chunks (V_Event ev) = (case ev_data ev of None \<Rightarrow> [] | Some bs \<Rightarrow> [bs])"

text \<open>The inline array always holds its used part.\<close>

fun wf_event :: "callback_event \<Rightarrow> bool" where
  "wf_event (InlineRead bs n) = (n \<le> length bs)"
| "wf_event _ = True"

lemma callback_event_read_wf: "callback_event_read buffer len = Some (ev, buffer') \<Longrightarrow> wf_event ev"
  by (auto simp: callback_event_read_def split: if_splits option.splits)

lemma pooled_read_data: "pooled_read js data j = (Inr bs, j') \<Longrightarrow> bs = data"
  by (auto simp: pooled_read_def split: prod.splits sum.splits if_splits)

lemma pool_batch_data: "pool_batch js b bss j = (Inr css, j') \<Longrightarrow> css = bss"
  by (induction js b bss j arbitrary: css j' rule: pool_batch.induct)
    (fastforce split: if_splits prod.splits sum.splits dest: pooled_read_data)+

lemma build_callback_value_chunks:
  "build_callback js ev j = Some (Inr v, j') \<Longrightarrow> value_chunks v = event_chunks ev"
  by (cases ev) (auto split: if_splits prod.splits sum.splits option.splits
      dest!: pooled_read_data pool_batch_data)

text \<open>
  C33: the pooled copies JavaScript receives are the event's bytes, in order and cut into the
  same chunks, whichever of the inline, pooled or transferred paths an event takes.
\<close>

theorem build_callback_chunks:
  assumes "build_callback js ev j = Some (Inr v, j')"
  shows "value_chunks v = event_chunks ev"
  using assms by (rule build_callback_value_chunks)

definition node_env :: "nat js_env" where
  "node_env = \<lparr>borrow_back = (\<lambda>j. (Inr (), j)),
               allocate = (\<lambda>n j. (Inr (replicate (unat n) 0), j + unat n))\<rparr>"

theorem build_callback_chunks_witness:
  "build_callback node_env (ReadBatch [[1, 2], [3]]) 0 = Some (Inr (V_Buffers [[1, 2], [3]]), 3)
   \<and> value_chunks (V_Buffers [[1, 2], [3]]) = event_chunks (ReadBatch [[1, 2], [3]])"
proof -
  have h: "build_callback node_env (ReadBatch [[1, 2], [3]]) 0 = Some (Inr (V_Buffers [[1, 2], [3]]), 3)"
    by (simp add: node_env_def pooled_read_def)
  show ?thesis using h build_callback_chunks [OF h] by blast
qed

lemma build_callback_no_panic [panic_free]: "wf_event ev \<Longrightarrow> build_callback js ev j \<noteq> None"
  by (cases ev) (auto split: prod.splits sum.splits option.splits)

text \<open>
  A completed read of \<open>len\<close> bytes is published and delivered without a panic, and what
  JavaScript receives is exactly the first \<open>len\<close> bytes of the read buffer, never the stale
  bytes the retained buffer holds behind them.
\<close>

lemma read_event_delivers_prefix:
  assumes "len \<le> length buffer"
    and "\<And>n k. \<exists>k'. allocate js n k = (Inr (replicate (unat n) 0), k')"
    and "\<And>k. \<exists>k'. borrow_back js k = (Inr (), k')"
    and "len < 2 ^ 32"
  shows "\<exists>ev buffer' v j'. callback_event_read buffer len = Some (ev, buffer')
           \<and> build_callback js ev j = Some (Inr v, j') \<and> value_chunks v = [take len buffer]"
proof -
  obtain ev buffer' where ev: "callback_event_read buffer len = Some (ev, buffer')"
    and chunks: "event_chunks ev = [take len buffer]"
    using callback_event_read_spec [OF assms(1)] by blast
  have pooled: "\<exists>k'. pooled_read js data k = (Inr data, k')" if "length data \<le> len" for data k
  proof -
    have "unat (word_of_nat (length data) :: u32) = length data"
      using that assms(4) by (simp add: unat_of_nat)
    then show ?thesis
      using assms(2) [of "word_of_nat (length data)" k]
      by (auto simp: pooled_read_def split: prod.splits)
  qed
  have "\<exists>v j'. build_callback js ev j = Some (Inr v, j')"
  proof -
    obtain k where k: "borrow_back js j = (Inr (), k)" using assms(3) by blast
    obtain k' where k': "pooled_read js (take len buffer) k = (Inr (take len buffer), k')"
      using pooled [of "take len buffer" k] by auto
    have "take len (take len buffer @ ys) = take len buffer" for ys
      using assms(1) by simp
    then show ?thesis
      using ev assms(1) k k' by (auto simp: callback_event_read_def split: if_splits option.splits)
  qed
  with ev chunks show ?thesis
    by (metis build_callback_value_chunks)
qed

lemma read_event_delivers_prefix_witness:
  "\<exists>ev buffer' v j'. callback_event_read [7, 8, 9] 2 = Some (ev, buffer')
     \<and> build_callback node_env ev 0 = Some (Inr v, j') \<and> value_chunks v = [[7, 8]]"
  using read_event_delivers_prefix [of 2 "[7, 8, 9]" node_env 0]
  by (simp add: node_env_def)

end
