(* ===== verification/Serial_Stream.thy ===== *)
theory Serial_Stream
  imports Errors
begin

text \<open>
  The interface of \<open>platform::SerialStream\<close> that the reactor, the transfer poller and
  \<open>NativePort\<close> call: asynchronous and immediate transfers, the blocking drain and the
  control operations of the \<open>serialport\<close> crate reached through \<open>control()\<close>. The
  interface is a record of operations over an arbitrary port state, so the clients are proved
  for every platform; \<open>Unix_Stream\<close> provides it for \<open>platform/unix.rs\<close>.

  A read returns the bytes it stored at the start of the caller's buffer. What the clients rely
  on is the contract of the locale \<open>duplex\<close>: a transfer never exceeds the buffer it was
  given.
\<close>

subsection \<open>Platform data\<close>

datatype target_os = Linux | Android | Macos | Other_Unix | Windows

fun unix :: "target_os \<Rightarrow> bool" where
  "unix Windows = False"
| "unix _ = True"

text \<open>
  The terminal settings of \<open>termios\<close> the code reads and writes: sets of flags, each
  flag one bit of the platform's field. \<open>line_speed\<close> stands for the rest.
\<close>

datatype input_flag = IXON | IXOFF | IXANY | Other_Input nat

datatype control_flag = HUPCL | CMSPAR | PARENB | PARODD | Other_Control nat

record termios =
  input_flags :: "input_flag set"
  control_flags :: "control_flag set"
  line_speed :: u32

text \<open>The fields of Windows' \<open>DCB\<close> the code sets; \<open>dcb_bitfield\<close> packs the flags.\<close>

record dcb =
  dcb_baud_rate :: u32
  dcb_byte_size :: u8
  dcb_parity :: u8
  dcb_stop_bits :: u8
  dcb_bitfield :: u32

subsection \<open>Operations\<close>

text \<open>
  The \<open>SerialPort\<close> trait of the \<open>serialport\<close> crate, which \<open>control()\<close>
  and \<open>control_mut()\<close> give access to, with the terminal calls on the same handle.
\<close>

record 'p serial_port =
  bytes_to_write :: "'p \<Rightarrow> u32 io_result \<times> 'p"
  ctl_set_baud_rate :: "u32 \<Rightarrow> 'p \<Rightarrow> unit io_result \<times> 'p"
  ctl_baud_rate :: "'p \<Rightarrow> u32 io_result \<times> 'p"
  write_data_terminal_ready :: "bool \<Rightarrow> 'p \<Rightarrow> unit io_result \<times> 'p"
  write_request_to_send :: "bool \<Rightarrow> 'p \<Rightarrow> unit io_result \<times> 'p"
  set_break :: "'p \<Rightarrow> unit io_result \<times> 'p"
  clear_break :: "'p \<Rightarrow> unit io_result \<times> 'p"
  read_clear_to_send :: "'p \<Rightarrow> bool io_result \<times> 'p"
  read_data_set_ready :: "'p \<Rightarrow> bool io_result \<times> 'p"
  read_carrier_detect :: "'p \<Rightarrow> bool io_result \<times> 'p"
  clear_all :: "'p \<Rightarrow> unit io_result \<times> 'p"
  tcgetattr :: "'p \<Rightarrow> termios io_result \<times> 'p"
  tcsetattr :: "termios \<Rightarrow> 'p \<Rightarrow> unit io_result \<times> 'p"
  cfsetspeed :: "u32 \<Rightarrow> termios \<Rightarrow> termios io_result"
  cfgetospeed :: "termios \<Rightarrow> u32"
  get_comm_state :: "'p \<Rightarrow> dcb io_result \<times> 'p"
  set_comm_state :: "dcb \<Rightarrow> 'p \<Rightarrow> unit io_result \<times> 'p"

record 'p async_io =
  poll_read_io :: "nat \<Rightarrow> 'p \<Rightarrow> bytes io_result poll \<times> 'p"
  poll_write_io :: "bytes \<Rightarrow> 'p \<Rightarrow> nat io_result poll \<times> 'p"

record 'p serial_stream = "'p async_io" +
  try_read :: "nat \<Rightarrow> 'p \<Rightarrow> bytes io_result \<times> 'p"
  try_write :: "bytes \<Rightarrow> 'p \<Rightarrow> nat io_result \<times> 'p"
  drain_output :: "'p \<Rightarrow> unit io_result \<times> 'p"
  control_port :: "'p serial_port"

definition bounded_io :: "('p, 'z) async_io_scheme \<Rightarrow> bool" where
  "bounded_io io \<longleftrightarrow>
     (\<forall>n p bs p'. poll_read_io io n p = (Ready (Inr bs), p') \<longrightarrow> length bs \<le> n) \<and>
     (\<forall>xs p n p'. poll_write_io io xs p = (Ready (Inr n), p') \<longrightarrow> n \<le> length xs)"

definition bounded_stream :: "('p, 'z) serial_stream_scheme \<Rightarrow> bool" where
  "bounded_stream io \<longleftrightarrow> bounded_io io \<and>
     (\<forall>n p bs p'. try_read io n p = (Inr bs, p') \<longrightarrow> length bs \<le> n) \<and>
     (\<forall>xs p n p'. try_write io xs p = (Inr n, p') \<longrightarrow> n \<le> length xs)"

locale duplex =
  fixes io :: "('p, 'z) async_io_scheme"
  assumes poll_read_bounded: "poll_read_io io n p = (Ready (Inr bs), p') \<Longrightarrow> length bs \<le> n"
    and poll_write_bounded: "poll_write_io io xs p = (Ready (Inr n), p') \<Longrightarrow> n \<le> length xs"
begin

lemma duplex_bounded_io: "bounded_io io"
  by (auto simp: bounded_io_def dest: poll_read_bounded poll_write_bounded)

end

lemma bounded_io_read:
  "bounded_io io \<Longrightarrow> poll_read_io io n p = (Ready (Inr bs), p') \<Longrightarrow> length bs \<le> n"
  unfolding bounded_io_def by blast

lemma bounded_io_write:
  "bounded_io io \<Longrightarrow> poll_write_io io xs p = (Ready (Inr n), p') \<Longrightarrow> n \<le> length xs"
  unfolding bounded_io_def by blast

lemma bounded_stream_io: "bounded_stream io \<Longrightarrow> bounded_io io"
  by (simp add: bounded_stream_def)

lemma bounded_stream_read:
  "bounded_stream io \<Longrightarrow> try_read io n p = (Inr bs, p') \<Longrightarrow> length bs \<le> n"
  unfolding bounded_stream_def by blast

lemma bounded_stream_write:
  "bounded_stream io \<Longrightarrow> try_write io xs p = (Inr n, p') \<Longrightarrow> n \<le> length xs"
  unfolding bounded_stream_def by blast

end
