(* ===== verification/Control.thy ===== *)
theory Control
  imports Commands Events Serial_Stream
begin

text \<open>
  The state a port shares between the JavaScript thread and its reactor (\<open>struct Control\<close>
  of \<open>src/src/lib.rs\<close> and the command channel), and the atomic accesses to it.

  The runtime libraries are a parameter \<open>'e runtime\<close> over an arbitrary state
  \<open>outside\<close>: tokio's channel, \<open>Notify\<close>, task budget, timer and blocking pool, and
  the threadsafe function of Node-API. The other threads are a parameter too: every shared access
  is preceded by a call of \<open>peer\<close>, which may do to the shared state whatever the other
  threads did since the previous access. Theorems quantify over it.
\<close>

record 'e runtime =
  try_send :: "command \<Rightarrow> 'e \<Rightarrow> (string + unit) \<times> 'e"
  recv :: "'e \<Rightarrow> command option poll \<times> 'e"
  notify_one :: "'e \<Rightarrow> 'e"
  notified :: "'e \<Rightarrow> bool \<times> 'e"
  call_nonblocking :: "callback_event \<Rightarrow> 'e \<Rightarrow> napi_status \<times> 'e"
  poll_proceed :: "'e \<Rightarrow> bool \<times> 'e"
  sleep_elapsed :: "'e \<Rightarrow> bool \<times> 'e"
  join_error :: "'e \<Rightarrow> string option \<times> 'e"
  drop_receiver :: "'e \<Rightarrow> 'e"

text \<open>
  \<open>session\<close>, \<open>poisoned\<close> and \<open>held\<close> are the \<open>Mutex<Option<SerialStream>>\<close>:
  its content, whether a holder panicked, and whether another thread holds it now.
\<close>

record ('p, 'e) control =
  stop :: bool
  pending_ops :: usize
  session :: "'p option"
  poisoned :: bool
  held :: bool
  outside :: 'e

type_synonym ('p, 'e) peer = "('p, 'e) control \<Rightarrow> ('p, 'e) control"

definition no_peer :: "('p, 'e) peer" where
  "no_peer s = s"

lemma no_peer_apply [simp]: "no_peer s = s"
  by (simp add: no_peer_def)

subsection \<open>Atomic accesses\<close>

definition load_stop :: "('p, 'e) peer \<Rightarrow> ('p, 'e) control \<Rightarrow> bool \<times> ('p, 'e) control" where
  "load_stop peer s = (let s = peer s in (stop s, s))"

definition load_pending :: "('p, 'e) peer \<Rightarrow> ('p, 'e) control \<Rightarrow> usize \<times> ('p, 'e) control" where
  "load_pending peer s = (let s = peer s in (pending_ops s, s))"

definition fetch_add_pending ::
  "('p, 'e) peer \<Rightarrow> ('p, 'e) control \<Rightarrow> usize \<times> ('p, 'e) control" where
  "fetch_add_pending peer s =
     (let s = peer s in (pending_ops s, s\<lparr>pending_ops := pending_ops s + 1\<rparr>))"

definition fetch_sub_pending :: "('p, 'e) peer \<Rightarrow> ('p, 'e) control \<Rightarrow> ('p, 'e) control" where
  "fetch_sub_pending peer s = (let s = peer s in s\<lparr>pending_ops := pending_ops s - 1\<rparr>)"

definition send_command ::
  "'e runtime \<Rightarrow> ('p, 'e) peer \<Rightarrow> command \<Rightarrow> ('p, 'e) control
     \<Rightarrow> (string + unit) \<times> ('p, 'e) control" where
  "send_command rt peer c s =
     (let s = peer s; (r, e) = try_send rt c (outside s) in (r, s\<lparr>outside := e\<rparr>))"

text \<open>\<open>Control::stop\<close>\<close>

definition control_stop ::
  "'e runtime \<Rightarrow> ('p, 'e) peer \<Rightarrow> ('p, 'e) control \<Rightarrow> ('p, 'e) control" where
  "control_stop rt peer s =
     (let s = (peer s)\<lparr>stop := True\<rparr>; s = peer s in s\<lparr>outside := notify_one rt (outside s)\<rparr>)"

lemmas access_defs = load_stop_def load_pending_def fetch_add_pending_def fetch_sub_pending_def
  send_command_def control_stop_def

lemma fetch_sub_sel [simp]:
  "stop (fetch_sub_pending peer s) = stop (peer s)"
  "session (fetch_sub_pending peer s) = session (peer s)"
  "poisoned (fetch_sub_pending peer s) = poisoned (peer s)"
  "outside (fetch_sub_pending peer s) = outside (peer s)"
  "pending_ops (fetch_sub_pending peer s) = pending_ops (peer s) - 1"
  by (simp_all add: fetch_sub_pending_def Let_def)

subsection \<open>The command channel\<close>

text \<open>
  What the code relies on of the bounded channel: it is a queue of commands that keeps their
  order, and no other call of the runtime takes a command out or puts one in.
\<close>

locale command_channel =
  fixes rt :: "'e runtime" and contents :: "'e \<Rightarrow> command list"
  assumes try_send_Inr: "try_send rt c e = (Inr (), e') \<Longrightarrow> contents e' = contents e @ [c]"
    and try_send_Inl: "try_send rt c e = (Inl m, e') \<Longrightarrow> contents e' = contents e"
    and recv_Some: "recv rt e = (Ready (Some c), e') \<Longrightarrow> contents e = c # contents e'"
    and recv_other: "recv rt e = (r, e') \<Longrightarrow> \<forall>c. r \<noteq> Ready (Some c) \<Longrightarrow> contents e' = contents e"
    and notify_contents: "contents (notify_one rt e) = contents e"
    and call_contents: "call_nonblocking rt ev e = (st, e') \<Longrightarrow> contents e' = contents e"
begin

lemma send_command_contents:
  assumes "send_command rt peer c s = (r, s')"
  shows "contents (outside s') = contents (outside (peer s)) @ (case r of Inl _ \<Rightarrow> [] | Inr _ \<Rightarrow> [c])
     \<and> pending_ops s' = pending_ops (peer s) \<and> session s' = session (peer s) \<and> stop s' = stop (peer s)"
  using assms by (auto simp: send_command_def Let_def split: prod.splits sum.splits
      dest: try_send_Inr try_send_Inl)

end

text \<open>
  A concrete runtime: a bounded first-in first-out channel whose receiver can be closed, a permit
  for the notification and a callback queue of 128 entries that can be closing.
\<close>

record fifo =
  queue :: "command list"
  receiver_gone :: bool
  senders_gone :: bool
  permit :: bool
  callbacks :: "callback_event list"
  closing :: bool

definition fifo_runtime :: "nat \<Rightarrow> fifo runtime" where
  "fifo_runtime capacity =
     \<lparr>try_send = (\<lambda>c e. if receiver_gone e then (Inl ''channel closed'', e)
                   else if length (queue e) \<ge> capacity then (Inl ''no available capacity'', e)
                   else (Inr (), e\<lparr>queue := queue e @ [c]\<rparr>)),
      recv = (\<lambda>e. case queue e of
                    c # cs \<Rightarrow> (Ready (Some c), e\<lparr>queue := cs\<rparr>)
                  | [] \<Rightarrow> if senders_gone e then (Ready None, e) else (Pending, e)),
      notify_one = (\<lambda>e. e\<lparr>permit := True\<rparr>),
      notified = (\<lambda>e. (permit e, e\<lparr>permit := False\<rparr>)),
      call_nonblocking = (\<lambda>ev e. if closing e then (Status_Closing, e)
                            else if length (callbacks e) \<ge> 128 then (Status_QueueFull, e)
                            else (Status_Ok, e\<lparr>callbacks := callbacks e @ [ev]\<rparr>)),
      poll_proceed = (\<lambda>e. (True, e)),
      sleep_elapsed = (\<lambda>e. (True, e)),
      join_error = (\<lambda>e. (None, e)),
      drop_receiver = (\<lambda>e. e\<lparr>receiver_gone := True, queue := []\<rparr>)\<rparr>"

lemma fifo_runtime_sel [simp]:
  "try_send (fifo_runtime n) c e =
     (if receiver_gone e then (Inl ''channel closed'', e)
      else if length (queue e) \<ge> n then (Inl ''no available capacity'', e)
      else (Inr (), e\<lparr>queue := queue e @ [c]\<rparr>))"
  "recv (fifo_runtime n) e =
     (case queue e of
        c # cs \<Rightarrow> (Ready (Some c), e\<lparr>queue := cs\<rparr>)
      | [] \<Rightarrow> if senders_gone e then (Ready None, e) else (Pending, e))"
  "notify_one (fifo_runtime n) e = e\<lparr>permit := True\<rparr>"
  "notified (fifo_runtime n) e = (permit e, e\<lparr>permit := False\<rparr>)"
  "call_nonblocking (fifo_runtime n) ev e =
     (if closing e then (Status_Closing, e)
      else if length (callbacks e) \<ge> 128 then (Status_QueueFull, e)
      else (Status_Ok, e\<lparr>callbacks := callbacks e @ [ev]\<rparr>))"
  "poll_proceed (fifo_runtime n) e = (True, e)"
  "sleep_elapsed (fifo_runtime n) e = (True, e)"
  "join_error (fifo_runtime n) e = (None, e)"
  "drop_receiver (fifo_runtime n) e = e\<lparr>receiver_gone := True, queue := []\<rparr>"
  by (simp_all add: fifo_runtime_def)

definition empty_fifo :: fifo where
  "empty_fifo = \<lparr>queue = [], receiver_gone = False, senders_gone = False, permit = False,
                 callbacks = [], closing = False\<rparr>"

interpretation fifo_channel: command_channel "fifo_runtime n" queue for n
  by unfold_locales (auto split: if_splits list.splits)

text \<open>\<open>NativePort::new\<close>'s fresh control block.\<close>

definition control_new :: "'e \<Rightarrow> ('p, 'e) control" where
  "control_new e = \<lparr>stop = False, pending_ops = 0, session = None, poisoned = False,
                    held = False, outside = e\<rparr>"

end
