(* ===== verification/Transfer_Poller.thy ===== *)
theory Transfer_Poller
  imports Serial_Stream
begin

text \<open>
  \<open>src/src/transfer.rs\<close>: the poller that shares one port between a pending read and a
  pending write. The task context is the number of wake-ups it has recorded; the read buffer is
  passed in and returned with the bytes the port stored in it.
\<close>

datatype transfer = Tr_Read nat | Tr_Write nat

record transfer_poller =
  write_first :: bool

definition transfer_poller_default :: transfer_poller where
  "transfer_poller_default = \<lparr>write_first = False\<rparr>"

definition retry_interrupted ::
  "transfer io_result poll \<Rightarrow> nat \<Rightarrow> transfer io_result poll \<times> nat" where
  "retry_interrupted result wakes =
     (case result of
        Ready (Inl e) \<Rightarrow> if kind e = Interrupted then (Pending, Suc wakes) else (result, wakes)
      | _ \<Rightarrow> (result, wakes))"

text \<open>Storing a read's bytes at the start of the buffer.\<close>

definition fill :: "bytes \<Rightarrow> bytes \<Rightarrow> bytes" where
  "fill bs buf = bs @ drop (length bs) buf"

definition poll_read ::
  "('p, 'z) async_io_scheme \<Rightarrow> 'p \<Rightarrow> nat \<Rightarrow> bytes option
     \<Rightarrow> transfer io_result poll \<times> 'p \<times> nat \<times> bytes option" where
  "poll_read io port wakes buffer =
     (case buffer of
        None \<Rightarrow> (Pending, port, wakes, None)
      | Some buf \<Rightarrow>
          (let (r, port') = poll_read_io io (length buf) port;
               (result, wakes') =
                 retry_interrupted (map_poll (map_sum (\<lambda>e. e) (\<lambda>bs. Tr_Read (length bs))) r) wakes
           in (result, port', wakes',
               Some (case r of Ready (Inr bs) \<Rightarrow> fill bs buf | _ \<Rightarrow> buf))))"

definition poll_write ::
  "('p, 'z) async_io_scheme \<Rightarrow> 'p \<Rightarrow> nat \<Rightarrow> bytes option
     \<Rightarrow> transfer io_result poll \<times> 'p \<times> nat" where
  "poll_write io port wakes data =
     (case data of
        None \<Rightarrow> (Pending, port, wakes)
      | Some xs \<Rightarrow>
          (let (r, port') = poll_write_io io xs port;
               (result, wakes') =
                 retry_interrupted (map_poll (map_sum (\<lambda>e. e) Tr_Write) r) wakes
           in (result, port', wakes')))"

fun is_read :: "transfer \<Rightarrow> bool" where
  "is_read (Tr_Read _) = True"
| "is_read (Tr_Write _) = False"

text \<open>\<open>TransferPoller::poll\<close>: the preferred direction first, then the other.\<close>

definition poll ::
  "('p, 'z) async_io_scheme \<Rightarrow> transfer_poller \<Rightarrow> 'p \<Rightarrow> nat \<Rightarrow> bytes option \<Rightarrow> bytes option
     \<Rightarrow> transfer io_result poll \<times> transfer_poller \<times> 'p \<times> nat \<times> bytes option" where
  "poll io tp port wakes rd wr =
     (let (ready, port', wakes', rd') =
        (if write_first tp then
           (case poll_write io port wakes wr of
              (Pending, p, w) \<Rightarrow> poll_read io p w rd
            | (ready, p, w) \<Rightarrow> (ready, p, w, rd))
         else
           (case poll_read io port wakes rd of
              (Pending, p, w, rd') \<Rightarrow> (case poll_write io p w wr of (r, p', w') \<Rightarrow> (r, p', w', rd'))
            | ready \<Rightarrow> ready));
      tp' = (case ready of Ready (Inr t) \<Rightarrow> tp\<lparr>write_first := is_read t\<rparr> | _ \<Rightarrow> tp)
      in (ready, tp', port', wakes', rd'))"

subsection \<open>One direction\<close>

lemma poll_read_Ready_Inr:
  "poll_read io port w rd = (Ready (Inr t), port', w', rd') \<longleftrightarrow>
     (\<exists>buf bs. rd = Some buf \<and> poll_read_io io (length buf) port = (Ready (Inr bs), port')
        \<and> t = Tr_Read (length bs) \<and> w' = w \<and> rd' = Some (fill bs buf))"
  by (auto simp: poll_read_def retry_interrupted_def
      split: option.splits prod.splits poll.splits sum.splits if_splits)

lemma poll_write_Ready_Inr:
  "poll_write io port w wr = (Ready (Inr t), port', w') \<longleftrightarrow>
     (\<exists>xs n. wr = Some xs \<and> poll_write_io io xs port = (Ready (Inr n), port')
        \<and> t = Tr_Write n \<and> w' = w)"
  by (auto simp: poll_write_def retry_interrupted_def
      split: option.splits prod.splits poll.splits sum.splits if_splits)

lemma poll_read_Ready_Inl:
  "poll_read io port w rd = (Ready (Inl e), port', w', rd') \<Longrightarrow> kind e \<noteq> Interrupted"
  by (auto simp: poll_read_def retry_interrupted_def
      split: option.splits prod.splits poll.splits sum.splits if_splits)

lemma poll_write_Ready_Inl:
  "poll_write io port w wr = (Ready (Inl e), port', w') \<Longrightarrow> kind e \<noteq> Interrupted"
  by (auto simp: poll_write_def retry_interrupted_def
      split: option.splits prod.splits poll.splits sum.splits if_splits)

lemma poll_read_Pending:
  "poll_read io port w rd = (Pending, port', w', rd') \<Longrightarrow>
     rd' = rd \<and> (rd = None \<and> port' = port \<and> w' = w \<or>
       (\<exists>buf. rd = Some buf \<and> (poll_read_io io (length buf) port = (Pending, port') \<and> w' = w \<or>
         (\<exists>e. poll_read_io io (length buf) port = (Ready (Inl e), port')
              \<and> kind e = Interrupted \<and> w' = Suc w))))"
  by (auto simp: poll_read_def retry_interrupted_def
      split: option.splits prod.splits poll.splits sum.splits if_splits)

lemma poll_write_Pending:
  "poll_write io port w wr = (Pending, port', w') \<Longrightarrow>
     wr = None \<and> port' = port \<and> w' = w \<or>
       (\<exists>xs. wr = Some xs \<and> (poll_write_io io xs port = (Pending, port') \<and> w' = w \<or>
         (\<exists>e. poll_write_io io xs port = (Ready (Inl e), port')
              \<and> kind e = Interrupted \<and> w' = Suc w)))"
  by (auto simp: poll_write_def retry_interrupted_def
      split: option.splits prod.splits poll.splits sum.splits if_splits)


subsection \<open>Both directions\<close>

lemma poll_Ready_Inr:
  assumes "poll io tp port w rd wr = (Ready (Inr t), tp', port', w', rd')"
  shows "write_first tp' = is_read t \<and>
    ((\<exists>buf bs q. t = Tr_Read (length bs) \<and> rd = Some buf \<and> rd' = Some (fill bs buf)
        \<and> poll_read_io io (length buf) q = (Ready (Inr bs), port')) \<or>
     (\<exists>xs n q. t = Tr_Write n \<and> wr = Some xs \<and> rd' = rd
        \<and> poll_write_io io xs q = (Ready (Inr n), port')))"
  using assms
  by (auto simp: poll_def poll_read_Ready_Inr poll_write_Ready_Inr
      split: prod.splits if_splits poll.splits dest!: poll_read_Pending)

lemma poll_Ready_Inl:
  "poll io tp port w rd wr = (Ready (Inl e), tp', port', w', rd') \<Longrightarrow> kind e \<noteq> Interrupted \<and> tp' = tp"
  by (auto simp: poll_def split: prod.splits if_splits poll.splits
      dest: poll_read_Ready_Inl poll_write_Ready_Inl)

lemma poll_Pending_frame:
  "poll io tp port w rd wr = (Pending, tp', port', w', rd') \<Longrightarrow> tp' = tp \<and> rd' = rd"
  by (auto simp: poll_def split: prod.splits if_splits poll.splits dest!: poll_read_Pending)

lemma poll_write_ready:
  "write_first tp \<Longrightarrow> poll_write_io io xs port = (Ready (Inr k), port') \<Longrightarrow>
     poll io tp port w rd (Some xs) = (Ready (Inr (Tr_Write k)), tp\<lparr>write_first := False\<rparr>, port', w, rd)"
  by (simp add: poll_def poll_write_def retry_interrupted_def)

lemma poll_read_ready:
  "\<not> write_first tp \<Longrightarrow> poll_read_io io (length buf) port = (Ready (Inr bs), port') \<Longrightarrow>
     poll io tp port w (Some buf) wr =
       (Ready (Inr (Tr_Read (length bs))), tp\<lparr>write_first := True\<rparr>, port', w, Some (fill bs buf))"
  by (simp add: poll_def poll_read_def retry_interrupted_def)

text \<open>
  After a transfer in one direction, the next poll serves the other direction whenever that
  direction is wanted and the port is ready for it, whatever the first direction offers and
  whatever happened to the port in between.
\<close>

lemma poll_serves_other_direction:
  assumes "poll io tp port w rd wr = (Ready (Inr t), tp', port', w', rd')"
  shows "(is_read t \<longrightarrow> poll_write_io io xs q = (Ready (Inr k), q') \<longrightarrow>
            fst (poll io tp' q v rd2 (Some xs)) = Ready (Inr (Tr_Write k))) \<and>
         (\<not> is_read t \<longrightarrow> poll_read_io io (length buf) q = (Ready (Inr bs), q') \<longrightarrow>
            fst (poll io tp' q v (Some buf) wr2) = Ready (Inr (Tr_Read (length bs))))"
  using poll_Ready_Inr [OF assms] by (auto simp: poll_write_ready poll_read_ready)

text \<open>A port that is always ready, and one whose reads are interrupted and writes refused, for
  the concrete instances; the state counts the operations.\<close>

definition ready_io :: "nat async_io" where
  "ready_io = \<lparr>poll_read_io = (\<lambda>n p. (Ready (Inr (take n [42])), Suc p)),
               poll_write_io = (\<lambda>xs p. (Ready (Inr (length xs)), Suc p))\<rparr>"

definition failing_io :: "nat async_io" where
  "failing_io = \<lparr>poll_read_io = (\<lambda>n p. (Ready (Inl (io_error_new Interrupted ''EINTR'')), Suc p)),
                 poll_write_io = (\<lambda>xs p. (Ready (Inl (io_error_new BrokenPipe ''EPIPE'')), Suc p))\<rparr>"

lemma poll_serves_other_direction_witness:
  "poll ready_io transfer_poller_default 0 0 (Some [0]) (Some [7])
     = (Ready (Inr (Tr_Read 1)), \<lparr>write_first = True\<rparr>, 1, 0, Some [42]) \<and>
   fst (poll ready_io \<lparr>write_first = True\<rparr> 1 0 (Some [0]) (Some [7])) = Ready (Inr (Tr_Write 1))"
proof -
  have h: "poll ready_io transfer_poller_default 0 0 (Some [0]) (Some [7])
     = (Ready (Inr (Tr_Read 1)), \<lparr>write_first = True\<rparr>, 1, 0, Some [42])"
    by (simp add: ready_io_def transfer_poller_default_def poll_read_ready fill_def)
  show ?thesis
    using h poll_serves_other_direction [OF h, of "[7]" 1 1 2 0 "Some [0]"]
    by (simp add: ready_io_def)
qed

text \<open>A run of polls, each with a fresh read buffer and write slice.\<close>

fun poll_run ::
  "('p, 'z) async_io_scheme \<Rightarrow> transfer_poller \<Rightarrow> 'p \<Rightarrow> nat \<Rightarrow> (bytes \<times> bytes) list
     \<Rightarrow> transfer io_result poll list" where
  "poll_run io tp port w [] = []"
| "poll_run io tp port w ((buf, xs) # rest) =
     (case poll io tp port w (Some buf) (Some xs) of
        (ready, tp', port', w', _) \<Rightarrow> ready # poll_run io tp' port' w' rest)"

definition always_ready :: "('p, 'z) async_io_scheme \<Rightarrow> bool" where
  "always_ready io \<longleftrightarrow>
     (\<forall>n p. \<exists>bs p'. poll_read_io io n p = (Ready (Inr bs), p')) \<and>
     (\<forall>xs p. \<exists>k p'. poll_write_io io xs p = (Ready (Inr k), p'))"

lemma poll_always_ready:
  assumes "always_ready io"
  shows "\<exists>t tp' port' w' rd'. poll io tp port w (Some buf) (Some xs)
           = (Ready (Inr t), tp', port', w', rd')
         \<and> is_read t = (\<not> write_first tp) \<and> write_first tp' = (\<not> write_first tp)"
proof (cases "write_first tp")
  case True
  obtain k p' where "poll_write_io io xs port = (Ready (Inr k), p')"
    using assms by (meson always_ready_def)
  with True show ?thesis by (simp add: poll_write_ready)
next
  case False
  obtain bs p' where "poll_read_io io (length buf) port = (Ready (Inr bs), p')"
    using assms by (meson always_ready_def)
  with False show ?thesis by (simp add: poll_read_ready)
qed

text \<open>
  C32: on a port that is always ready in both directions, neither direction starves: successive
  polls alternate strictly between reading and writing, starting with the preferred one.
\<close>

theorem poll_run_alternates:
  assumes "always_ready io" and "i < length reqs"
  shows "\<exists>t. poll_run io tp port w reqs ! i = Ready (Inr t)
           \<and> is_read t = (write_first tp \<longleftrightarrow> odd i)"
  using assms(2)
proof (induction reqs arbitrary: i tp port w)
  case Nil
  then show ?case by simp
next
  case (Cons req reqs)
  obtain buf xs where req: "req = (buf, xs)" by (cases req)
  obtain t tp' port' w' rd' where
    p: "poll io tp port w (Some buf) (Some xs) = (Ready (Inr t), tp', port', w', rd')"
    and t: "is_read t = (\<not> write_first tp)" "write_first tp' = (\<not> write_first tp)"
    using poll_always_ready [OF assms(1)] by blast
  show ?case
  proof (cases i)
    case 0
    with p t req show ?thesis by simp
  next
    case (Suc k)
    with Cons.prems have "k < length reqs" by simp
    from Cons.IH [OF this, of tp' port' w'] p t req Suc show ?thesis by auto
  qed
qed

theorem poll_run_alternates_witness:
  "always_ready ready_io \<and>
   (\<exists>t. poll_run ready_io transfer_poller_default 0 0 [([0], [7]), ([0], [7])] ! 1 = Ready (Inr t)
        \<and> is_read t = False)"
proof -
  have r: "always_ready ready_io" by (simp add: always_ready_def ready_io_def)
  show ?thesis
    using r poll_run_alternates [OF r, of 1 "[([0], [7]), ([0], [7])]" transfer_poller_default 0 0]
    by (simp add: transfer_poller_default_def)
qed

text \<open>What a direction that made no progress did: it registered its waker, or was interrupted
  and woke the task itself.\<close>

definition stalls :: "'a io_result poll \<Rightarrow> bool" where
  "stalls r \<longleftrightarrow> r = Pending \<or> (\<exists>e. r = Ready (Inl e) \<and> kind e = Interrupted)"

definition wake_ups :: "'a io_result poll \<Rightarrow> nat" where
  "wake_ups r = (case r of Pending \<Rightarrow> 0 | Ready _ \<Rightarrow> 1)"

lemma poll_read_stalls:
  "poll_read io port w (Some buf) = (Pending, port', w', rd') \<longleftrightarrow>
     stalls (fst (poll_read_io io (length buf) port)) \<and> port' = snd (poll_read_io io (length buf) port)
     \<and> w' = w + wake_ups (fst (poll_read_io io (length buf) port)) \<and> rd' = Some buf"
  by (auto simp: poll_read_def retry_interrupted_def stalls_def wake_ups_def
      split: prod.splits poll.splits sum.splits if_splits)

lemma poll_write_stalls:
  "poll_write io port w (Some xs) = (Pending, port', w') \<longleftrightarrow>
     stalls (fst (poll_write_io io xs port)) \<and> port' = snd (poll_write_io io xs port)
     \<and> w' = w + wake_ups (fst (poll_write_io io xs port))"
  by (auto simp: poll_write_def retry_interrupted_def stalls_def wake_ups_def
      split: prod.splits poll.splits sum.splits if_splits)

lemma poll_Pending_iff:
  "poll io tp port w rd wr = (Pending, tp', port', w', rd') \<longleftrightarrow>
     tp' = tp \<and>
     (if write_first tp
      then \<exists>p1 w1. poll_write io port w wr = (Pending, p1, w1)
             \<and> poll_read io p1 w1 rd = (Pending, port', w', rd')
      else \<exists>p1 w1. poll_read io port w rd = (Pending, p1, w1, rd')
             \<and> poll_write io p1 w1 wr = (Pending, port', w'))"
  by (auto simp: poll_def split: prod.splits if_splits poll.splits)

text \<open>
  An interruption is never reported as an error and never lost. A poll of both directions
  returns \<open>Pending\<close> exactly when both stall, and it has then woken the task once per
  interrupted direction, so that it is polled again; neither the preference nor the buffer
  changes.
\<close>

lemma poll_pending_iff:
  "let rp = poll_read_io io (length buf); wp = poll_write_io io xs in
   poll io tp port w (Some buf) (Some xs) = (Pending, tp', port', w', rd') \<longleftrightarrow>
     tp' = tp \<and> rd' = Some buf \<and>
     (if write_first tp
      then stalls (fst (wp port)) \<and> stalls (fst (rp (snd (wp port))))
           \<and> port' = snd (rp (snd (wp port)))
           \<and> w' = w + wake_ups (fst (wp port)) + wake_ups (fst (rp (snd (wp port))))
      else stalls (fst (rp port)) \<and> stalls (fst (wp (snd (rp port))))
           \<and> port' = snd (wp (snd (rp port)))
           \<and> w' = w + wake_ups (fst (rp port)) + wake_ups (fst (wp (snd (rp port)))))"
  by (auto simp: Let_def poll_Pending_iff poll_read_stalls poll_write_stalls)

text \<open>
  A permanent error of the preferred direction is reported at once: the other direction is
  not polled, nothing is transferred and the preference stays.
\<close>

lemma poll_permanent_error:
  assumes "kind e \<noteq> Interrupted"
    and "if write_first tp then poll_write_io io xs port = (Ready (Inl e), port')
         else poll_read_io io (length buf) port = (Ready (Inl e), port')"
  shows "poll io tp port w (Some buf) (Some xs) = (Ready (Inl e), tp, port', w, Some buf)"
  using assms
  by (auto simp: poll_def poll_read_def poll_write_def retry_interrupted_def split: if_splits)

lemma poll_permanent_error_witness:
  "poll failing_io \<lparr>write_first = True\<rparr> 0 0 (Some [0]) (Some [7])
     = (Ready (Inl (io_error_new BrokenPipe ''EPIPE'')), \<lparr>write_first = True\<rparr>, 1, 0, Some [0])"
  by (rule poll_permanent_error) (simp_all add: failing_io_def)

end
