(* ===== verification/Settings.thy ===== *)
theory Settings
  imports Complex_Main Serial_Stream
begin

text \<open>
  \<open>src/src/settings.rs\<close> and \<open>src/src/platform.rs\<close>: validating the options,
  opening the device and applying line settings and speeds. Conditional compilation is a case
  distinction on the target operating system.
\<close>

subsection \<open>Options\<close>

text \<open>JavaScript numbers arrive as \<open>f64\<close>: a rational, an infinity or not a number.\<close>

datatype f64 = F64 rat | F64_infinite bool | F64_nan

record native_options =
  path :: string
  baud_rate :: u32
  data_bits :: u32
  stop_bits :: f64
  parity :: string
  lock :: bool
  rtscts :: bool
  xon :: bool
  xoff :: bool
  xany :: bool
  hupcl :: bool

datatype data_bits_setting = Five | Six | Seven | Eight
datatype stop_bits_setting = One | Two
datatype parity_setting = Parity_None | Parity_Odd | Parity_Even
datatype flow_control_setting = Flow_None | Flow_Hardware | Flow_Software

record builder =
  b_path :: string
  b_baud_rate :: u32
  b_data_bits :: data_bits_setting
  b_stop_bits :: stop_bits_setting
  b_parity :: parity_setting
  b_flow :: flow_control_setting
  b_exclusive :: "bool option"

text \<open>\<open>serialport::Error\<close>: its description and its conversion to \<open>io::Error\<close>.\<close>

record sp_error =
  description :: string
  into_io :: io_error

text \<open>
  The device namespace is a parameter: \<open>open_stream\<close> is \<open>SerialStream::open\<close> and
  \<open>enotty_desc\<close> the text of \<open>ENOTTY\<close>.
\<close>

record ('p, 'w) devices =
  open_stream :: "builder \<Rightarrow> 'w \<Rightarrow> (sp_error + 'p) \<times> 'w"
  enotty_desc :: string

subsection \<open>platform.rs\<close>

definition platform_open ::
  "target_os \<Rightarrow> ('p, 'w) devices \<Rightarrow> builder \<Rightarrow> 'w \<Rightarrow> 'p io_result \<times> 'w" where
  "platform_open os dev b w =
     (let (opened, w) = open_stream dev b w in
      case opened of
        Inl e \<Rightarrow>
          if os = Macos \<and> description e = enotty_desc dev then
            (let (again, w) = open_stream dev (b\<lparr>b_baud_rate := 0\<rparr>) w in
             (map_sum into_io (\<lambda>p. p) again, w))
          else (Inl (into_io e), w)
      | Inr p \<Rightarrow> (Inr p, w))"

definition set_baud_rate ::
  "target_os \<Rightarrow> ('p, 'z) serial_stream_scheme \<Rightarrow> u32 \<Rightarrow> 'p \<Rightarrow> unit io_result \<times> 'p" where
  "set_baud_rate os io baud p =
     (if baud = 0 then (Inl (invalid ''Baud rate must be positive''), p)
      else
        let (posix, p) =
          (if os = Macos then
             let (r, p) = ctl_baud_rate (control_port io) p in (map_sum (\<lambda>e. e) (\<lambda>current. current = 0) r, p)
           else (Inr False, p)) in
        case posix of
          Inl e \<Rightarrow> (Inl e, p)
        | Inr True \<Rightarrow>
            (let (r, p) = tcgetattr (control_port io) p in
             case r of
               Inl e \<Rightarrow> (Inl e, p)
             | Inr settings \<Rightarrow>
                 (case cfsetspeed (control_port io) baud settings of
                    Inl e \<Rightarrow> (Inl e, p)
                  | Inr settings \<Rightarrow> tcsetattr (control_port io) settings p))
        | Inr False \<Rightarrow> ctl_set_baud_rate (control_port io) baud p)"

definition get_baud_rate ::
  "target_os \<Rightarrow> ('p, 'z) serial_stream_scheme \<Rightarrow> 'p \<Rightarrow> u32 io_result \<times> 'p" where
  "get_baud_rate os io p =
     (let (r, p) = ctl_baud_rate (control_port io) p in
      case r of
        Inl e \<Rightarrow> (Inl e, p)
      | Inr baud \<Rightarrow>
          if os = Macos \<and> baud = 0 then
            (let (r, p) = tcgetattr (control_port io) p in (map_sum (\<lambda>e. e) (cfgetospeed (control_port io)) r, p))
          else (Inr baud, p))"

text \<open>\<open>bitflags\<close>' \<open>set\<close>: insert or remove one flag.\<close>

definition set_flag :: "'a \<Rightarrow> bool \<Rightarrow> 'a set \<Rightarrow> 'a set" where
  "set_flag f on fs = (if on then insert f fs else fs - {f})"

lemma mem_set_flag [simp]: "g \<in> set_flag f on fs \<longleftrightarrow> (if g = f then on else g \<in> fs)"
  by (auto simp: set_flag_def)

definition unix_settings :: "target_os \<Rightarrow> native_options \<Rightarrow> termios \<Rightarrow> termios" where
  "unix_settings os opts t =
     (let t = t\<lparr>input_flags := set_flag IXON (xon opts) (input_flags t)\<rparr>;
          t = t\<lparr>input_flags := set_flag IXOFF (xoff opts) (input_flags t)\<rparr>;
          t = t\<lparr>input_flags := set_flag IXANY (xany opts) (input_flags t)\<rparr>;
          t = t\<lparr>control_flags := set_flag HUPCL (hupcl opts) (control_flags t)\<rparr>
      in if os = Linux \<or> os = Android then
           let sticky = (parity opts = ''mark'' \<or> parity opts = ''space'');
               t = t\<lparr>control_flags := set_flag CMSPAR sticky (control_flags t)\<rparr>
           in if sticky then
                let t = t\<lparr>control_flags := insert PARENB (control_flags t)\<rparr>
                in t\<lparr>control_flags := set_flag PARODD (parity opts = ''mark'') (control_flags t)\<rparr>
              else t
         else t)"

definition configure_unix ::
  "target_os \<Rightarrow> ('p, 'z) serial_stream_scheme \<Rightarrow> native_options \<Rightarrow> 'p \<Rightarrow> unit io_result \<times> 'p" where
  "configure_unix os io opts p =
     (let (r, p) = tcgetattr (control_port io) p in
      case r of
        Inl e \<Rightarrow> (Inl e, p)
      | Inr t \<Rightarrow> tcsetattr (control_port io) (unix_settings os opts t) p)"

text \<open>One step of the loop over the DCB's flag bits.\<close>

definition put_bit :: "nat \<times> bool \<Rightarrow> u32 \<Rightarrow> u32" where
  "put_bit bv x =
     (x AND NOT (push_bit (fst bv) 1)) OR push_bit (fst bv) (if snd bv then 1 else 0)"

definition windows_settings :: "native_options \<Rightarrow> dcb \<Rightarrow> dcb" where
  "windows_settings opts d =
     (let d = d\<lparr>dcb_baud_rate := baud_rate opts\<rparr>;
          d = d\<lparr>dcb_byte_size := ucast (data_bits opts)\<rparr>;
          d = d\<lparr>dcb_parity :=
                 (if parity opts = ''odd'' then 1 else if parity opts = ''even'' then 2
                  else if parity opts = ''mark'' then 3 else if parity opts = ''space'' then 4
                  else 0)\<rparr>;
          d = d\<lparr>dcb_stop_bits :=
                 (if stop_bits opts = F64 (3/2) then 1 else if stop_bits opts = F64 2 then 2
                  else 0)\<rparr>
      in d\<lparr>dcb_bitfield :=
            fold put_bit
              [(1, dcb_parity d \<noteq> 0), (2, rtscts opts), (4, hupcl opts), (5, False),
               (8, xon opts), (9, xoff opts)]
              (dcb_bitfield d)\<rparr>)"

definition configure_windows ::
  "('p, 'z) serial_stream_scheme \<Rightarrow> native_options \<Rightarrow> 'p \<Rightarrow> unit io_result \<times> 'p" where
  "configure_windows io opts p =
     (let (r, p) = get_comm_state (control_port io) p in
      case r of
        Inl e \<Rightarrow> (Inl e, p)
      | Inr d \<Rightarrow> set_comm_state (control_port io) (windows_settings opts d) p)"

definition configure ::
  "target_os \<Rightarrow> ('p, 'z) serial_stream_scheme \<Rightarrow> native_options \<Rightarrow> 'p \<Rightarrow> unit io_result \<times> 'p" where
  "configure os io opts p = (if unix os then configure_unix os io opts p else configure_windows io opts p)"

subsection \<open>settings.rs\<close>

definition data_bits_of :: "u32 \<Rightarrow> data_bits_setting option" where
  "data_bits_of n =
     (if n = 5 then Some Five else if n = 6 then Some Six else if n = 7 then Some Seven
      else if n = 8 then Some Eight else None)"

definition stop_bits_of :: "f64 \<Rightarrow> stop_bits_setting option" where
  "stop_bits_of x =
     (if x = F64 1 \<or> x = F64 (3/2) then Some One else if x = F64 2 then Some Two else None)"

definition parity_of :: "string \<Rightarrow> parity_setting option" where
  "parity_of x =
     (if x = ''none'' \<or> x = ''mark'' \<or> x = ''space'' then Some Parity_None
      else if x = ''odd'' then Some Parity_Odd
      else if x = ''even'' then Some Parity_Even else None)"

text \<open>The checks made before any device is opened, in the code's order.\<close>

definition validate :: "target_os \<Rightarrow> native_options \<Rightarrow> builder io_result" where
  "validate os opts =
     (case data_bits_of (data_bits opts) of
        None \<Rightarrow> Inl (invalid ''Invalid dataBits'')
      | Some db \<Rightarrow>
     (case stop_bits_of (stop_bits opts) of
        None \<Rightarrow> Inl (invalid ''Invalid stopBits'')
      | Some sb \<Rightarrow>
     (case parity_of (parity opts) of
        None \<Rightarrow> Inl (invalid ''Invalid parity'')
      | Some par \<Rightarrow>
        if unix os \<and> stop_bits opts = F64 (3/2)
        then Inl (io_error_new Unsupported ''1.5 stop bits requires Windows'')
        else if unix os \<and> \<not> (os = Linux \<or> os = Android)
                \<and> (parity opts = ''mark'' \<or> parity opts = ''space'')
        then Inl (io_error_new Unsupported ''Mark/space parity is not available on this platform'')
        else if os = Windows \<and> \<not> lock opts
        then Inl (io_error_new Unsupported ''Windows requires exclusive serial access'')
        else if path opts = [] \<or> CHR 0x00 \<in> set (path opts)
        then Inl (invalid ''Invalid device path'')
        else if baud_rate opts = 0
        then Inl (invalid ''Baud rate must be positive'')
        else Inr \<lparr>b_path = path opts, b_baud_rate = baud_rate opts, b_data_bits = db,
                  b_stop_bits = sb, b_parity = par,
                  b_flow = (if rtscts opts then Flow_Hardware else if xon opts then Flow_Software
                            else Flow_None),
                  b_exclusive = (if unix os then Some (lock opts) else None)\<rparr>)))"

definition settings_open ::
  "target_os \<Rightarrow> ('p, 'z) serial_stream_scheme \<Rightarrow> ('p, 'w) devices \<Rightarrow> native_options \<Rightarrow> 'w
     \<Rightarrow> 'p io_result \<times> 'w" where
  "settings_open os io dev opts w =
     (case validate os opts of
        Inl e \<Rightarrow> (Inl e, w)
      | Inr b \<Rightarrow>
          (let (opened, w) = platform_open os dev b w in
           case opened of
             Inl e \<Rightarrow> (Inl e, w)
           | Inr p \<Rightarrow>
               (let (configured, p) = configure os io opts p in
                case configured of
                  Inl e \<Rightarrow> (Inl e, w)
                | Inr _ \<Rightarrow>
                    (let (speed, p) = set_baud_rate os io (baud_rate opts) p in
                     case speed of
                       Inl e \<Rightarrow> (Inl e, w)
                     | Inr _ \<Rightarrow> (Inr p, w)))))"

end
