(* ===== verification/Reactor.thy ===== *)
theory Reactor
  imports Control Transfer_Poller Settings
begin

text \<open>
  \<open>src/src/reactor.rs\<close>: the event loop of one open port. The local variables of
  \<open>run_open\<close> are the record \<open>reactor\<close>; every access to the shared
  \<open>Control\<close> goes through \<open>peer\<close>, so other threads may act in between. An outer
  option is \<open>None\<close> on a Rust panic (a slice out of range, a subtraction below zero).

  The field \<open>log\<close> is a ghost: no function reads it. It records what the reactor observes
  and does (commands received, bytes read and written, commands completed, events sent), so that
  properties of whole executions can be stated.
\<close>

definition READ_BURST_LIMIT :: nat where "READ_BURST_LIMIT = 16"

record read_window =
  w_bytes :: nat
  w_slots :: nat
  w_size :: nat

datatype obs =
    Obs_Recv command
  | Obs_Read bool bytes
  | Obs_Write bytes
  | Obs_Done command native_event
  | Obs_Send callback_event bool
  | Obs_Closed

record reactor =
  commands :: "command list"
  read :: "(u32 \<times> nat) option"
  streaming :: bool
  window :: read_window
  written :: nat
  read_buffer :: bytes
  transfers :: transfer_poller
  log :: "obs list"

definition reactor_new :: reactor where
  "reactor_new =
     \<lparr>commands = [], read = None, streaming = False,
      window = \<lparr>w_bytes = 0, w_slots = 0, w_size = 1024\<rparr>, written = 0, read_buffer = [],
      transfers = transfer_poller_default, log = []\<rparr>"

definition note_obs :: "obs \<Rightarrow> reactor \<Rightarrow> reactor" where
  "note_obs x r = r\<lparr>log := log r @ [x]\<rparr>"

lemma note_obs_sel [simp]:
  "commands (note_obs x r) = commands r" "read (note_obs x r) = read r"
  "streaming (note_obs x r) = streaming r" "window (note_obs x r) = window r"
  "written (note_obs x r) = written r" "read_buffer (note_obs x r) = read_buffer r"
  "transfers (note_obs x r) = transfers r" "log (note_obs x r) = log r @ [x]"
  by (simp_all add: note_obs_def)

subsection \<open>Publishing events and borrowing the port\<close>

text \<open>\<open>callback.call(Ok(event), NonBlocking) == Status::Ok\<close>, the body of \<open>send\<close>\<close>

definition publish ::
  "'e runtime \<Rightarrow> ('p, 'e) peer \<Rightarrow> callback_event \<Rightarrow> reactor \<Rightarrow> ('p, 'e) control
     \<Rightarrow> bool \<times> reactor \<times> ('p, 'e) control" where
  "publish rt peer ev r s =
     (let s = peer s;
          (st, e) = call_nonblocking rt ev (outside s);
          ok = (st = Status_Ok)
      in (ok, note_obs (Obs_Send ev ok) r, s\<lparr>outside := e\<rparr>))"

definition send ::
  "'e runtime \<Rightarrow> ('p, 'e) peer \<Rightarrow> native_event \<Rightarrow> reactor \<Rightarrow> ('p, 'e) control
     \<Rightarrow> bool \<times> reactor \<times> ('p, 'e) control" where
  "send rt peer ev r s = publish rt peer (Event ev) r s"

definition send_read ::
  "'e runtime \<Rightarrow> ('p, 'e) peer \<Rightarrow> nat \<Rightarrow> reactor \<Rightarrow> ('p, 'e) control
     \<Rightarrow> (bool \<times> reactor \<times> ('p, 'e) control) option" where
  "send_read rt peer len r s =
     (case callback_event_read (read_buffer r) len of
        None \<Rightarrow> None
      | Some (ev, buffer) \<Rightarrow> Some (publish rt peer ev (r\<lparr>read_buffer := buffer\<rparr>) s))"

text \<open>
  \<open>with_port\<close>: lock, refuse a poisoned or empty session, run the operation on the port.
  A second form holds the lock over a time in which the other threads run.
\<close>

definition locked_port :: "('p, 'e) control \<Rightarrow> 'p io_result" where
  "locked_port s =
     (if poisoned s then Inl (io_error_other ''Serial state poisoned'')
      else case session s of
             None \<Rightarrow> Inl (io_error_new BrokenPipe ''Port is closed'')
           | Some p \<Rightarrow> Inr p)"

definition with_port ::
  "('p, 'e) peer \<Rightarrow> ('p \<Rightarrow> 'a io_result \<times> 'p) \<Rightarrow> ('p, 'e) control
     \<Rightarrow> 'a io_result \<times> ('p, 'e) control" where
  "with_port peer f s =
     (let s = peer s in
      case locked_port s of
        Inl e \<Rightarrow> (Inl e, s)
      | Inr p \<Rightarrow> (let (x, p) = f p in (x, s\<lparr>session := Some p\<rparr>)))"

subsection \<open>Control operations\<close>

definition control_operation ::
  "target_os \<Rightarrow> ('p, 'z) serial_stream_scheme \<Rightarrow> command \<Rightarrow> 'p \<Rightarrow> native_event io_result \<times> 'p"
where
  "control_operation os io c p =
     (let event = native_event_new (cmd_id c) ''ok'' in
      case operation c of
        Op_Update baud \<Rightarrow>
          (case set_baud_rate os io baud p of (Inl e, p) \<Rightarrow> (Inl e, p) | (Inr _, p) \<Rightarrow> (Inr event, p))
      | Op_GetBaudRate \<Rightarrow>
          (case get_baud_rate os io p of
             (Inl e, p) \<Rightarrow> (Inl e, p)
           | (Inr baud, p) \<Rightarrow> (Inr (event\<lparr>ev_baud_rate := Some baud\<rparr>), p))
      | Op_Set flags \<Rightarrow>
          (case write_data_terminal_ready (control_port io) (flags AND 1 \<noteq> 0) p of
             (Inl e, p) \<Rightarrow> (Inl e, p)
           | (Inr _, p) \<Rightarrow>
          (case write_request_to_send (control_port io) (flags AND 2 \<noteq> 0) p of
             (Inl e, p) \<Rightarrow> (Inl e, p)
           | (Inr _, p) \<Rightarrow>
          (case (if flags AND 4 \<noteq> 0 then set_break (control_port io) p else clear_break (control_port io) p) of
             (Inl e, p) \<Rightarrow> (Inl e, p)
           | (Inr _, p) \<Rightarrow> (Inr event, p))))
      | Op_Get \<Rightarrow>
          (case read_clear_to_send (control_port io) p of
             (Inl e, p) \<Rightarrow> (Inl e, p)
           | (Inr cts, p) \<Rightarrow>
          (case read_data_set_ready (control_port io) p of
             (Inl e, p) \<Rightarrow> (Inl e, p)
           | (Inr dsr, p) \<Rightarrow>
          (case read_carrier_detect (control_port io) p of
             (Inl e, p) \<Rightarrow> (Inl e, p)
           | (Inr dcd, p) \<Rightarrow>
               (Inr (event\<lparr>ev_cts := Some cts, ev_dsr := Some dsr, ev_dcd := Some dcd\<rparr>), p))))
      | Op_Flush \<Rightarrow>
          (case clear_all (control_port io) p of (Inl e, p) \<Rightarrow> (Inl e, p) | (Inr _, p) \<Rightarrow> (Inr event, p))
      | _ \<Rightarrow> (Inl (io_error_other ''Unexpected transfer in control queue''), p))"

text \<open>
  The physical drain on the blocking pool: it holds the mutex while the driver drains, and the
  reactor awaits the task, whose failure to join is an error of its own.
\<close>

definition drain_blocking ::
  "('p, 'z) serial_stream_scheme \<Rightarrow> 'e runtime \<Rightarrow> ('p, 'e) peer \<Rightarrow> ('p, 'e) control
     \<Rightarrow> unit io_result \<times> ('p, 'e) control" where
  "drain_blocking io rt peer s =
     (let s = peer s;
          (drained, s) =
            (case locked_port s of
               Inl e \<Rightarrow> (Inl e, s)
             | Inr p \<Rightarrow>
                 (let (x, p) = drain_output io p;
                      s = peer (s\<lparr>held := True\<rparr>)
                  in (x, s\<lparr>held := False, session := Some p\<rparr>)));
          (joined, e) = join_error rt (outside s);
          s = s\<lparr>outside := e\<rparr>
      in (case joined of Some m \<Rightarrow> Inl (io_error_other m) | None \<Rightarrow> drained, s))"

subsection \<open>The ordered queue\<close>

datatype front =
    Front_Blocked
  | Front_Draining
  | Front_Failed io_error
  | Front_Done native_event

text \<open>The match on the front command: whether it completes, and with which event.\<close>

definition complete_front ::
  "target_os \<Rightarrow> ('p, 'z) serial_stream_scheme \<Rightarrow> 'e runtime \<Rightarrow> ('p, 'e) peer \<Rightarrow> command
     \<Rightarrow> reactor \<Rightarrow> ('p, 'e) control \<Rightarrow> front \<times> reactor \<times> ('p, 'e) control" where
  "complete_front os io rt peer c r s =
     (case operation c of
        Op_Write data \<Rightarrow>
          if written r < length data then (Front_Blocked, r, s)
          else (Front_Done (native_event_new (cmd_id c) ''ok''), r\<lparr>written := 0\<rparr>, s)
      | Op_Drain \<Rightarrow>
          (case with_port peer (bytes_to_write (control_port io)) s of
             (Inl e, s) \<Rightarrow> (Front_Failed e, r, s)
           | (Inr n, s) \<Rightarrow>
               if n \<noteq> 0 then (Front_Draining, r, s)
               else
                 (case drain_blocking io rt peer s of
                    (Inr _, s) \<Rightarrow> (Front_Done (native_event_new (cmd_id c) ''ok''), r, s)
                  | (Inl e, s) \<Rightarrow> (Front_Done (native_event_error (cmd_id c) e), r, s)))
      | _ \<Rightarrow>
          (case with_port peer (control_operation os io c) s of
             (Inr ev, s) \<Rightarrow> (Front_Done ev, r, s)
           | (Inl e, s) \<Rightarrow> (Front_Done (native_event_error (cmd_id c) e), r, s)))"

text \<open>
  \<open>while let Some(command) = commands.front()\<close>. The result is \<open>Inl\<close> when the
  loop returns from \<open>run_open\<close>, and otherwise the value of \<open>draining\<close>.
\<close>

fun drain_commands ::
  "target_os \<Rightarrow> ('p, 'z) serial_stream_scheme \<Rightarrow> 'e runtime \<Rightarrow> ('p, 'e) peer \<Rightarrow> command list
     \<Rightarrow> reactor \<Rightarrow> ('p, 'e) control \<Rightarrow> (unit io_result + bool) \<times> reactor \<times> ('p, 'e) control" where
  "drain_commands os io rt peer [] r s = (Inr False, r\<lparr>commands := []\<rparr>, s)"
| "drain_commands os io rt peer (c # cs) r s =
     (let r = r\<lparr>commands := c # cs\<rparr>; (stopped, s) = load_stop peer s in
      if stopped then (Inl (Inr ()), r, s)
      else
        case complete_front os io rt peer c r s of
          (Front_Blocked, r, s) \<Rightarrow> (Inr False, r, s)
        | (Front_Draining, r, s) \<Rightarrow> (Inr True, r, s)
        | (Front_Failed e, r, s) \<Rightarrow> (Inl (Inl e), r, s)
        | (Front_Done ev, r, s) \<Rightarrow>
            (let r = note_obs (Obs_Done c ev) (r\<lparr>commands := cs\<rparr>);
                 s = fetch_sub_pending peer s;
                 (ok, r, s) = send rt peer ev r s
             in if ok then drain_commands os io rt peer cs r s else (Inl (Inr ()), r, s)))"

subsection \<open>Bursts of ready reads\<close>

text \<open>The size of the next read: doubled after a full read, otherwise fitted to this one.\<close>

definition next_window_size :: "bool \<Rightarrow> nat \<Rightarrow> nat \<Rightarrow> nat" where
  "next_window_size filled current len =
     (if filled then min (current * 2) CHUNK_SIZE else clamp 64 CHUNK_SIZE (next_power_of_two len))"

text \<open>\<open>window.bytes -= length; window.slots -= 1\<close>\<close>

definition charge :: "nat \<Rightarrow> read_window \<Rightarrow> read_window option" where
  "charge len w =
     (case checked_sub (w_bytes w) len of
        None \<Rightarrow> None
      | Some b \<Rightarrow>
          (case checked_sub (w_slots w) 1 of
             None \<Rightarrow> None
           | Some n \<Rightarrow> Some (w\<lparr>w_bytes := b, w_slots := n\<rparr>)))"

text \<open>\<open>if read_buffer.len() < n { read_buffer.resize(n, 0) }\<close>\<close>

definition grow_buffer :: "nat \<Rightarrow> reactor \<Rightarrow> reactor" where
  "grow_buffer n r =
     (if length (read_buffer r) < n then r\<lparr>read_buffer := resize n 0 (read_buffer r)\<rparr> else r)"

lemma grow_buffer_sel [simp]:
  "commands (grow_buffer n r) = commands r" "read (grow_buffer n r) = read r"
  "streaming (grow_buffer n r) = streaming r" "window (grow_buffer n r) = window r"
  "written (grow_buffer n r) = written r" "transfers (grow_buffer n r) = transfers r"
  "log (grow_buffer n r) = log r"
  "length (read_buffer (grow_buffer n r)) = max n (length (read_buffer r))"
  by (simp_all add: grow_buffer_def max_def)

text \<open>Collecting a follower: the first is kept apart, and a second starts the batch.\<close>

definition collect :: "bytes \<Rightarrow> bytes option \<Rightarrow> bytes list \<Rightarrow> bytes option \<times> bytes list" where
  "collect data first batch =
     (case first of
        Some previous \<Rightarrow> (None, batch @ [previous, data])
      | None \<Rightarrow> if batch = [] then (Some data, batch) else (None, batch @ [data]))"

text \<open>
  The loop of \<open>send_ready_reads\<close> over at most \<open>n\<close> followers. The port is locked:
  it is passed along, and the shared state is marked as held while peers run.
\<close>

fun collect_ready ::
  "('p, 'z) serial_stream_scheme \<Rightarrow> 'e runtime \<Rightarrow> ('p, 'e) peer \<Rightarrow> nat \<Rightarrow> bytes option \<Rightarrow> bytes list
     \<Rightarrow> 'p \<Rightarrow> reactor \<Rightarrow> ('p, 'e) control
     \<Rightarrow> (unit io_result \<times> bytes option \<times> bytes list \<times> 'p \<times> reactor \<times> ('p, 'e) control) option"
where
  "collect_ready io rt peer 0 first batch port r s = Some (Inr (), first, batch, port, r, s)"
| "collect_ready io rt peer (Suc n) first batch port r s =
     (let (stopped, s) = load_stop peer s in
      if stopped then Some (Inr (), first, batch, port, r, s)
      else
        let (pending, s) = load_pending peer s in
        if pending \<noteq> 0 \<or> w_bytes (window r) = 0 \<or> w_slots (window r) = 0
        then Some (Inr (), first, batch, port, r, s)
        else
          let (budget, e) = poll_proceed rt (outside s); s = s\<lparr>outside := e\<rparr> in
          if \<not> budget then Some (Inr (), first, batch, port, r, s)
          else
            let capacity = min (w_bytes (window r)) (w_size (window r));
                r = grow_buffer capacity r;
                (result, port) = try_read io capacity port in
            case result of
              Inl e \<Rightarrow>
                if kind e = WouldBlock \<or> kind e = Interrupted
                then Some (Inr (), first, batch, port, r, s)
                else Some (Inl e, first, batch, port, r, s)
            | Inr bs \<Rightarrow>
                let len = length bs;
                    r = r\<lparr>read_buffer := fill bs (read_buffer r)\<rparr> in
                if len = 0
                then Some (Inl (io_error_new BrokenPipe ''Serial device disconnected''),
                           first, batch, port, r, s)
                else
                  let w = (window r)\<lparr>w_size := next_window_size (len = capacity)
                                                (w_size (window r)) len\<rparr>;
                      data = take len (read_buffer r);
                      r = note_obs (Obs_Read True bs) r;
                      (first, batch) = collect data first batch in
                  case charge len w of
                    None \<Rightarrow> None
                  | Some w \<Rightarrow>
                      collect_ready io rt peer n first batch port
                        (r\<lparr>window := w, read_buffer := []\<rparr>) s)"

definition publish_followers ::
  "'e runtime \<Rightarrow> ('p, 'e) peer \<Rightarrow> bytes option \<Rightarrow> bytes list \<Rightarrow> reactor \<Rightarrow> ('p, 'e) control
     \<Rightarrow> bool \<times> reactor \<times> ('p, 'e) control" where
  "publish_followers rt peer first batch r s =
     (case first of
        Some data \<Rightarrow> publish rt peer (ReadBuffer data) r s
      | None \<Rightarrow>
          if batch \<noteq> [] then publish rt peer (ReadBatch batch) r s else (True, r, s))"

definition send_ready_reads ::
  "('p, 'z) serial_stream_scheme \<Rightarrow> 'e runtime \<Rightarrow> ('p, 'e) peer \<Rightarrow> nat \<Rightarrow> reactor \<Rightarrow> ('p, 'e) control
     \<Rightarrow> (bool io_result \<times> reactor \<times> ('p, 'e) control) option" where
  "send_ready_reads io rt peer len r s =
     (case send_read rt peer len r s of
        None \<Rightarrow> None
      | Some (ok, r, s) \<Rightarrow>
          if \<not> ok then Some (Inr False, r, s)
          else if w_bytes (window r) = 0 \<or> w_slots (window r) = 0 then Some (Inr True, r, s)
          else
            let s = peer s in
            case (case locked_port s of
                    Inl e \<Rightarrow> Some (Inl e, None, [], r, s)
                  | Inr port \<Rightarrow>
                      (case collect_ready io rt peer (READ_BURST_LIMIT - 1) None [] port r
                              (s\<lparr>held := True\<rparr>) of
                         None \<Rightarrow> None
                       | Some (collected, first, batch, port, r, s) \<Rightarrow>
                           Some (collected, first, batch, r,
                                 s\<lparr>held := False, session := Some port\<rparr>))) of
              None \<Rightarrow> None
            | Some (collected, first, batch, r, s) \<Rightarrow>
                (let (sent, r, s) = publish_followers rt peer first batch r s in
                 if \<not> sent then Some (Inr False, r, s)
                 else Some (map_sum (\<lambda>e. e) (\<lambda>_. True) collected, r, s)))"

subsection \<open>One turn of the loop\<close>

datatype outcome =
    Next
  | Select bool
  | Finished "unit io_result"

text \<open>\<open>write\<close>: the rest of the front command's data; \<open>None\<close> outside is the slice panic.\<close>

definition pending_write :: "reactor \<Rightarrow> bytes option option" where
  "pending_write r =
     (case commands r of
        [] \<Rightarrow> Some None
      | c # _ \<Rightarrow>
          (case operation c of
             Op_Write data \<Rightarrow> map_option Some (slice_from data (written r))
           | _ \<Rightarrow> Some None))"

definition read_length :: "reactor \<Rightarrow> nat option" where
  "read_length r =
     (case read r of
        Some (_, len) \<Rightarrow> Some len
      | None \<Rightarrow> if w_bytes (window r) > 0 \<and> w_slots (window r) > 0
                then Some (w_bytes (window r)) else None)"

definition read_capacity :: "reactor \<Rightarrow> nat option" where
  "read_capacity r = map_option (\<lambda>len. min len (w_size (window r))) (read_length r)"

text \<open>The branch of a command received from the channel.\<close>

definition handle_command ::
  "'e runtime \<Rightarrow> ('p, 'e) peer \<Rightarrow> command option \<Rightarrow> reactor \<Rightarrow> ('p, 'e) control
     \<Rightarrow> outcome \<times> reactor \<times> ('p, 'e) control" where
  "handle_command rt peer m r s =
     (case m of
        None \<Rightarrow> (Finished (Inr ()), r, s)
      | Some c \<Rightarrow>
          (let r = note_obs (Obs_Recv c) r in
           case operation c of
             Op_Read len \<Rightarrow>
               if read r \<noteq> None \<or> streaming r then
                 (let (ok, r, s) =
                    send rt peer
                      (native_event_error (cmd_id c) (io_error_new ResourceBusy ''Read already pending''))
                      r s
                  in (if ok then Next else Finished (Inr ()), r, s))
               else (Next, r\<lparr>read := Some (cmd_id c, len)\<rparr>, s)
           | Op_ReadCredit bs slots \<Rightarrow>
               (let w = window r;
                    w = w\<lparr>w_bytes := w_bytes w + bs\<rparr>;
                    w = w\<lparr>w_slots := w_slots w + slots\<rparr>;
                    r = r\<lparr>window := w\<rparr>
                in if read r \<noteq> None \<or> w_bytes w > CHUNK_SIZE \<or> w_slots w > READ_SLOTS
                   then (Finished (Inl (io_error_new InvalidInput ''Invalid read credit'')), r, s)
                   else (Next, r\<lparr>streaming := True\<rparr>, s))
           | _ \<Rightarrow> (Next, r\<lparr>commands := commands r @ [c]\<rparr>, s)))"

text \<open>The branch of a completed read of \<open>len\<close> bytes.\<close>

definition handle_read ::
  "('p, 'z) serial_stream_scheme \<Rightarrow> 'e runtime \<Rightarrow> ('p, 'e) peer \<Rightarrow> bool \<Rightarrow> nat option \<Rightarrow> nat
     \<Rightarrow> reactor \<Rightarrow> ('p, 'e) control \<Rightarrow> (outcome \<times> reactor \<times> ('p, 'e) control) option" where
  "handle_read io rt peer writing capacity len r s =
     (let filled = (Some len = capacity);
          w = (window r)\<lparr>w_size := next_window_size filled (w_size (window r)) len\<rparr>;
          r = r\<lparr>window := w\<rparr>;
          finish = (\<lambda>(ok, r, s). (if ok then Next else Finished (Inr ()), r, s))
      in if streaming r then
           (case charge len w of
              None \<Rightarrow> None
            | Some w \<Rightarrow>
                (let r = r\<lparr>window := w\<rparr>;
                     (direct, s) =
                       (if writing \<or> (\<not> filled \<and> len < 1024) then (True, s)
                        else let (pending, s) = load_pending peer s in (pending \<noteq> 0, s))
                 in if direct then map_option finish (send_read rt peer len r s)
                    else
                      (case send_ready_reads io rt peer len r s of
                         None \<Rightarrow> None
                       | Some (Inl e, r, s) \<Rightarrow> Some (Finished (Inl e), r, s)
                       | Some (Inr ok, r, s) \<Rightarrow> Some (finish (ok, r, s)))))
         else
           (case read r of
              None \<Rightarrow> Some (Finished (Inl (io_error_other ''Unexpected read completion'')), r, s)
            | Some (i, _) \<Rightarrow>
                (let event = (native_event_new i ''read'')
                       \<lparr>ev_data := Some (take len (read_buffer r))\<rparr>
                 in Some (finish (send rt peer event (r\<lparr>read := None, read_buffer := []\<rparr>) s)))))"

text \<open>The transfer branch of \<open>select!\<close>: \<open>None\<close> inside is \<open>Pending\<close>.\<close>

definition poll_transfers ::
  "('p, 'z) serial_stream_scheme \<Rightarrow> ('p, 'e) peer \<Rightarrow> bytes option \<Rightarrow> bytes option
     \<Rightarrow> reactor \<Rightarrow> ('p, 'e) control
     \<Rightarrow> (transfer io_result poll \<times> bytes option) \<times> reactor \<times> ('p, 'e) control" where
  "poll_transfers io peer rd wr r s =
     (let s = peer s in
      case locked_port s of
        Inl e \<Rightarrow> ((Ready (Inl e), rd), r, s)
      | Inr port \<Rightarrow>
          (let (ready, tp, port, _, rd) = poll io (transfers r) port 0 rd wr
           in ((ready, rd), r\<lparr>transfers := tp\<rparr>, s\<lparr>session := Some port\<rparr>)))"

definition handle_transfer ::
  "('p, 'z) serial_stream_scheme \<Rightarrow> 'e runtime \<Rightarrow> ('p, 'e) peer \<Rightarrow> bytes option \<Rightarrow> nat option
     \<Rightarrow> transfer io_result \<Rightarrow> reactor \<Rightarrow> ('p, 'e) control
     \<Rightarrow> (outcome \<times> reactor \<times> ('p, 'e) control) option" where
  "handle_transfer io rt peer wr capacity ready r s =
     (case ready of
        Inl e \<Rightarrow> Some (Finished (Inl e), r, s)
      | Inr t \<Rightarrow>
          (let (reading, len) = (case t of Tr_Read n \<Rightarrow> (True, n) | Tr_Write n \<Rightarrow> (False, n)) in
           if len = 0
           then Some (Finished (Inl (io_error_new BrokenPipe ''Serial device disconnected'')), r, s)
           else if reading then
             handle_read io rt peer (wr \<noteq> None) capacity len
               (note_obs (Obs_Read (streaming r) (take len (read_buffer r))) r) s
           else
             (let r = note_obs (Obs_Write (take len (case wr of None \<Rightarrow> [] | Some xs \<Rightarrow> xs))) r
              in Some (Next, r\<lparr>written := written r + len\<rparr>, s))))"

text \<open>
  The transfer branch of the \<open>select!\<close>, enabled when a read or a write is wanted:
  \<open>None\<close> inside while the branch is disabled or pending.
\<close>

definition transfer_branch ::
  "('p, 'z) serial_stream_scheme \<Rightarrow> 'e runtime \<Rightarrow> ('p, 'e) peer \<Rightarrow> bytes option \<Rightarrow> nat option
     \<Rightarrow> reactor \<Rightarrow> ('p, 'e) control \<Rightarrow> (outcome option \<times> reactor \<times> ('p, 'e) control) option" where
  "transfer_branch io rt peer wr capacity r s =
     (if read_length r = None \<and> wr = None then Some (None, r, s)
      else
        case (case capacity of
                None \<Rightarrow> Some None
              | Some len \<Rightarrow> map_option Some (slice_to (read_buffer r) len)) of
          None \<Rightarrow> None
        | Some rd \<Rightarrow>
            (case poll_transfers io peer rd wr r s of
               ((ready, rd), r, s) \<Rightarrow>
                 (let r = (case (rd, capacity) of
                             (Some bs, Some len) \<Rightarrow>
                               r\<lparr>read_buffer := bs @ drop len (read_buffer r)\<rparr>
                           | _ \<Rightarrow> r)
                  in case ready of
                       Ready t \<Rightarrow>
                         map_option (\<lambda>(out, r, s). (Some out, r, s))
                           (handle_transfer io rt peer wr capacity t r s)
                     | Pending \<Rightarrow> Some (None, r, s))))"

text \<open>The last branch: the 1 ms timer, which runs only while a drain waits.\<close>

definition timer_branch ::
  "'e runtime \<Rightarrow> ('p, 'e) peer \<Rightarrow> bool \<Rightarrow> ('p, 'e) control \<Rightarrow> outcome \<times> ('p, 'e) control" where
  "timer_branch rt peer draining s =
     (if draining then
        let s = peer s; (elapsed, e) = sleep_elapsed rt (outside s); s = s\<lparr>outside := e\<rparr>
        in (if elapsed then Next else Select draining, s)
      else (Select draining, s))"

text \<open>
  One poll of the biased \<open>select!\<close>: the first branch that is ready, in the code's order,
  and \<open>Select\<close> again when none is. The values the branches use are computed before the
  \<open>select!\<close> and do not change while it waits.
\<close>

definition select ::
  "('p, 'z) serial_stream_scheme \<Rightarrow> 'e runtime \<Rightarrow> ('p, 'e) peer \<Rightarrow> bool \<Rightarrow> reactor \<Rightarrow> ('p, 'e) control
     \<Rightarrow> (outcome \<times> reactor \<times> ('p, 'e) control) option" where
  "select io rt peer draining r s =
     (case pending_write r of
        None \<Rightarrow> None
      | Some wr \<Rightarrow>
          (let capacity = read_capacity r;
               r = (case capacity of None \<Rightarrow> r | Some len \<Rightarrow> grow_buffer len r);
               s = peer s;
               (changed, e) = notified rt (outside s);
               s = s\<lparr>outside := e\<rparr>
           in if changed then Some (Next, r, s)
              else
                let s = peer s; (m, e) = recv rt (outside s); s = s\<lparr>outside := e\<rparr> in
                case m of
                  Ready m \<Rightarrow> Some (handle_command rt peer m r s)
                | Pending \<Rightarrow>
                    (case transfer_branch io rt peer wr capacity r s of
                       None \<Rightarrow> None
                     | Some (Some out, r, s) \<Rightarrow> Some (out, r, s)
                     | Some (None, r, s) \<Rightarrow>
                         (let (out, s) = timer_branch rt peer draining s in Some (out, r, s)))))"

text \<open>
  One step of \<open>run_open\<close>: from the top of the loop, or a further poll of the
  \<open>select!\<close> it is suspended in.
\<close>

definition turn ::
  "target_os \<Rightarrow> ('p, 'z) serial_stream_scheme \<Rightarrow> 'e runtime \<Rightarrow> ('p, 'e) peer \<Rightarrow> outcome
     \<Rightarrow> reactor \<Rightarrow> ('p, 'e) control \<Rightarrow> (outcome \<times> reactor \<times> ('p, 'e) control) option" where
  "turn os io rt peer ph r s =
     (case ph of
        Next \<Rightarrow>
          (let (stopped, s) = load_stop peer s in
           if stopped then Some (Finished (Inr ()), r, s)
           else
             case drain_commands os io rt peer (commands r) r s of
               (Inl result, r, s) \<Rightarrow> Some (Finished result, r, s)
             | (Inr draining, r, s) \<Rightarrow> select io rt peer draining r s)
      | Select draining \<Rightarrow> select io rt peer draining r s
      | Finished result \<Rightarrow> Some (Finished result, r, s))"

text \<open>
  The loop runs for as long as the port is open, so a run is a number of turns: the state after
  \<open>n\<close> turns, or earlier if the loop has returned; \<open>None\<close> when a turn panicked.
\<close>

fun run_open ::
  "target_os \<Rightarrow> ('p, 'z) serial_stream_scheme \<Rightarrow> 'e runtime \<Rightarrow> ('p, 'e) peer \<Rightarrow> nat \<Rightarrow> outcome
     \<Rightarrow> reactor \<Rightarrow> ('p, 'e) control \<Rightarrow> (outcome \<times> reactor \<times> ('p, 'e) control) option" where
  "run_open os io rt peer 0 ph r s = Some (ph, r, s)"
| "run_open os io rt peer (Suc n) ph r s =
     (case turn os io rt peer ph r s of
        None \<Rightarrow> None
      | Some (Finished result, r, s) \<Rightarrow> Some (Finished result, r, s)
      | Some (ph, r, s) \<Rightarrow> run_open os io rt peer n ph r s)"

subsection \<open>The life of a port\<close>

text \<open>
  \<open>Drop for Completion\<close>: stop, take the port out of the session whether or not the mutex is
  poisoned, and publish the close event. The result is \<open>None\<close> when the worker unwound.
\<close>

definition close_event :: "unit io_result option \<Rightarrow> native_event" where
  "close_event result =
     (case result of
        Some (Inr _) \<Rightarrow> native_event_new 0 ''close''
      | Some (Inl e) \<Rightarrow> with_error (native_event_new 0 ''close'') e
      | None \<Rightarrow> with_error (native_event_new 0 ''close'')
                  (io_error_other ''Serial worker stopped unexpectedly''))"

text \<open>Taking the port out of the session and dropping it, which the log records.\<close>

definition drop_port :: "('p, 'e) peer \<Rightarrow> reactor \<Rightarrow> ('p, 'e) control \<Rightarrow> reactor \<times> ('p, 'e) control" where
  "drop_port peer r s = (let s = peer s in (note_obs Obs_Closed r, s\<lparr>session := None\<rparr>))"

definition completion_drop ::
  "'e runtime \<Rightarrow> ('p, 'e) peer \<Rightarrow> unit io_result option \<Rightarrow> reactor \<Rightarrow> ('p, 'e) control
     \<Rightarrow> reactor \<times> ('p, 'e) control" where
  "completion_drop rt peer result r s =
     (let s = (peer s)\<lparr>stop := True\<rparr>;
          (r, s) = drop_port peer r s;
          (_, r, s) = send rt peer (close_event result) r s
      in (r, s))"

text \<open>The drop of the channel's receiver, with the commands still in it.\<close>

definition release_receiver ::
  "'e runtime \<Rightarrow> ('p, 'e) peer \<Rightarrow> ('p, 'e) control \<Rightarrow> ('p, 'e) control" where
  "release_receiver rt peer s = (let s = peer s in s\<lparr>outside := drop_receiver rt (outside s)\<rparr>)"

text \<open>
  The body of \<open>run\<close> from the outcome \<open>opened\<close> of opening the device on, with
  \<open>Inl\<close> for a task that did not join; \<open>n\<close> bounds the turns of the loop. The result is
  \<open>None\<close> while the loop is still running after them. The receiver of the commands is dropped
  where \<open>run_open\<close> ends, and otherwise with the parameters of \<open>run\<close>, after the completion.
\<close>

definition run_opened ::
  "target_os \<Rightarrow> ('p, 'z) serial_stream_scheme \<Rightarrow> 'e runtime \<Rightarrow> ('p, 'e) peer \<Rightarrow> nat
     \<Rightarrow> string + 'p io_result \<Rightarrow> ('p, 'e) control \<Rightarrow> (reactor \<times> ('p, 'e) control) option" where
  "run_opened os io rt peer n opened s =
     (let r = reactor_new;
          finish = (\<lambda>result r s.
            let (r, s) = completion_drop rt peer (Some result) r s
            in Some (r, release_receiver rt peer s)) in
      case opened of
        Inl m \<Rightarrow> finish (Inl (io_error_other m)) r s
      | Inr (Inl e) \<Rightarrow> finish (Inl e) r s
      | Inr (Inr port) \<Rightarrow>
          (let s = (peer s)\<lparr>session := Some port\<rparr>;
               (stopped, s) = load_stop peer s in
           if stopped then finish (Inr ()) r s
           else
             let (ok, r, s) = send rt peer (native_event_new 0 ''open'') r s in
             if \<not> ok then finish (Inr ()) r s
             else
               case run_open os io rt peer n Next r s of
                 None \<Rightarrow> Some (completion_drop rt peer None r (release_receiver rt peer s))
               | Some (Finished result, r, s) \<Rightarrow>
                   Some (completion_drop rt peer (Some result) r (release_receiver rt peer s))
               | Some _ \<Rightarrow> None))"

text \<open>
  \<open>run\<close>: the device is opened with the port's options by a task of the blocking pool;
  \<open>join\<close> is \<open>Some m\<close> when that task did not join, with the text \<open>m\<close> of its error.
\<close>

definition open_task ::
  "target_os \<Rightarrow> ('p, 'z) serial_stream_scheme \<Rightarrow> ('p, 'w) devices \<Rightarrow> native_options \<Rightarrow> string option
     \<Rightarrow> 'w \<Rightarrow> string + 'p io_result" where
  "open_task os io dev opts join w =
     (case join of Some m \<Rightarrow> Inl m | None \<Rightarrow> Inr (fst (settings_open os io dev opts w)))"

definition run ::
  "target_os \<Rightarrow> ('p, 'z) serial_stream_scheme \<Rightarrow> 'e runtime \<Rightarrow> ('p, 'e) peer \<Rightarrow> nat
     \<Rightarrow> ('p, 'w) devices \<Rightarrow> native_options \<Rightarrow> string option \<Rightarrow> 'w \<Rightarrow> ('p, 'e) control
     \<Rightarrow> (reactor \<times> ('p, 'e) control) option" where
  "run os io rt peer n dev opts join w s =
     run_opened os io rt peer n (open_task os io dev opts join w) s"

end
