(* ===== verification/Reactor_Facts.thy ===== *)
theory Reactor_Facts
  imports Reactor
begin

text \<open>
  What the reactor's functions do to its state and to its ghost log, function by function, and
  the invariant of the loop that follows.
\<close>

subsection \<open>Projections of the log\<close>

text \<open>Chunks read from the port, and chunks of all published and of all accepted events.\<close>

fun reads_of :: "obs \<Rightarrow> bytes list" where
  "reads_of (Obs_Read _ bs) = [bs]"
| "reads_of _ = []"

fun published_of :: "obs \<Rightarrow> bytes list" where
  "published_of (Obs_Send ev _) = event_chunks ev"
| "published_of _ = []"

fun accepted_of :: "obs \<Rightarrow> bytes list" where
  "accepted_of (Obs_Send ev True) = event_chunks ev"
| "accepted_of _ = []"

fun refused :: "obs \<Rightarrow> bool" where
  "refused (Obs_Send _ ok) = (\<not> ok)"
| "refused _ = False"

fun tx_of :: "obs \<Rightarrow> bytes" where
  "tx_of (Obs_Write bs) = bs"
| "tx_of _ = []"

fun done_of :: "obs \<Rightarrow> command list" where
  "done_of (Obs_Done c _) = [c]"
| "done_of _ = []"

fun recvd_of :: "obs \<Rightarrow> command list" where
  "recvd_of (Obs_Recv c) = (if ordered c then [c] else [])"
| "recvd_of _ = []"

fun credit_of :: "obs \<Rightarrow> nat \<times> nat" where
  "credit_of (Obs_Recv c) = (case operation c of Op_ReadCredit b n \<Rightarrow> (b, n) | _ \<Rightarrow> (0, 0))"
| "credit_of _ = (0, 0)"

fun spent_of :: "obs \<Rightarrow> nat \<times> nat" where
  "spent_of (Obs_Read True bs) = (length bs, 1)"
| "spent_of _ = (0, 0)"

text \<open>The close events published and the drops of the device.\<close>

fun closes_of :: "obs \<Rightarrow> obs list" where
  "closes_of (Obs_Send (Event ev) ok) = (if ev_kind ev = ''close'' then [Obs_Send (Event ev) ok] else [])"
| "closes_of Obs_Closed = [Obs_Closed]"
| "closes_of _ = []"

definition closes :: "obs list \<Rightarrow> obs list" where "closes l = concat (map closes_of l)"
definition reads :: "obs list \<Rightarrow> bytes list" where "reads l = concat (map reads_of l)"
definition published :: "obs list \<Rightarrow> bytes list" where "published l = concat (map published_of l)"
definition accepted :: "obs list \<Rightarrow> bytes list" where "accepted l = concat (map accepted_of l)"
definition tx :: "obs list \<Rightarrow> bytes" where "tx l = concat (map tx_of l)"
definition dones :: "obs list \<Rightarrow> command list" where "dones l = concat (map done_of l)"
definition recvd :: "obs list \<Rightarrow> command list" where "recvd l = concat (map recvd_of l)"
definition credit_bytes_in :: "obs list \<Rightarrow> nat" where
  "credit_bytes_in l = sum_list (map (fst \<circ> credit_of) l)"
definition credit_slots_in :: "obs list \<Rightarrow> nat" where
  "credit_slots_in l = sum_list (map (snd \<circ> credit_of) l)"
definition spent_bytes :: "obs list \<Rightarrow> nat" where
  "spent_bytes l = sum_list (map (fst \<circ> spent_of) l)"
definition spent_slots :: "obs list \<Rightarrow> nat" where
  "spent_slots l = sum_list (map (snd \<circ> spent_of) l)"
definition all_accepted :: "obs list \<Rightarrow> bool" where "all_accepted l = (\<not> list_ex refused l)"

lemmas projection_defs = reads_def published_def accepted_def tx_def dones_def recvd_def
  credit_bytes_in_def credit_slots_in_def spent_bytes_def spent_slots_def all_accepted_def closes_def

lemma projection_append [simp]:
  "reads (l @ m) = reads l @ reads m"
  "published (l @ m) = published l @ published m"
  "accepted (l @ m) = accepted l @ accepted m"
  "tx (l @ m) = tx l @ tx m"
  "dones (l @ m) = dones l @ dones m"
  "recvd (l @ m) = recvd l @ recvd m"
  "credit_bytes_in (l @ m) = credit_bytes_in l + credit_bytes_in m"
  "credit_slots_in (l @ m) = credit_slots_in l + credit_slots_in m"
  "spent_bytes (l @ m) = spent_bytes l + spent_bytes m"
  "spent_slots (l @ m) = spent_slots l + spent_slots m"
  "all_accepted (l @ m) = (all_accepted l \<and> all_accepted m)"
  "closes (l @ m) = closes l @ closes m"
  by (simp_all add: projection_defs)

lemma projection_Nil [simp]:
  "reads [] = []" "published [] = []" "accepted [] = []" "tx [] = []" "dones [] = []" "recvd [] = []"
  "credit_bytes_in [] = 0" "credit_slots_in [] = 0" "spent_bytes [] = 0" "spent_slots [] = 0"
  "all_accepted []" "closes [] = []"
  by (simp_all add: projection_defs)

lemma projection_Cons [simp]:
  "reads (x # l) = reads_of x @ reads l"
  "published (x # l) = published_of x @ published l"
  "accepted (x # l) = accepted_of x @ accepted l"
  "tx (x # l) = tx_of x @ tx l"
  "dones (x # l) = done_of x @ dones l"
  "recvd (x # l) = recvd_of x @ recvd l"
  "credit_bytes_in (x # l) = fst (credit_of x) + credit_bytes_in l"
  "credit_slots_in (x # l) = snd (credit_of x) + credit_slots_in l"
  "spent_bytes (x # l) = fst (spent_of x) + spent_bytes l"
  "spent_slots (x # l) = snd (spent_of x) + spent_slots l"
  "all_accepted (x # l) = (\<not> refused x \<and> all_accepted l)"
  "closes (x # l) = closes_of x @ closes l"
  by (simp_all add: projection_defs)

lemma closes_none: "closes l = [] \<longleftrightarrow>
    Obs_Closed \<notin> set l \<and> (\<forall>ev ok. Obs_Send (Event ev) ok \<in> set l \<longrightarrow> ev_kind ev \<noteq> ''close'')"
proof (induction l)
  case (Cons x l)
  then show ?case by (cases x rule: closes_of.cases) auto
qed simp

lemma accepted_all: "all_accepted l \<Longrightarrow> accepted l = published l"
proof (induction l)
  case Nil
  then show ?case by simp
next
  case (Cons x l)
  then show ?case by (cases x) auto
qed

lemma all_accepted_butlast: "all_accepted l \<Longrightarrow> all_accepted (butlast l)"
  by (induction l) auto

lemma accepted_prefix: "all_accepted (butlast l) \<Longrightarrow> prefix (accepted l) (published l)"
proof (cases l rule: rev_cases)
  case (snoc m x)
  assume "all_accepted (butlast l)"
  with snoc have "accepted m = published m" by (simp add: accepted_all)
  moreover have "prefix (accepted_of x) (published_of x)"
    by (cases x rule: accepted_of.cases) auto
  ultimately show ?thesis using snoc by simp
qed simp

text \<open>Entries that carry data to JavaScript only.\<close>

definition io_only :: "obs list \<Rightarrow> bool" where
  "io_only l \<longleftrightarrow> tx l = [] \<and> dones l = [] \<and> recvd l = [] \<and> credit_bytes_in l = 0
     \<and> credit_slots_in l = 0 \<and> closes l = []"

lemma io_only_simps [simp]:
  "io_only []" "io_only (l @ m) \<longleftrightarrow> io_only l \<and> io_only m"
  "io_only (Obs_Send ev ok # l) \<longleftrightarrow> closes_of (Obs_Send ev ok) = [] \<and> io_only l" "io_only (Obs_Read b bs # l) \<longleftrightarrow> io_only l"
  by (auto simp: io_only_def)

lemma projection_reads [simp]:
  "reads (map (Obs_Read b) cs) = cs" "published (map (Obs_Read b) cs) = []"
  "io_only (map (Obs_Read b) cs)" "all_accepted (map (Obs_Read b) cs)"
  "spent_bytes (map (Obs_Read True) cs) = length (concat cs)"
  "spent_slots (map (Obs_Read True) cs) = length cs"
  by (induction cs) (auto simp: io_only_def)

subsection \<open>Publishing\<close>

lemma publish_log:
  "publish rt peer ev r s = (ok, r', s') \<Longrightarrow> r' = note_obs (Obs_Send ev ok) r"
  by (auto simp: publish_def Let_def split: prod.splits)

lemma send_log:
  "send rt peer ev r s = (ok, r', s') \<Longrightarrow> r' = note_obs (Obs_Send (Event ev) ok) r"
  by (auto simp: send_def dest: publish_log)

lemma send_read_log:
  assumes "send_read rt peer len r s = Some (ok, r', s')"
  shows "\<exists>ev buffer. r' = note_obs (Obs_Send ev ok) (r\<lparr>read_buffer := buffer\<rparr>)
           \<and> event_chunks ev = [take len (read_buffer r)] \<and> length buffer \<le> length (read_buffer r)
           \<and> closes_of (Obs_Send ev ok) = []"
proof -
  obtain ev buffer where ev: "callback_event_read (read_buffer r) len = Some (ev, buffer)"
    and p: "publish rt peer ev (r\<lparr>read_buffer := buffer\<rparr>) s = (ok, r', s')"
    using assms by (auto simp: send_read_def split: option.splits)
  have "event_chunks ev = [take len (read_buffer r)] \<and> length buffer \<le> length (read_buffer r)
      \<and> closes_of (Obs_Send ev ok) = []"
    using ev by (auto simp: callback_event_read_def split: if_splits option.splits)
  with publish_log [OF p] show ?thesis by blast
qed

lemma send_read_no_panic [panic_free]:
  "len \<le> length (read_buffer r) \<Longrightarrow> send_read rt peer len r s \<noteq> None"
  using callback_event_read_spec [of len "read_buffer r"]
  by (auto simp: send_read_def) (metis prod_cases3)+

subsection \<open>Window arithmetic\<close>

definition wf_size :: "nat \<Rightarrow> bool" where
  "wf_size n \<longleftrightarrow> power_of_two n \<and> 64 \<le> n \<and> n \<le> CHUNK_SIZE"

lemma next_window_size_wf: "wf_size n \<Longrightarrow> wf_size (next_window_size filled n len)"
proof -
  assume n: "wf_size n"
  have "power_of_two (min (n * 2) 65536)"
    using n power_of_two_double [of n] by (simp add: wf_size_def min_def mult.commute)
  moreover have "power_of_two (clamp 64 65536 (next_power_of_two len))"
    by (simp add: power_of_two_clamp)
  moreover have "64 \<le> clamp 64 65536 m \<and> clamp 64 65536 m \<le> 65536" for m
    using clamp_bounds [of 64 65536 m] by simp
  ultimately show ?thesis using n by (auto simp: wf_size_def next_window_size_def)
qed

lemma charge_Some:
  "charge len w = Some w' \<longleftrightarrow>
     len \<le> w_bytes w \<and> 1 \<le> w_slots w
     \<and> w' = w\<lparr>w_bytes := w_bytes w - len, w_slots := w_slots w - 1\<rparr>"
  by (auto simp: charge_def split: option.splits)

lemma charge_None: "charge len w = None \<longleftrightarrow> w_bytes w < len \<or> w_slots w = 0"
  by (auto simp: charge_def split: option.splits)

subsection \<open>Bursts\<close>

definition followers :: "bytes option \<Rightarrow> bytes list \<Rightarrow> bytes list" where
  "followers first batch = (case first of Some d \<Rightarrow> [d] | None \<Rightarrow> batch)"

definition wf_followers :: "bytes option \<Rightarrow> bytes list \<Rightarrow> bool" where
  "wf_followers first batch \<longleftrightarrow> (first \<noteq> None \<longrightarrow> batch = [])"

lemma collect_followers:
  assumes "wf_followers first batch" and "collect data first batch = (first', batch')"
  shows "wf_followers first' batch' \<and> followers first' batch' = followers first batch @ [data]"
  using assms by (auto simp: collect_def followers_def wf_followers_def split: option.splits if_splits)

lemma publish_followers_log:
  assumes "wf_followers first batch" and "publish_followers rt peer first batch r s = (ok, r', s')"
  shows "\<exists>d. r' = r\<lparr>log := log r @ d\<rparr> \<and> published d = followers first batch \<and> reads d = []
           \<and> io_only d \<and> spent_bytes d = 0 \<and> spent_slots d = 0 \<and> (ok \<longrightarrow> all_accepted d)
           \<and> all_accepted (butlast d)"
proof -
  have empty: "\<exists>d. r = r\<lparr>log := log r @ d\<rparr> \<and> published d = [] \<and> reads d = []
           \<and> io_only d \<and> spent_bytes d = 0 \<and> spent_slots d = 0 \<and> all_accepted d
           \<and> all_accepted (butlast d)"
    by (rule exI [of _ "[]"]) simp
  have one: "\<exists>d. note_obs (Obs_Send ev ok) r = r\<lparr>log := log r @ d\<rparr> \<and> published d = event_chunks ev
           \<and> reads d = [] \<and> io_only d \<and> spent_bytes d = 0 \<and> spent_slots d = 0
           \<and> (ok \<longrightarrow> all_accepted d) \<and> all_accepted (butlast d)"
    if "closes_of (Obs_Send ev ok) = []" for ev
    using that by (intro exI [of _ "[Obs_Send ev ok]"]) (simp add: note_obs_def)
  show ?thesis
  proof (cases first)
    case (Some data)
    with assms have "r' = note_obs (Obs_Send (ReadBuffer data) ok) r"
      by (auto simp: publish_followers_def dest: publish_log)
    with one [of "ReadBuffer data"] Some show ?thesis by (simp add: followers_def)
  next
    case None
    show ?thesis
    proof (cases "batch = []")
      case True
      with None assms empty show ?thesis by (auto simp: publish_followers_def followers_def)
    next
      case False
      with None assms have "r' = note_obs (Obs_Send (ReadBatch batch) ok) r"
        by (auto simp: publish_followers_def dest: publish_log)
      with one [of "ReadBatch batch"] None False show ?thesis by (simp add: followers_def)
    qed
  qed
qed

text \<open>The followers go out in one event, and in none when there are none.\<close>

lemma publish_followers_event:
  assumes "publish_followers rt peer first batch r s = (ok, r', s')" and "followers first batch \<noteq> []"
  shows "\<exists>ev. r' = note_obs (Obs_Send ev ok) r \<and> event_chunks ev = followers first batch"
  using assms by (auto simp: publish_followers_def followers_def dest!: publish_log split: option.splits if_splits)

lemma publish_followers_none:
  assumes "publish_followers rt peer first batch r s = (ok, r', s')" and "followers first batch = []"
  shows "r' = r"
  using assms by (auto simp: publish_followers_def followers_def split: option.splits)

text \<open>The parts of the reactor state a burst does not touch.\<close>

definition same_queue :: "reactor \<Rightarrow> reactor \<Rightarrow> bool" where
  "same_queue r r' \<longleftrightarrow> commands r' = commands r \<and> read r' = read r \<and> streaming r' = streaming r
     \<and> written r' = written r \<and> transfers r' = transfers r"

lemma same_queue_refl [simp]: "same_queue r r"
  by (simp add: same_queue_def)

lemma same_queue_trans: "same_queue r q \<Longrightarrow> same_queue q t \<Longrightarrow> same_queue r t"
  by (simp add: same_queue_def)

lemma same_queue_update [simp]:
  "same_queue r (note_obs x q) \<longleftrightarrow> same_queue r q"
  "same_queue r (q\<lparr>read_buffer := b\<rparr>) \<longleftrightarrow> same_queue r q"
  "same_queue r (q\<lparr>window := w\<rparr>) \<longleftrightarrow> same_queue r q"
  "same_queue r (q\<lparr>log := l\<rparr>) \<longleftrightarrow> same_queue r q"
  by (simp_all add: same_queue_def)

lemma fill_take [simp]: "take (length bs) (fill bs buf) = bs"
  by (simp add: fill_def)

lemma length_fill: "length bs \<le> length buf \<Longrightarrow> length (fill bs buf) = length buf"
  by (simp add: fill_def)

text \<open>
  A burst of at most \<open>n\<close> reads: the chunks it read, in order, are the followers it
  collected, and the window paid for each of them.
\<close>

lemma collect_ready_spec:
  assumes "collect_ready io rt peer n first batch port r s
             = Some (res, first', batch', port', r', s')"
    and "wf_followers first batch" and "wf_size (w_size (window r))"
  shows "\<exists>cs. log r' = log r @ map (Obs_Read True) cs \<and> length cs \<le> n
     \<and> followers first' batch' = followers first batch @ cs \<and> wf_followers first' batch'
     \<and> same_queue r r' \<and> wf_size (w_size (window r'))
     \<and> w_bytes (window r) = w_bytes (window r') + length (concat cs)
     \<and> w_slots (window r) = w_slots (window r') + length cs
     \<and> (\<forall>c \<in> set cs. c \<noteq> [])"
  using assms
proof (induction n arbitrary: first batch port r s)
  case 0
  then show ?case by (auto intro!: exI [of _ "[]"])
next
  case (Suc n)
  define capacity where "capacity = min (w_bytes (window r)) (w_size (window r))"
  define r1 where "r1 = grow_buffer capacity r"
  have r1: "log r1 = log r" "same_queue r r1" "window r1 = window r"
    by (simp_all add: r1_def same_queue_def)
  show ?case
  proof (cases "log r' = log r \<and> first' = first \<and> batch' = batch \<and> same_queue r r' \<and> window r' = window r")
    case True
    with Suc.prems show ?thesis by (auto intro!: exI [of _ "[]"])
  next
    case False
    then obtain bs first1 batch1 w port1 s1 where
      c: "collect bs first batch = (first1, batch1)"
      and ch: "charge (length bs) ((window r)\<lparr>w_size := next_window_size (length bs = capacity)
                 (w_size (window r)) (length bs)\<rparr>) = Some w"
      and rec: "collect_ready io rt peer n first1 batch1 port1
        ((note_obs (Obs_Read True bs) (r1\<lparr>read_buffer := fill bs (read_buffer r1)\<rparr>))
            \<lparr>window := w, read_buffer := []\<rparr>) s1 = Some (res, first', batch', port', r', s')"
      and ne: "bs \<noteq> []"
      using Suc.prems(1) r1
      by (auto simp: Let_def load_stop_def load_pending_def capacity_def [symmetric]
          r1_def [symmetric] split: if_splits prod.splits sum.splits option.splits)
    let ?r2 = "(note_obs (Obs_Read True bs) (r1\<lparr>read_buffer := fill bs (read_buffer r1)\<rparr>))
            \<lparr>window := w, read_buffer := []\<rparr>"
    have w: "length bs \<le> w_bytes (window r)" "1 \<le> w_slots (window r)"
      "w_bytes w = w_bytes (window r) - length bs" "w_slots w = w_slots (window r) - 1"
      "wf_size (w_size w)"
      using ch Suc.prems(3) by (auto simp: charge_Some next_window_size_wf)
    have f: "wf_followers first1 batch1" "followers first1 batch1 = followers first batch @ [bs]"
      using collect_followers [OF Suc.prems(2) c] by auto
    obtain cs where "log r' = log ?r2 @ map (Obs_Read True) cs" "length cs \<le> n"
      "followers first' batch' = followers first1 batch1 @ cs" "wf_followers first' batch'"
      "same_queue ?r2 r'" "wf_size (w_size (window r'))"
      "w_bytes w = w_bytes (window r') + length (concat cs)"
      "w_slots w = w_slots (window r') + length cs" "\<forall>c \<in> set cs. c \<noteq> []"
      using Suc.IH [OF rec f(1)] w by auto
    moreover have "same_queue r ?r2" using r1 by (simp add: same_queue_def)
    ultimately show ?thesis
      using w f r1 ne by (intro exI [of _ "bs # cs"]) (auto simp: same_queue_def)
  qed
qed

lemma collect_ready_no_panic [panic_free]:
  assumes "bounded_stream io"
  shows "collect_ready io rt peer n first batch port r s \<noteq> None"
proof (induction n arbitrary: first batch port r s)
  case 0
  then show ?case by simp
next
  case (Suc n)
  have bounded: "length bs \<le> w_bytes (window r)"
    if "try_read io (min (w_bytes (window r)) (w_size (window r))) port = (Inr bs, p)" for bs p
    using bounded_stream_read [OF assms that] by simp
  show ?case
    by (auto simp: Let_def load_stop_def load_pending_def charge_None Suc.IH [simplified]
        split: prod.splits sum.splits option.splits dest: bounded)
qed

lemma collect_ready_buffer:
  assumes "bounded_stream io"
    and "collect_ready io rt peer n first batch port r s
             = Some (res, first', batch', port', r', s')"
    and "length (read_buffer r) \<le> CHUNK_SIZE" and "wf_size (w_size (window r))"
  shows "length (read_buffer r') \<le> CHUNK_SIZE"
  using assms(2-)
proof (induction n arbitrary: first batch port r s)
  case 0
  then show ?case by auto
next
  case (Suc n)
  define capacity where "capacity = min (w_bytes (window r)) (w_size (window r))"
  have cap: "max capacity (length (read_buffer r)) \<le> 65536"
    using Suc.prems by (auto simp: capacity_def wf_size_def)
  have filled: "length (fill bs (read_buffer (grow_buffer capacity r))) \<le> 65536"
    if "try_read io capacity port = (Inr bs, p)" for bs p
    using bounded_stream_read [OF assms(1) that] cap by (simp add: length_fill)
  show ?case
    using Suc.prems(1) cap filled Suc.prems(2,3)
    by (auto simp: Let_def load_stop_def load_pending_def capacity_def [symmetric] charge_Some
        next_window_size_wf
        split: if_splits prod.splits sum.splits option.splits dest!: Suc.IH)
qed

text \<open>A burst is the chunk in hand alone, or that chunk and the followers collected after it.\<close>

lemma send_ready_reads_cases:
  assumes "send_ready_reads io rt peer len r s = Some (res, r', s')" and "wf_size (w_size (window r))"
  obtains (single) ok s1 where "send_read rt peer len r s = Some (ok, r', s1)" "res \<noteq> Inr False \<longrightarrow> ok"
  | (burst) r1 s1 cs fst1 batch1 r2 s2 ok where "send_read rt peer len r s = Some (True, r1, s1)"
      "log r2 = log r1 @ map (Obs_Read True) cs" "length cs < READ_BURST_LIMIT"
      "followers fst1 batch1 = cs" "wf_followers fst1 batch1" "same_queue r1 r2" "wf_size (w_size (window r2))"
      "w_bytes (window r1) = w_bytes (window r2) + length (concat cs)"
      "w_slots (window r1) = w_slots (window r2) + length cs"
      "publish_followers rt peer fst1 batch1 r2 s2 = (ok, r', s')" "res \<noteq> Inr False \<longrightarrow> ok"
proof -
  obtain ok r1 s1 where first: "send_read rt peer len r s = Some (ok, r1, s1)"
    using assms(1) by (auto simp: send_ready_reads_def split: option.splits)
  have r1: "wf_size (w_size (window r1))" using send_read_log [OF first] assms(2) by auto
  show thesis
  proof (cases "ok \<and> w_bytes (window r1) \<noteq> 0 \<and> w_slots (window r1) \<noteq> 0")
    case False
    with assms(1) first have "r' = r1 \<and> (res \<noteq> Inr False \<longrightarrow> ok)"
      by (auto simp: send_ready_reads_def split: if_splits)
    with first single [of ok s1] show thesis by simp
  next
    case True
    show thesis
    proof (cases "locked_port (peer s1)")
      case (Inl e)
      with True assms(1) first have "r' = r1"
        by (auto simp: send_ready_reads_def publish_followers_def Let_def)
      with first True single [of ok s1] show thesis by simp
    next
      case (Inr port)
      with True assms(1) first obtain collected fst1 batch1 port1 r2 s2 ok2 where
        c: "collect_ready io rt peer (READ_BURST_LIMIT - 1) None [] port r1 ((peer s1)\<lparr>held := True\<rparr>)
              = Some (collected, fst1, batch1, port1, r2, s2)"
        and p: "publish_followers rt peer fst1 batch1 r2 (s2\<lparr>held := False, session := Some port1\<rparr>)
              = (ok2, r', s')"
        and res: "res \<noteq> Inr False \<longrightarrow> ok2"
        by (auto simp: send_ready_reads_def Let_def split: option.splits prod.splits if_splits)
      have "wf_followers None []" by (simp add: wf_followers_def)
      from collect_ready_spec [OF c this r1] obtain cs where cs:
        "log r2 = log r1 @ map (Obs_Read True) cs" "length cs \<le> READ_BURST_LIMIT - 1"
        "followers fst1 batch1 = followers None [] @ cs" "wf_followers fst1 batch1" "same_queue r1 r2"
        "wf_size (w_size (window r2))" "w_bytes (window r1) = w_bytes (window r2) + length (concat cs)"
        "w_slots (window r1) = w_slots (window r2) + length cs"
        by blast
      have "followers fst1 batch1 = cs" "length cs < READ_BURST_LIMIT"
        using cs(2,3) by (simp_all add: followers_def READ_BURST_LIMIT_def)
      moreover have "send_read rt peer len r s = Some (True, r1, s1)" using first True by simp
      ultimately show thesis using cs p res by (intro burst) assumption+
    qed
  qed
qed

lemma send_ready_reads_spec:
  assumes "send_ready_reads io rt peer len r s = Some (res, r', s')"
    and "wf_size (w_size (window r))"
  shows "\<exists>d. log r' = log r @ d \<and> published d = take len (read_buffer r) # reads d \<and> io_only d
     \<and> same_queue r r' \<and> wf_size (w_size (window r'))
     \<and> w_bytes (window r) = w_bytes (window r') + spent_bytes d
     \<and> w_slots (window r) = w_slots (window r') + spent_slots d
     \<and> length (reads d) < READ_BURST_LIMIT \<and> (res = Inr True \<longrightarrow> all_accepted d)
     \<and> (\<forall>e. res = Inl e \<longrightarrow> all_accepted d) \<and> all_accepted (butlast d)"
  using assms
proof (cases rule: send_ready_reads_cases)
  case (single ok s1)
  from send_read_log [OF single(1)] obtain ev buffer where
    "r' = note_obs (Obs_Send ev ok) (r\<lparr>read_buffer := buffer\<rparr>)"
    "event_chunks ev = [take len (read_buffer r)]" "closes_of (Obs_Send ev ok) = []"
    by blast
  with single(2) assms(2) show ?thesis
    by (intro exI [of _ "[Obs_Send ev ok]"]) (simp add: READ_BURST_LIMIT_def)
next
  case (burst r1 s1 cs fst1 batch1 r2 s2 ok)
  from send_read_log [OF burst(1)] obtain ev buffer where
    r1: "r1 = note_obs (Obs_Send ev True) (r\<lparr>read_buffer := buffer\<rparr>)"
    and ev: "event_chunks ev = [take len (read_buffer r)]" "closes_of (Obs_Send ev True) = []"
    by blast
  from publish_followers_log [OF burst(5,10)] burst(4) obtain d where d:
    "r' = r2\<lparr>log := log r2 @ d\<rparr>" "published d = cs" "reads d = []" "io_only d"
    "spent_bytes d = 0" "spent_slots d = 0" "ok \<longrightarrow> all_accepted d" "all_accepted (butlast d)"
    by blast
  have "same_queue r r'" using burst(6) d(1) r1 by (auto simp: same_queue_def)
  with burst(2,3,7-9,11) d r1 ev show ?thesis
    by (intro exI [of _ "Obs_Send ev True # map (Obs_Read True) cs @ d"])
      (auto simp: butlast_append map_butlast [symmetric] intro: all_accepted_butlast)
qed

text \<open>
  The same, entry by entry: the chunk in hand goes out in an event of its own before the followers
  are read, and these in one event after them.
\<close>

lemma send_ready_reads_shape:
  assumes "send_ready_reads io rt peer len r s = Some (res, r', s')" and "wf_size (w_size (window r))"
  shows "\<exists>ev ok cs d. log r' = log r @ Obs_Send ev ok # map (Obs_Read True) cs @ d
     \<and> event_chunks ev = [take len (read_buffer r)]
     \<and> (if cs = [] then d = [] else \<exists>ev' ok'. d = [Obs_Send ev' ok'] \<and> event_chunks ev' = cs)
     \<and> length cs < READ_BURST_LIMIT \<and> same_queue r r'
     \<and> w_bytes (window r) = w_bytes (window r') + length (concat cs)
     \<and> w_slots (window r) = w_slots (window r') + length cs
     \<and> (ok \<or> cs = []) \<and> (res \<noteq> Inr False \<longrightarrow> ok \<and> all_accepted d)"
  using assms
proof (cases rule: send_ready_reads_cases)
  case (single ok s1)
  from send_read_log [OF single(1)] obtain ev buffer where
    "r' = note_obs (Obs_Send ev ok) (r\<lparr>read_buffer := buffer\<rparr>)"
    "event_chunks ev = [take len (read_buffer r)]"
    by blast
  with single(2) show ?thesis
    by (intro exI [of _ ev] exI [of _ ok] exI [of _ "[]"]) (simp add: READ_BURST_LIMIT_def)
next
  case (burst r1 s1 cs fst1 batch1 r2 s2 ok)
  from send_read_log [OF burst(1)] obtain ev buffer where
    r1: "r1 = note_obs (Obs_Send ev True) (r\<lparr>read_buffer := buffer\<rparr>)"
    and ev: "event_chunks ev = [take len (read_buffer r)]"
    by blast
  obtain d where d: "log r' = log r2 @ d" "same_queue r2 r'" "window r' = window r2"
    "if cs = [] then d = [] else \<exists>ev'. d = [Obs_Send ev' ok] \<and> event_chunks ev' = cs"
  proof (cases "cs = []")
    case True
    with publish_followers_none [OF burst(10)] burst(4) that [of "[]"] show thesis by simp
  next
    case False
    with publish_followers_event [OF burst(10)] burst(4) obtain ev' where
      "r' = note_obs (Obs_Send ev' ok) r2" "event_chunks ev' = cs" by blast
    with False that [of "[Obs_Send ev' ok]"] show thesis by simp
  qed
  have acc: "all_accepted d" if "ok" using d(4) that by (auto split: if_splits)
  have "same_queue r r'"
    using same_queue_trans [OF same_queue_trans [OF _ burst(6)] d(2), of r] r1 by simp
  with burst(2,3,8,9,11) d r1 ev acc show ?thesis
    by (intro exI [of _ ev] exI [of _ True] exI [of _ cs] exI [of _ d]) (auto split: if_splits)
qed

lemma send_ready_reads_no_panic [panic_free]:
  assumes "bounded_stream io" and "len \<le> length (read_buffer r)"
  shows "send_ready_reads io rt peer len r s \<noteq> None"
  using send_read_no_panic [OF assms(2), of rt peer s]
  by (auto simp: send_ready_reads_def Let_def collect_ready_no_panic [OF assms(1)]
      split: option.splits prod.splits sum.splits)

end
