(* ===== verification/Reactor_Invariant.thy ===== *)
theory Reactor_Invariant
  imports Reactor_Facts
begin

text \<open>
  The invariant of the reactor's loop, kept by every turn whatever the other threads, the port
  and the runtime do, and the absence of panics.
\<close>

subsection \<open>The invariant\<close>

fun front_payload :: "command list \<Rightarrow> bytes" where
  "front_payload [] = []"
| "front_payload (c # _) = payload c"

abbreviation payloads :: "command list \<Rightarrow> bytes" where
  "payloads cs \<equiv> concat (map payload cs)"

text \<open>
  A completion is logged with the event that answers it, and the event is published at once. When
  the completion is logged, the port has accepted the payloads of all commands up to this one and
  nothing more.
\<close>

definition done_ok :: "obs list \<Rightarrow> bool" where
  "done_ok l \<longleftrightarrow>
     (\<forall>p c ev q. l = p @ Obs_Done c ev # q \<longrightarrow>
        ev_id ev = cmd_id c \<and> ev_kind ev \<in> {''ok'', ''error''}
        \<and> tx p = payloads (dones p) @ payload c
        \<and> (\<exists>b q'. q = Obs_Send (Event ev) b # q'))"

definition core_inv :: "reactor \<Rightarrow> bool" where
  "core_inv r \<longleftrightarrow>
     reads (log r) = published (log r)
     \<and> recvd (log r) = dones (log r) @ commands r
     \<and> tx (log r) = payloads (dones (log r)) @ take (written r) (front_payload (commands r))
     \<and> written r \<le> length (front_payload (commands r))
     \<and> credit_bytes_in (log r) = w_bytes (window r) + spent_bytes (log r)
     \<and> credit_slots_in (log r) = w_slots (window r) + spent_slots (log r)
     \<and> done_ok (log r) \<and> all_accepted (butlast (log r))
     \<and> list_all ordered (commands r) \<and> closes (log r) = []"

definition live_inv :: "reactor \<Rightarrow> bool" where
  "live_inv r \<longleftrightarrow>
     all_accepted (log r)
     \<and> (streaming r \<longrightarrow> read r = None)
     \<and> (\<not> streaming r \<longrightarrow> w_bytes (window r) = 0 \<and> w_slots (window r) = 0)
     \<and> w_bytes (window r) \<le> CHUNK_SIZE \<and> w_slots (window r) \<le> READ_SLOTS
     \<and> wf_size (w_size (window r)) \<and> length (read_buffer r) \<le> CHUNK_SIZE"

definition loop_inv :: "outcome \<Rightarrow> reactor \<Rightarrow> bool" where
  "loop_inv out r \<longleftrightarrow> core_inv r \<and> ((\<forall>res. out \<noteq> Finished res) \<longrightarrow> live_inv r)"

lemma loop_inv_simps [simp]:
  "loop_inv Next r \<longleftrightarrow> core_inv r \<and> live_inv r"
  "loop_inv (Select d) r \<longleftrightarrow> core_inv r \<and> live_inv r"
  "loop_inv (Finished res) r \<longleftrightarrow> core_inv r"
  by (auto simp: loop_inv_def)

lemma wf_size_1024: "wf_size 1024"
  by (simp add: wf_size_def)

lemma core_inv_new: "core_inv reactor_new"
  by (simp add: core_inv_def reactor_new_def done_ok_def)

lemma live_inv_new: "live_inv reactor_new"
  by (simp add: live_inv_def reactor_new_def wf_size_1024)

subsection \<open>Extending the log\<close>

lemma done_ok_append:
  assumes "done_ok l" and "dones d = []"
  shows "done_ok (l @ d)"
  unfolding done_ok_def
proof (intro allI impI)
  fix p c ev q
  assume split: "l @ d = p @ Obs_Done c ev # q"
  have notin: "Obs_Done c ev \<notin> set d"
  proof
    assume "Obs_Done c ev \<in> set d"
    then obtain u v where "d = u @ Obs_Done c ev # v" by (meson split_list)
    with assms(2) show False by simp
  qed
  from split obtain u where "(l = p @ u \<and> u @ d = Obs_Done c ev # q)
      \<or> (l @ u = p \<and> d = u @ Obs_Done c ev # q)"
    by (auto simp: append_eq_append_conv2)
  with notin have "l = p @ u" and u: "u @ d = Obs_Done c ev # q" by auto
  moreover from u notin obtain q1 where q1: "u = Obs_Done c ev # q1" "q = q1 @ d"
    by (cases u) auto
  ultimately have "l = p @ Obs_Done c ev # q1" by simp
  with assms(1) have "ev_id ev = cmd_id c \<and> ev_kind ev \<in> {''ok'', ''error''}
      \<and> tx p = payloads (dones p) @ payload c \<and> (\<exists>b q'. q1 = Obs_Send (Event ev) b # q')"
    unfolding done_ok_def by blast
  with q1 show "ev_id ev = cmd_id c \<and> ev_kind ev \<in> {''ok'', ''error''}
      \<and> tx p = payloads (dones p) @ payload c \<and> (\<exists>b q'. q = Obs_Send (Event ev) b # q')"
    by (metis append_Cons)
qed

lemma done_ok_complete:
  assumes "done_ok l" and "ev_id ev = cmd_id c" and "ev_kind ev \<in> {''ok'', ''error''}"
    and "tx l = payloads (dones l) @ payload c"
  shows "done_ok (l @ [Obs_Done c ev, Obs_Send (Event ev) b])"
  unfolding done_ok_def
proof (intro allI impI)
  fix p c' ev' q
  assume split: "l @ [Obs_Done c ev, Obs_Send (Event ev) b] = p @ Obs_Done c' ev' # q"
  show "ev_id ev' = cmd_id c' \<and> ev_kind ev' \<in> {''ok'', ''error''}
      \<and> tx p = payloads (dones p) @ payload c' \<and> (\<exists>b q'. q = Obs_Send (Event ev') b # q')"
  proof (cases q rule: rev_cases)
    case Nil
    with split show ?thesis by auto
  next
    case (snoc q1 x)
    with split have s1: "l @ [Obs_Done c ev] = p @ Obs_Done c' ev' # q1" "x = Obs_Send (Event ev) b"
      by auto
    show ?thesis
    proof (cases q1 rule: rev_cases)
      case Nil
      with s1 snoc assms show ?thesis by auto
    next
      case (snoc q2 y)
      with s1 have "l = p @ Obs_Done c' ev' # q2" by auto
      with assms(1) snoc \<open>q = q1 @ [x]\<close> show ?thesis by (fastforce simp: done_ok_def)
    qed
  qed
qed

text \<open>Data delivered to JavaScript, with the window it was charged to, keeps the invariant.\<close>

lemma core_inv_io:
  assumes "core_inv r" and "all_accepted (log r)"
    and "log r' = log r @ d" and "io_only d" and "published d = reads d"
    and "commands r' = commands r" and "written r' = written r"
    and "w_bytes (window r) = w_bytes (window r') + spent_bytes d"
    and "w_slots (window r) = w_slots (window r') + spent_slots d"
    and "all_accepted (butlast d)"
  shows "core_inv r'"
  using assms by (auto simp: core_inv_def io_only_def butlast_append intro: done_ok_append
      all_accepted_butlast)

lemma core_inv_publish:
  assumes "core_inv r" and "live_inv r" and "event_chunks ev = []"
    and "closes_of (Obs_Send ev ok) = []"
  shows "core_inv (note_obs (Obs_Send ev ok) r)"
proof (rule core_inv_io [OF assms(1)])
  show "all_accepted (log r)" using assms(2) by (simp add: live_inv_def)
  show "log (note_obs (Obs_Send ev ok) r) = log r @ [Obs_Send ev ok]" by simp
  show "published [Obs_Send ev ok] = reads [Obs_Send ev ok]" using assms(3) by simp
  show "io_only [Obs_Send ev ok]" using assms(4) by simp
qed simp_all

subsection \<open>Commands\<close>

lemma handle_command_busy:
  "operation c = Op_Read len \<Longrightarrow> read r \<noteq> None \<or> streaming r \<Longrightarrow>
     handle_command rt peer (Some c) r s =
       (case send rt peer
               (native_event_error (cmd_id c) (io_error_new ResourceBusy ''Read already pending''))
               (note_obs (Obs_Recv c) r) s of
          (ok, r, s) \<Rightarrow> (if ok then Next else Finished (Inr ()), r, s))"
  by (simp add: handle_command_def)

lemma handle_command_ordered:
  "ordered c \<Longrightarrow> handle_command rt peer (Some c) r s =
     (Next, (note_obs (Obs_Recv c) r)\<lparr>commands := commands r @ [c]\<rparr>, s)"
  by (cases "operation c") (simp_all add: handle_command_def ordered_def)

lemma core_inv_ordered:
  assumes "core_inv r" and "live_inv r" and "ordered c"
  shows "core_inv ((note_obs (Obs_Recv c) r)\<lparr>commands := commands r @ [c]\<rparr>)
    \<and> live_inv ((note_obs (Obs_Recv c) r)\<lparr>commands := commands r @ [c]\<rparr>)"
proof -
  have "credit_of (Obs_Recv c) = (0, 0)"
    using assms(3) by (cases "operation c") (simp_all add: ordered_def)
  moreover have "take (written r) (front_payload (commands r @ [c]))
      = take (written r) (front_payload (commands r))"
    "written r \<le> length (front_payload (commands r @ [c]))"
    using assms(1) by (cases "commands r"; simp add: core_inv_def)+
  ultimately show ?thesis
    using assms by (simp add: core_inv_def live_inv_def done_ok_append all_accepted_butlast)
qed

lemma inv_recv:
  assumes "\<not> ordered c" and "credit_of (Obs_Recv c) = (0, 0)"
    and "core_inv r" and "live_inv r"
  shows "core_inv (note_obs (Obs_Recv c) r)" "live_inv (note_obs (Obs_Recv c) r)"
  using assms by (auto simp: core_inv_def live_inv_def done_ok_append all_accepted_butlast)

lemma read_command_inv:
  assumes "handle_command rt peer (Some c) r s = (out, r', s')" and "core_inv r" and "live_inv r"
    and op: "operation c = Op_Read len"
  shows "loop_inv out r'"
proof -
  have u: "\<not> ordered c" "credit_of (Obs_Recv c) = (0, 0)" using op by (simp_all add: ordered_def)
  note recv = inv_recv [OF u assms(2,3)]
  show ?thesis
  proof (cases "read r \<noteq> None \<or> streaming r")
    case True
    define ev where
      ev: "ev = native_event_error (cmd_id c) (io_error_new ResourceBusy ''Read already pending'')"
    obtain ok r1 s1 where snd: "send rt peer ev (note_obs (Obs_Recv c) r) s = (ok, r1, s1)"
      by (metis prod_cases3)
    have "(if ok then Next else Finished (Inr ()), r1, s1) = (out, r', s')"
      using assms(1) unfolding handle_command_busy [OF op True] ev [symmetric] snd by simp
    then have out: "out = (if ok then Next else Finished (Inr ()))" and "r' = r1" by auto
    with send_log [OF snd] have r': "r' = note_obs (Obs_Send (Event ev) ok) (note_obs (Obs_Recv c) r)"
      by simp
    have "core_inv r'"
      unfolding r' by (rule core_inv_publish [OF recv]) (simp_all add: ev)
    moreover have "live_inv r'" if ok using assms(3) r' that by (simp add: live_inv_def)
    ultimately show ?thesis using out by simp
  next
    case False
    with assms(1) op have "out = Next" "r' = (note_obs (Obs_Recv c) r)\<lparr>read := Some (cmd_id c, len)\<rparr>"
      by (auto simp: handle_command_def)
    with False recv show ?thesis by (simp add: core_inv_def live_inv_def)
  qed
qed

lemma credit_command_inv:
  assumes "handle_command rt peer (Some c) r s = (out, r', s')" and "core_inv r" and "live_inv r"
    and op: "operation c = Op_ReadCredit b n"
  shows "loop_inv out r'"
proof -
  have u: "\<not> ordered c" using op by (simp add: ordered_def)
  from assms(2,3) u op have "done_ok (log r @ [Obs_Recv c])"
    by (auto simp: core_inv_def intro: done_ok_append)
  moreover define w where
    "w = (window r)\<lparr>w_bytes := w_bytes (window r) + b, w_slots := w_slots (window r) + n\<rparr>"
  moreover from assms(1) op have
    "out = Next \<and> read r = None \<and> w_bytes w \<le> CHUNK_SIZE \<and> w_slots w \<le> READ_SLOTS
       \<and> r' = (note_obs (Obs_Recv c) r)\<lparr>window := w, streaming := True\<rparr>
     \<or> (\<exists>e. out = Finished (Inl e) \<and> r' = (note_obs (Obs_Recv c) r)\<lparr>window := w\<rparr>)"
    by (cases "read r") (auto simp: handle_command_def Let_def w_def split: if_splits)
  ultimately show ?thesis
    using assms(2,3) u op
    by (elim disjE conjE exE) (simp_all add: core_inv_def live_inv_def all_accepted_butlast)
qed

lemma handle_command_inv:
  assumes "handle_command rt peer m r s = (out, r', s')" and "core_inv r" and "live_inv r"
  shows "loop_inv out r'"
proof (cases m)
  case None
  with assms show ?thesis by (auto simp: handle_command_def)
next
  case (Some c)
  note received = assms [unfolded Some]
  show ?thesis
  proof (cases "ordered c")
    case True
    with received(1) core_inv_ordered [OF received(2,3) True] show ?thesis
      unfolding handle_command_ordered [OF True] by auto
  next
    case False
    then consider len where "operation c = Op_Read len" | b n where "operation c = Op_ReadCredit b n"
      by (cases "operation c") (simp_all add: ordered_def)
    then show ?thesis
      using read_command_inv [OF received] credit_command_inv [OF received] by cases
  qed
qed

subsection \<open>Completed reads\<close>

lemma send_ready_reads_buffer:
  assumes "bounded_stream io" and "send_ready_reads io rt peer len r s = Some (res, r', s')"
    and "length (read_buffer r) \<le> CHUNK_SIZE" and "wf_size (w_size (window r))"
  shows "length (read_buffer r') \<le> CHUNK_SIZE"
proof -
  obtain ok r1 s1 where first: "send_read rt peer len r s = Some (ok, r1, s1)"
    using assms(2) by (auto simp: send_ready_reads_def split: option.splits)
  then have r1: "length (read_buffer r1) \<le> CHUNK_SIZE" "window r1 = window r"
    using send_read_log [OF first] assms(3) by auto
  have publish: "read_buffer r3 = read_buffer r2"
    if "publish_followers rt peer f b r2 s2 = (ok2, r3, s3)" for f b r2 s2 ok2 r3 s3
    using that by (auto simp: publish_followers_def split: option.splits if_splits dest!: publish_log)
  have burst: "length (read_buffer r2) \<le> 65536"
    if "collect_ready io rt peer n None [] port r1 s2 = Some (c, f, b, port', r2, s3)"
    for n port s2 c f b port' r2 s3
    using collect_ready_buffer [OF assms(1) that] r1 assms(4) by simp
  show ?thesis
    using assms(2) first r1
    by (auto simp: send_ready_reads_def Let_def split: option.splits prod.splits sum.splits if_splits
        dest!: publish burst)
qed

text \<open>What the loop knows when a read of \<open>len\<close> bytes has completed.\<close>

definition read_ready :: "reactor \<Rightarrow> nat option \<Rightarrow> nat \<Rightarrow> bool" where
  "read_ready r capacity len \<longleftrightarrow>
     capacity = read_capacity r \<and> (\<exists>c. capacity = Some c \<and> len \<le> c)
     \<and> len \<le> length (read_buffer r)"

text \<open>The state in which a read on credit has been charged and is to be published.\<close>

definition charged :: "reactor \<Rightarrow> nat \<Rightarrow> reactor \<Rightarrow> bool" where
  "charged r len q \<longleftrightarrow>
     log q = log r @ [Obs_Read True (take len (read_buffer r))] \<and> commands q = commands r
     \<and> read q = read r \<and> streaming r \<and> streaming q \<and> written q = written r
     \<and> read_buffer q = read_buffer r \<and> wf_size (w_size (window q))
     \<and> w_bytes (window r) = w_bytes (window q) + len \<and> w_slots (window r) = w_slots (window q) + 1"

text \<open>The two ways such a read is published.\<close>

definition finish_direct ::
  "(bool \<times> reactor \<times> ('p, 'e) control) option \<Rightarrow> (outcome \<times> reactor \<times> ('p, 'e) control) option" where
  "finish_direct = map_option (\<lambda>(ok, r, s). (if ok then Next else Finished (Inr ()), r, s))"

definition finish_burst ::
  "(bool io_result \<times> reactor \<times> ('p, 'e) control) option \<Rightarrow> (outcome \<times> reactor \<times> ('p, 'e) control) option"
where
  "finish_burst x =
     (case x of
        None \<Rightarrow> None
      | Some (Inl e, r, s) \<Rightarrow> Some (Finished (Inl e), r, s)
      | Some (Inr ok, r, s) \<Rightarrow> Some (if ok then Next else Finished (Inr ()), r, s))"

lemma handle_read_cases:
  assumes "streaming r" and "len \<le> w_bytes (window r)" and "1 \<le> w_slots (window r)"
    and "wf_size (w_size (window r))"
  shows "\<exists>q t. charged r len q \<and>
    (handle_read io rt peer writing capacity len
        (note_obs (Obs_Read (streaming r) (take len (read_buffer r))) r) s
      \<in> {finish_direct (send_read rt peer len q t), finish_burst (send_ready_reads io rt peer len q t)})"
proof -
  define sz where "sz = next_window_size (Some len = capacity) (w_size (window r)) len"
  define w where "w = (window r)\<lparr>w_size := sz, w_bytes := w_bytes (window r) - len,
                                  w_slots := w_slots (window r) - 1\<rparr>"
  have charge: "charge len ((window r)\<lparr>w_size := sz\<rparr>) = Some w"
    using assms(2,3) by (simp add: charge_Some w_def)
  define q where "q = (note_obs (Obs_Read True (take len (read_buffer r))) r)\<lparr>window := w\<rparr>"
  have "charged r len q"
    using assms by (simp add: charged_def q_def w_def sz_def next_window_size_wf)
  moreover obtain d t where d: "(if writing \<or> (Some len \<noteq> capacity \<and> len < 1024) then (True, s)
      else let (pending, s) = load_pending peer s in (pending \<noteq> 0, s)) = (d, t)"
    by (metis prod.exhaust_sel)
  moreover have "handle_read io rt peer writing capacity len
      (note_obs (Obs_Read (streaming r) (take len (read_buffer r))) r) s =
      (if d then finish_direct (send_read rt peer len q t)
       else finish_burst (send_ready_reads io rt peer len q t))"
    using assms(1) charge d
    unfolding handle_read_def Let_def q_def sz_def finish_direct_def finish_burst_def
    by (simp split: option.split sum.split)
  ultimately show ?thesis by (cases d) auto
qed

lemma direct_read_inv:
  assumes "core_inv r" and "live_inv r" and "charged r len q" and "len \<le> length (read_buffer r)"
  shows "\<exists>out r' s'. finish_direct (send_read rt peer len q t) = Some (out, r', s') \<and> loop_inv out r'"
proof -
  obtain ok r3 s3 where sent: "send_read rt peer len q t = Some (ok, r3, s3)"
    using send_read_no_panic [of len q rt peer t] assms(3,4) by (auto simp: charged_def)
  then obtain ev buffer where r3: "r3 = note_obs (Obs_Send ev ok) (q\<lparr>read_buffer := buffer\<rparr>)"
    and ev: "event_chunks ev = [take len (read_buffer r)]" "closes_of (Obs_Send ev ok) = []"
    and b: "length buffer \<le> length (read_buffer r)"
    using send_read_log [OF sent] assms(3) by (auto simp: charged_def)
  have live: "all_accepted (log r)" using assms(2) by (simp add: live_inv_def)
  have "core_inv r3"
    using r3 assms(3,4) ev
    by (intro core_inv_io [OF assms(1) live, of r3 "[Obs_Read True (take len (read_buffer r)), Obs_Send ev ok]"])
      (simp_all add: charged_def)
  moreover have "live_inv r3" if ok
    using r3 assms(2,3) b that by (simp add: live_inv_def charged_def)
  ultimately show ?thesis using sent by (simp add: finish_direct_def)
qed

lemma burst_read_inv:
  assumes "bounded_stream io" and "core_inv r" and "live_inv r" and "charged r len q"
    and "len \<le> length (read_buffer r)"
  shows "\<exists>out r' s'. finish_burst (send_ready_reads io rt peer len q t) = Some (out, r', s') \<and> loop_inv out r'"
proof -
  have "len \<le> length (read_buffer q)" using assms(4,5) by (simp add: charged_def)
  then obtain res r3 s3 where sent: "send_ready_reads io rt peer len q t = Some (res, r3, s3)"
    using send_ready_reads_no_panic [OF assms(1), of len q rt peer t] by auto
  have wf: "wf_size (w_size (window q))" using assms(4) by (simp add: charged_def)
  from send_ready_reads_spec [OF sent wf] assms(4) obtain d where d:
    "log r3 = log q @ d" "published d = take len (read_buffer r) # reads d" "io_only d" "same_queue q r3"
    "wf_size (w_size (window r3))" "w_bytes (window q) = w_bytes (window r3) + spent_bytes d"
    "w_slots (window q) = w_slots (window r3) + spent_slots d"
    "res = Inr True \<longrightarrow> all_accepted d" "all_accepted (butlast d)"
    by (auto simp: charged_def)
  have live: "all_accepted (log r)" using assms(3) by (simp add: live_inv_def)
  have buffer: "length (read_buffer r3) \<le> CHUNK_SIZE"
    using send_ready_reads_buffer [OF assms(1) sent _ wf] assms(3,4) by (simp add: charged_def live_inv_def)
  have "core_inv r3"
    using assms(4,5) d
    by (intro core_inv_io [OF assms(2) live, of r3 "Obs_Read True (take len (read_buffer r)) # d"])
      (simp_all add: charged_def same_queue_def butlast.simps split: if_splits)
  moreover have "live_inv r3" if "res = Inr True"
    using assms(3,4) d buffer that by (simp add: live_inv_def same_queue_def charged_def)
  ultimately show ?thesis using sent by (cases res) (auto simp: finish_burst_def)
qed

lemma single_read_inv:
  assumes "core_inv r" and "live_inv r" and "\<not> streaming r" and "read r = Some (i, n)"
  shows "\<exists>out r' s'. handle_read io rt peer writing capacity len
             (note_obs (Obs_Read (streaming r) (take len (read_buffer r))) r) s = Some (out, r', s')
           \<and> loop_inv out r'"
proof -
  define data where "data = take len (read_buffer r)"
  define sz where "sz = next_window_size (Some len = capacity) (w_size (window r)) len"
  define r1 where "r1 = (note_obs (Obs_Read (streaming r) data) r)\<lparr>window := (window r)\<lparr>w_size := sz\<rparr>\<rparr>"
  define ev where "ev = (native_event_new i ''read'')\<lparr>ev_data := Some data\<rparr>"
  obtain ok r3 s3 where sent: "send rt peer ev (r1\<lparr>read := None, read_buffer := []\<rparr>) s = (ok, r3, s3)"
    by (metis prod_cases3)
  have r3: "r3 = note_obs (Obs_Send (Event ev) ok) (r1\<lparr>read := None, read_buffer := []\<rparr>)"
    using send_log [OF sent] .
  have live: "all_accepted (log r)" "wf_size sz"
    using assms(2) by (simp_all add: live_inv_def sz_def next_window_size_wf)
  have "core_inv r3"
    using r3 assms(3)
    by (intro core_inv_io [OF assms(1) live(1), of r3 "[Obs_Read False data, Obs_Send (Event ev) ok]"])
      (simp_all add: r1_def ev_def)
  moreover have "live_inv r3" if ok
    using r3 live assms(2,3) that by (simp add: live_inv_def r1_def)
  moreover have "handle_read io rt peer writing capacity len (note_obs (Obs_Read (streaming r) data) r) s
      = Some (if ok then Next else Finished (Inr ()), r3, s3)"
    using assms(3,4) sent by (simp add: handle_read_def Let_def r1_def sz_def data_def ev_def)
  ultimately show ?thesis unfolding data_def by simp
qed

lemma handle_read_inv:
  assumes "bounded_stream io" and "core_inv r" and "live_inv r" and "read_ready r capacity len"
  shows "\<exists>out r' s'. handle_read io rt peer writing capacity len
             (note_obs (Obs_Read (streaming r) (take len (read_buffer r))) r) s = Some (out, r', s')
           \<and> loop_inv out r'"
proof (cases "streaming r")
  case True
  with assms(3,4) have "len \<le> w_bytes (window r)" "1 \<le> w_slots (window r)" "wf_size (w_size (window r))"
    by (auto simp: live_inv_def read_ready_def read_capacity_def read_length_def split: option.splits if_splits)
  from handle_read_cases [OF True this] obtain q t where q: "charged r len q"
    "handle_read io rt peer writing capacity len
        (note_obs (Obs_Read (streaming r) (take len (read_buffer r))) r) s
      \<in> {finish_direct (send_read rt peer len q t), finish_burst (send_ready_reads io rt peer len q t)}"
    by blast
  have len: "len \<le> length (read_buffer r)" using assms(4) by (simp add: read_ready_def)
  from q(2) show ?thesis
    using direct_read_inv [OF assms(2,3) q(1) len, of rt peer t]
      burst_read_inv [OF assms(1-3) q(1) len, of rt peer t]
    by (elim insertE emptyE) simp_all
next
  case False
  with assms(3,4) obtain i n where "read r = Some (i, n)"
    by (auto simp: live_inv_def read_ready_def read_capacity_def read_length_def split: option.splits if_splits)
  from single_read_inv [OF assms(2,3) False this] show ?thesis .
qed

subsection \<open>Transfers\<close>

lemma inv_frame [simp]:
  "core_inv (r\<lparr>read_buffer := b\<rparr>) = core_inv r" "core_inv (r\<lparr>transfers := t\<rparr>) = core_inv r"
  "core_inv (grow_buffer n r) = core_inv r" "live_inv (r\<lparr>transfers := t\<rparr>) = live_inv r"
  by (simp_all add: core_inv_def live_inv_def grow_buffer_def)

lemma read_capacity_frame [simp]:
  "read_capacity (grow_buffer n r) = read_capacity r"
  "read_capacity (r\<lparr>read_buffer := b\<rparr>) = read_capacity r"
  "read_capacity (r\<lparr>transfers := t\<rparr>) = read_capacity r"
  by (simp_all add: read_capacity_def read_length_def split: option.split)

lemma pending_write_frame [simp]:
  "pending_write (grow_buffer n r) = pending_write r"
  "pending_write (r\<lparr>read_buffer := b\<rparr>) = pending_write r"
  "pending_write (r\<lparr>transfers := t\<rparr>) = pending_write r"
  by (simp_all add: pending_write_def split: list.split operation.split)

lemma live_inv_buffer:
  "live_inv r \<Longrightarrow> length b \<le> CHUNK_SIZE \<Longrightarrow> live_inv (r\<lparr>read_buffer := b\<rparr>)"
  by (simp add: live_inv_def)

lemma read_capacity_bound: "live_inv r \<Longrightarrow> read_capacity r = Some n \<Longrightarrow> n \<le> CHUNK_SIZE"
  by (auto simp: live_inv_def read_capacity_def wf_size_def)

lemma live_inv_grow: "live_inv r \<Longrightarrow> n \<le> CHUNK_SIZE \<Longrightarrow> live_inv (grow_buffer n r)"
  by (simp add: live_inv_def)

lemma pending_write_inv: "core_inv r \<Longrightarrow> pending_write r \<noteq> None"
  by (auto simp: pending_write_def core_inv_def split: list.splits operation.splits)

text \<open>What the loop knows when a write of \<open>len\<close> bytes of the front command has completed.\<close>

lemma handle_write_inv:
  assumes "core_inv r" and "live_inv r" and "pending_write r = Some (Some xs)" and "len \<le> length xs"
  shows "core_inv ((note_obs (Obs_Write (take len xs)) r)\<lparr>written := written r + len\<rparr>)
    \<and> live_inv ((note_obs (Obs_Write (take len xs)) r)\<lparr>written := written r + len\<rparr>)"
proof -
  obtain c cs data where c: "commands r = c # cs" "operation c = Op_Write data"
    "written r \<le> length data" "xs = drop (written r) data"
    using assms(3) by (auto simp: pending_write_def split: list.splits operation.splits)
  have "take (written r) data @ take len xs = take (written r + len) data"
    using c by (simp add: take_add)
  with c assms show ?thesis
    by (simp add: core_inv_def live_inv_def done_ok_append all_accepted_butlast)
qed

lemma handle_transfer_inv:
  assumes "bounded_stream io" and "core_inv r" and "live_inv r"
    and "pending_write r = Some wr"
    and "\<And>n. ready = Inr (Tr_Read n) \<Longrightarrow> read_ready r capacity n"
    and "\<And>n. ready = Inr (Tr_Write n) \<Longrightarrow> \<exists>xs. wr = Some xs \<and> n \<le> length xs"
  shows "\<exists>out r' s'. handle_transfer io rt peer wr capacity ready r s = Some (out, r', s')
           \<and> loop_inv out r'"
proof (cases ready)
  case (Inl e)
  with assms show ?thesis by (simp add: handle_transfer_def)
next
  case (Inr t)
  show ?thesis
  proof (cases t)
    case (Tr_Read n)
    show ?thesis
    proof (cases "n = 0")
      case True
      with Inr Tr_Read assms show ?thesis by (simp add: handle_transfer_def)
    next
      case False
      with Inr Tr_Read handle_read_inv [OF assms(1-3) assms(5), of n rt peer "wr \<noteq> None" s] show ?thesis
        by (simp add: handle_transfer_def)
    qed
  next
    case (Tr_Write n)
    with assms(6) Inr obtain xs where "wr = Some xs" "n \<le> length xs" by blast
    with Inr Tr_Write assms handle_write_inv [OF assms(2,3), of xs n] show ?thesis
      by (simp add: handle_transfer_def Let_def)
  qed
qed

lemma poll_transfers_cases:
  assumes "bounded_stream io" and "poll_transfers io peer rd wr r s = ((ready, rd'), r', s')"
  obtains (pending) "ready = Pending" "rd' = rd" "\<exists>t. r' = r\<lparr>transfers := t\<rparr>"
  | (error) e where "ready = Ready (Inl e)" "\<exists>t. r' = r\<lparr>transfers := t\<rparr>"
  | (got) buf bs where "ready = Ready (Inr (Tr_Read (length bs)))" "rd = Some buf"
      "rd' = Some (fill bs buf)" "length bs \<le> length buf" "\<exists>t. r' = r\<lparr>transfers := t\<rparr>"
  | (wrote) xs n where "ready = Ready (Inr (Tr_Write n))" "wr = Some xs" "n \<le> length xs"
      "rd' = rd" "\<exists>t. r' = r\<lparr>transfers := t\<rparr>"
proof (cases "locked_port (peer s)")
  case (Inl e)
  with assms(2) have "ready = Ready (Inl e)" "r' = r" by (auto simp: poll_transfers_def)
  with error [of e] show thesis by (metis (full_types) reactor.surjective reactor.update_convs(7))
next
  case (Inr port)
  then obtain tp port' w where p: "poll io (transfers r) port 0 rd wr = (ready, tp, port', w, rd')"
    and r': "r' = r\<lparr>transfers := tp\<rparr>"
    using assms(2) by (auto simp: poll_transfers_def split: prod.splits)
  note bounded = bounded_stream_io [OF assms(1)]
  show thesis
  proof (cases ready)
    case Pending
    with p r' poll_Pending_frame [of io "transfers r" port 0 rd wr] show thesis
      by (intro pending) blast+
  next
    case (Ready res)
    show thesis
    proof (cases res)
      case (Inl e)
      with Ready r' show thesis by (intro error) blast+
    next
      case (Inr t)
      from poll_Ready_Inr [OF p [unfolded Ready Inr]] show thesis
        using Ready Inr r' bounded_io_read [OF bounded] bounded_io_write [OF bounded]
        by (elim conjE disjE exE) (auto intro: got wrote)
    qed
  qed
qed

lemma transfer_branch_inv:
  assumes "bounded_stream io" and "core_inv r" and "live_inv r"
    and "pending_write r = Some wr" and "read_capacity r = capacity"
    and "\<And>len. capacity = Some len \<Longrightarrow> len \<le> length (read_buffer r)"
  shows "\<exists>out r' s'. transfer_branch io rt peer wr capacity r s = Some (out, r', s')
    \<and> (case out of None \<Rightarrow> core_inv r' \<and> live_inv r' | Some out \<Rightarrow> loop_inv out r')"
proof (cases "read_length r = None \<and> wr = None")
  case True
  with assms show ?thesis by (simp add: transfer_branch_def)
next
  case enabled: False
  obtain rd where rd: "(case capacity of None \<Rightarrow> Some None
      | Some len \<Rightarrow> map_option Some (slice_to (read_buffer r) len)) = Some rd"
    and rd_Some: "\<And>buf. rd = Some buf \<Longrightarrow> \<exists>len. capacity = Some len \<and> buf = take len (read_buffer r)"
    using assms(6) by (cases capacity) auto
  define stored where "stored = (\<lambda>rd' (r :: reactor). case (rd', capacity) of
      (Some bs, Some len) \<Rightarrow> r\<lparr>read_buffer := bs @ drop len (read_buffer r)\<rparr> | _ \<Rightarrow> r)"
  have stored_rd: "stored rd (r\<lparr>transfers := t\<rparr>) = r\<lparr>transfers := t\<rparr>" for t
    using rd_Some by (cases rd) (auto simp: stored_def)
  have core_stored: "core_inv (stored x q) = core_inv q" for x q
    by (auto simp: stored_def split: option.split)
  obtain ready rd' r1 s1 where p: "poll_transfers io peer rd wr r s = ((ready, rd'), r1, s1)"
    by (metis prod.exhaust_sel)
  have eq: "transfer_branch io rt peer wr capacity r s =
    (case ready of
       Ready t \<Rightarrow> map_option (\<lambda>(out, r, s). (Some out, r, s))
                    (handle_transfer io rt peer wr capacity t (stored rd' r1) s1)
     | Pending \<Rightarrow> Some (None, stored rd' r1, s1))"
    unfolding transfer_branch_def rd if_not_P [OF enabled]
    by (simp add: p stored_def Let_def split: poll.split)
  from assms(1) p show ?thesis
  proof (cases rule: poll_transfers_cases)
    case pending
    with assms(2,3) stored_rd show ?thesis by (auto simp: eq)
  next
    case (error e)
    with assms(2) core_stored show ?thesis by (auto simp: eq handle_transfer_def)
  next
    case (got buf bs)
    with rd_Some obtain len where len: "capacity = Some len" "buf = take len (read_buffer r)" by blast
    define b where "b = fill bs buf @ drop len (read_buffer r)"
    obtain tp where r1: "stored rd' r1 = r\<lparr>transfers := tp, read_buffer := b\<rparr>"
      using got len by (auto simp: stored_def b_def)
    have b: "length b = length (read_buffer r)" "length bs \<le> len" "len \<le> length (read_buffer r)"
      using len got(4) assms(6) [OF len(1)] by (simp_all add: b_def length_fill)
    have "\<exists>out r' s'. handle_transfer io rt peer wr capacity (Inr (Tr_Read (length bs)))
        (r\<lparr>transfers := tp, read_buffer := b\<rparr>) s1 = Some (out, r', s') \<and> loop_inv out r'"
      using assms(2-5) b len(1)
      by (intro handle_transfer_inv [OF assms(1)] live_inv_buffer)
        (auto simp: read_ready_def live_inv_def)
    with got(1) r1 show ?thesis by (auto simp: eq)
  next
    case (wrote xs n)
    with stored_rd obtain tp where r1: "stored rd' r1 = r\<lparr>transfers := tp\<rparr>" by auto
    have "\<exists>out r' s'. handle_transfer io rt peer wr capacity (Inr (Tr_Write n))
        (r\<lparr>transfers := tp\<rparr>) s1 = Some (out, r', s') \<and> loop_inv out r'"
      using assms(2-5) wrote by (intro handle_transfer_inv [OF assms(1)]) auto
    with wrote(1) r1 show ?thesis by (auto simp: eq)
  qed
qed

lemma timer_branch_inv:
  "timer_branch rt peer draining s = (out, s') \<Longrightarrow> out = Next \<or> out = Select draining"
  by (auto simp: timer_branch_def Let_def split: prod.splits if_splits)

lemma select_inv:
  assumes "bounded_stream io" and "core_inv r" and "live_inv r"
  shows "\<exists>out r' s'. select io rt peer draining r s = Some (out, r', s') \<and> loop_inv out r'"
proof -
  obtain wr where wr: "pending_write r = Some wr" using pending_write_inv [OF assms(2)] by blast
  define capacity where "capacity = read_capacity r"
  define r1 where "r1 = (case capacity of None \<Rightarrow> r | Some len \<Rightarrow> grow_buffer len r)"
  have inv: "core_inv r1" "live_inv r1"
    using assms(2,3) read_capacity_bound [OF assms(3)]
    by (auto simp: r1_def capacity_def intro: live_inv_grow split: option.split)
  have same: "pending_write r1 = Some wr" "read_capacity r1 = capacity"
    using wr by (simp_all add: r1_def capacity_def split: option.split)
  have room: "len \<le> length (read_buffer r1)" if "capacity = Some len" for len
    using that by (simp add: r1_def)
  obtain changed e where n: "notified rt (outside (peer s)) = (changed, e)" by fastforce
  define s1 where "s1 = peer (peer s\<lparr>outside := e\<rparr>)"
  obtain m e2 where m: "recv rt (outside s1) = (m, e2)" by fastforce
  define s2 where "s2 = s1\<lparr>outside := e2\<rparr>"
  obtain out r2 s3 where tb: "transfer_branch io rt peer wr capacity r1 s2 = Some (out, r2, s3)"
    and out: "case out of None \<Rightarrow> core_inv r2 \<and> live_inv r2 | Some out \<Rightarrow> loop_inv out r2"
    using transfer_branch_inv [OF assms(1) inv same room, of rt peer s2] by blast
  obtain tout s4 where timer: "timer_branch rt peer draining s3 = (tout, s4)" by fastforce
  have "select io rt peer draining r s =
    (if changed then Some (Next, r1, peer s\<lparr>outside := e\<rparr>)
     else case m of
       Ready c \<Rightarrow> Some (handle_command rt peer c r1 s2)
     | Pending \<Rightarrow> (case out of Some out \<Rightarrow> Some (out, r2, s3) | None \<Rightarrow> Some (tout, r2, s4)))"
    unfolding select_def wr option.simps Let_def capacity_def [symmetric] r1_def [symmetric]
    using n m tb timer by (simp add: s1_def [symmetric] s2_def [symmetric] split: poll.split option.split)
  moreover have "\<exists>o' r' s'. handle_command rt peer c r1 s2 = (o', r', s') \<and> loop_inv o' r'" for c
    using handle_command_inv [OF _ inv] by (metis prod_cases3)
  ultimately show ?thesis
    using inv out timer_branch_inv [OF timer]
    by (cases changed; cases m; cases out) auto
qed

subsection \<open>The ordered queue\<close>

text \<open>The event a completion publishes answers its command.\<close>

definition answers :: "native_event \<Rightarrow> command \<Rightarrow> bool" where
  "answers ev c \<longleftrightarrow> ev_id ev = cmd_id c \<and> ev_kind ev \<in> {''ok'', ''error''} \<and> ev_data ev = None"

lemma answers_new [simp]:
  "answers (native_event_new (cmd_id c) ''ok'') c" "answers (native_event_error (cmd_id c) e) c"
  by (simp_all add: answers_def)

lemma control_operation_answers:
  "control_operation os io c p = (Inr ev, p') \<Longrightarrow> answers ev c"
  by (auto simp: control_operation_def Let_def answers_def
      split: operation.splits prod.splits sum.splits)

lemma with_port_control_answers:
  "with_port peer (control_operation os io c) s = (Inr ev, s') \<Longrightarrow> answers ev c"
  by (auto simp: with_port_def Let_def split: sum.splits prod.splits
      dest: control_operation_answers)

lemma complete_front_spec:
  assumes "complete_front os io rt peer c r s = (f, r', s')" and "ordered c"
    and "written r \<le> length (payload c)"
  shows "(case f of
      Front_Done ev \<Rightarrow> r' = r\<lparr>written := 0\<rparr> \<and> answers ev c \<and> written r = length (payload c)
    | _ \<Rightarrow> r' = r)"
proof (cases "operation c")
  case (Op_Write data)
  with assms show ?thesis by (auto simp: complete_front_def split: if_splits)
next
  case Op_Drain
  with assms have "r\<lparr>written := 0\<rparr> = r" by simp
  with Op_Drain assms show ?thesis
    by (auto simp: complete_front_def split: prod.splits sum.splits if_splits)
qed (use assms in \<open>auto simp: complete_front_def ordered_def split: prod.splits sum.splits
       dest: with_port_control_answers\<close>)

lemma core_inv_complete:
  assumes "core_inv (r\<lparr>commands := c # cs\<rparr>)" and "live_inv r" and "answers ev c"
    and "written r = length (payload c)"
  shows "core_inv (note_obs (Obs_Send (Event ev) ok)
           (note_obs (Obs_Done c ev) (r\<lparr>commands := cs, written := 0\<rparr>)))"
proof -
  have "done_ok (log r @ [Obs_Done c ev, Obs_Send (Event ev) ok])"
    using assms by (intro done_ok_complete) (auto simp: core_inv_def answers_def)
  moreover have "ev_kind ev \<noteq> ''close''" using assms(3) by (auto simp: answers_def)
  ultimately show ?thesis
    using assms by (simp add: core_inv_def live_inv_def answers_def all_accepted_butlast butlast_append)
qed

lemma live_inv_complete:
  "live_inv r \<Longrightarrow> live_inv (note_obs (Obs_Send (Event ev) True)
           (note_obs (Obs_Done c ev) (r\<lparr>commands := cs, written := n\<rparr>)))"
  by (simp add: live_inv_def)

lemma live_inv_commands [simp]: "live_inv (r\<lparr>commands := cs\<rparr>) = live_inv r"
  by (simp add: live_inv_def)

text \<open>The three ways the loop over the queue treats its front command.\<close>

lemma drain_commands_step:
  assumes "drain_commands os io rt peer (c # cs) r s = (res, r', s')"
    and core: "core_inv (r\<lparr>commands := c # cs\<rparr>)" and live: "live_inv r"
  obtains
    (stopped) "load_stop peer s = (True, s')" "res = Inl (Inr ())" "r' = r\<lparr>commands := c # cs\<rparr>"
  | (waiting) f s1 where "load_stop peer s = (False, s1)"
      "complete_front os io rt peer c (r\<lparr>commands := c # cs\<rparr>) s1 = (f, r', s')"
      "r' = r\<lparr>commands := c # cs\<rparr>" "\<forall>ev. f \<noteq> Front_Done ev" "f = Front_Blocked \<longrightarrow> res = Inr False"
  | (completed) s1 ev s2 ok r3 s3 where "load_stop peer s = (False, s1)"
      "complete_front os io rt peer c (r\<lparr>commands := c # cs\<rparr>) s1
         = (Front_Done ev, r\<lparr>commands := c # cs, written := 0\<rparr>, s2)"
      "answers ev c" "written r = length (payload c)"
      "send rt peer ev (note_obs (Obs_Done c ev) (r\<lparr>commands := cs, written := 0\<rparr>))
         (fetch_sub_pending peer s2) = (ok, r3, s3)"
      "r3 = note_obs (Obs_Send (Event ev) ok) (note_obs (Obs_Done c ev) (r\<lparr>commands := cs, written := 0\<rparr>))"
      "core_inv r3" "r3\<lparr>commands := cs\<rparr> = r3" "ok \<longrightarrow> live_inv r3"
      "if ok then drain_commands os io rt peer cs r3 s3 = (res, r', s')
       else res = Inl (Inr ()) \<and> r' = r3 \<and> s' = s3"
proof -
  define q where "q = r\<lparr>commands := c # cs\<rparr>"
  obtain b s1 where stop: "load_stop peer s = (b, s1)" by fastforce
  obtain f r1 s2 where front: "complete_front os io rt peer c q s1 = (f, r1, s2)"
    by (metis prod_cases3)
  have "ordered c" "written q \<le> length (payload c)" using core by (simp_all add: core_inv_def q_def)
  note spec = complete_front_spec [OF front this]
  note unfold = assms(1) [unfolded drain_commands.simps Let_def q_def [symmetric] stop, simplified,
      unfolded front, simplified]
  show thesis
  proof (cases "b \<or> (\<forall>ev. f \<noteq> Front_Done ev)")
    case True
    show thesis
    proof (cases b)
      case True
      with unfold stop stopped show thesis by (simp add: q_def)
    next
      case False
      with True unfold spec have "r' = q" "s' = s2" "\<forall>ev. f \<noteq> Front_Done ev"
        "f = Front_Blocked \<longrightarrow> res = Inr False"
        by (cases f; simp)+
      with False stop front spec waiting [of s1 f] True show thesis by (cases f) (simp_all add: q_def)
    qed
  next
    case False
    then obtain ev where f: "\<not> b" "f = Front_Done ev" by blast
    with spec have r1: "r1 = q\<lparr>written := 0\<rparr>" "answers ev c" "written q = length (payload c)" by simp_all
    have swap: "q\<lparr>written := 0, commands := cs\<rparr> = q\<lparr>commands := cs, written := 0\<rparr>" by (cases q) simp
    obtain ok r3 s3 where sent: "send rt peer ev
        (note_obs (Obs_Done c ev) (q\<lparr>commands := cs, written := 0\<rparr>)) (fetch_sub_pending peer s2) = (ok, r3, s3)"
      by (metis prod_cases3)
    have r3: "r3 = note_obs (Obs_Send (Event ev) ok)
        (note_obs (Obs_Done c ev) (q\<lparr>commands := cs, written := 0\<rparr>))"
      using send_log [OF sent] .
    have "core_inv r3"
      unfolding r3 using core live r1 by (intro core_inv_complete) (simp_all add: q_def)
    moreover have "live_inv r3" if ok using r3 that live_inv_complete [of q] live by (simp add: q_def)
    moreover have "r3\<lparr>commands := cs\<rparr> = r3" by (simp add: r3)
    moreover have "if ok then drain_commands os io rt peer cs r3 s3 = (res, r', s')
        else res = Inl (Inr ()) \<and> r' = r3 \<and> s' = s3"
      using unfold f sent r1(1) swap by (auto split: if_splits)
    ultimately show thesis
      using completed [of s1 ev s2 ok r3 s3] stop front f r1 sent r3 by (simp add: q_def)
  qed
qed

lemma drain_commands_inv:
  assumes "drain_commands os io rt peer cs r s = (res, r', s')"
    and "core_inv (r\<lparr>commands := cs\<rparr>)" and "live_inv r"
  shows "core_inv r' \<and> (\<forall>d. res = Inr d \<longrightarrow> live_inv r')"
  using assms
proof (induction cs arbitrary: r s)
  case Nil
  then show ?case by auto
next
  case (Cons c cs)
  from Cons.prems show ?case
  proof (cases rule: drain_commands_step)
    case (completed s1 ev s2 ok r3 s3)
    from completed(7-10) Cons.IH [of r3 s3] show ?thesis by (cases ok) auto
  qed (use Cons.prems in auto)
qed

subsection \<open>The loop\<close>

lemma turn_inv:
  assumes "bounded_stream io" and "loop_inv ph r"
  shows "\<exists>out r' s'. turn os io rt peer ph r s = Some (out, r', s') \<and> loop_inv out r'"
proof (cases ph)
  case Next
  obtain stopped s1 where stop: "load_stop peer s = (stopped, s1)" by fastforce
  obtain res r1 s2 where d: "drain_commands os io rt peer (commands r) r s1 = (res, r1, s2)"
    by (metis prod_cases3)
  have inv: "core_inv r" "live_inv r" using assms(2) Next by simp_all
  have "core_inv r1 \<and> (\<forall>b. res = Inr b \<longrightarrow> live_inv r1)"
    using drain_commands_inv [OF d] inv by simp
  with inv select_inv [OF assms(1), of r1 rt peer _ s2] Next stop d show ?thesis
    by (cases stopped; cases res) (simp_all add: turn_def)
next
  case (Select d)
  with assms select_inv [OF assms(1), of r rt peer d s] show ?thesis by (simp add: turn_def)
next
  case (Finished res)
  with assms show ?thesis by (simp add: turn_def)
qed

lemma run_open_inv:
  assumes "bounded_stream io" and "loop_inv ph r"
  shows "\<exists>out r' s'. run_open os io rt peer n ph r s = Some (out, r', s') \<and> loop_inv out r'"
  using assms(2)
proof (induction n arbitrary: ph r s)
  case 0
  then show ?case by simp
next
  case (Suc n)
  obtain out r' s' where "turn os io rt peer ph r s = Some (out, r', s')" "loop_inv out r'"
    using turn_inv [OF assms(1) Suc.prems] by blast
  with Suc.IH [of out r' s'] show ?case by (cases out) simp_all
qed

end
