(* ===== verification/Unix_Stream.thy ===== *)
theory Unix_Stream
  imports Settings "HOL-Library.Multiset"
begin

text \<open>
  \<open>src/src/platform/unix.rs\<close>: the serial stream of Unix systems over a registered
  nonblocking descriptor. The kernel and tokio's \<open>AsyncFd\<close> are a parameter \<open>tty_fd\<close>;
  what the code relies on of them is the locale \<open>async_fd\<close>. Under it the retry loops end and
  the stream keeps the contract \<open>duplex\<close> its clients rely on.
\<close>

subsection \<open>The descriptor\<close>

text \<open>
  \<open>guarded_read\<close> is \<open>ready.try_io(|io| unistd::read(io, ..))\<close>: \<open>None\<close> when the
  call would block, which clears the cached readiness. \<open>fd_tcdrain\<close> fails with an error
  number.
\<close>

record 'p tty_fd =
  poll_read_ready :: "'p \<Rightarrow> unit io_result poll \<times> 'p"
  guarded_read :: "nat \<Rightarrow> 'p \<Rightarrow> bytes io_result option \<times> 'p"
  poll_write_ready :: "'p \<Rightarrow> unit io_result poll \<times> 'p"
  guarded_write :: "bytes \<Rightarrow> 'p \<Rightarrow> nat io_result option \<times> 'p"
  fd_try_read :: "nat \<Rightarrow> 'p \<Rightarrow> bytes io_result \<times> 'p"
  fd_write :: "bytes \<Rightarrow> 'p \<Rightarrow> nat io_result \<times> 'p"
  fd_tcdrain :: "'p \<Rightarrow> (int + unit) \<times> 'p"
  errno_error :: "int \<Rightarrow> io_error"
  tty_port :: "'p serial_port"

definition EINTR :: int where "EINTR = 4"

subsection \<open>The stream\<close>

partial_function (option) unix_drain_output ::
  "('p, 'z) tty_fd_scheme \<Rightarrow> 'p \<Rightarrow> (unit io_result \<times> 'p) option" where
  "unix_drain_output fd p =
     (case fd_tcdrain fd p of
        (Inl e, p') \<Rightarrow>
          if e = EINTR then unix_drain_output fd p' else Some (Inl (errno_error fd e), p')
      | (Inr _, p') \<Rightarrow> Some (Inr (), p'))"

partial_function (option) read_ready_loop ::
  "('p, 'z) tty_fd_scheme \<Rightarrow> nat \<Rightarrow> 'p \<Rightarrow> (bytes io_result poll \<times> 'p) option" where
  "read_ready_loop fd n p =
     (case poll_read_ready fd p of
        (Pending, p') \<Rightarrow> Some (Pending, p')
      | (Ready (Inl e), p') \<Rightarrow> Some (Ready (Inl e), p')
      | (Ready (Inr _), p') \<Rightarrow>
          (case guarded_read fd n p' of
             (Some result, q) \<Rightarrow> Some (Ready result, q)
           | (None, q) \<Rightarrow> read_ready_loop fd n q))"

definition unix_poll_read ::
  "('p, 'z) tty_fd_scheme \<Rightarrow> nat \<Rightarrow> 'p \<Rightarrow> (bytes io_result poll \<times> 'p) option" where
  "unix_poll_read fd remaining p =
     (if remaining = 0 then Some (Ready (Inr []), p) else read_ready_loop fd remaining p)"

partial_function (option) write_ready_loop ::
  "('p, 'z) tty_fd_scheme \<Rightarrow> bytes \<Rightarrow> 'p \<Rightarrow> (nat io_result poll \<times> 'p) option" where
  "write_ready_loop fd xs p =
     (case poll_write_ready fd p of
        (Pending, p') \<Rightarrow> Some (Pending, p')
      | (Ready (Inl e), p') \<Rightarrow> Some (Ready (Inl e), p')
      | (Ready (Inr _), p') \<Rightarrow>
          (case guarded_write fd xs p' of
             (Some result, q) \<Rightarrow> Some (Ready result, q)
           | (None, q) \<Rightarrow> write_ready_loop fd xs q))"

definition unix_poll_write ::
  "('p, 'z) tty_fd_scheme \<Rightarrow> bytes \<Rightarrow> 'p \<Rightarrow> (nat io_result poll \<times> 'p) option" where
  "unix_poll_write fd xs p = (if xs = [] then Some (Ready (Inr 0), p) else write_ready_loop fd xs p)"

declare unix_drain_output.simps [code] and read_ready_loop.simps [code] and write_ready_loop.simps [code]

definition unix_try_read :: "('p, 'z) tty_fd_scheme \<Rightarrow> nat \<Rightarrow> 'p \<Rightarrow> bytes io_result \<times> 'p" where
  "unix_try_read fd n p = fd_try_read fd n p"

definition unix_try_write :: "('p, 'z) tty_fd_scheme \<Rightarrow> bytes \<Rightarrow> 'p \<Rightarrow> nat io_result \<times> 'p" where
  "unix_try_write fd xs p = fd_write fd xs p"

text \<open>
  The stream as its clients see it. The loops are total wherever \<open>async_fd\<close> holds
  (\<open>async_fd.read_returns\<close> and its companions), which is where \<open>the\<close> is used.
\<close>

definition unix_stream :: "('p, 'z) tty_fd_scheme \<Rightarrow> 'p serial_stream" where
  "unix_stream fd =
     \<lparr>poll_read_io = (\<lambda>n p. the (unix_poll_read fd n p)),
      poll_write_io = (\<lambda>xs p. the (unix_poll_write fd xs p)),
      try_read = unix_try_read fd, try_write = unix_try_write fd,
      drain_output = (\<lambda>p. the (unix_drain_output fd p)), control_port = tty_port fd\<rparr>"

lemma unix_stream_sel [simp]:
  "poll_read_io (unix_stream fd) n p = the (unix_poll_read fd n p)"
  "poll_write_io (unix_stream fd) xs p = the (unix_poll_write fd xs p)"
  "try_read (unix_stream fd) n p = fd_try_read fd n p"
  "try_write (unix_stream fd) xs p = fd_write fd xs p"
  "drain_output (unix_stream fd) p = the (unix_drain_output fd p)"
  "control_port (unix_stream fd) = tty_port fd"
  by (simp_all add: unix_stream_def unix_try_read_def unix_try_write_def)

subsection \<open>What the descriptor promises\<close>

text \<open>
  A call never transfers more than its buffer holds. A refused attempt clears the readiness, so
  another round of the loop needs another readiness event: \<open>read_events\<close> and
  \<open>write_events\<close> bound how many are outstanding, \<open>signals\<close> how many signals interrupt
  a drain.
\<close>

locale async_fd =
  fixes fd :: "('p, 'z) tty_fd_scheme"
    and read_events :: "'p \<Rightarrow> nat" and write_events :: "'p \<Rightarrow> nat" and signals :: "'p \<Rightarrow> nat"
  assumes read_progress:
      "poll_read_ready fd p = (Ready (Inr u), q) \<Longrightarrow> guarded_read fd n q = (None, p') \<Longrightarrow>
         read_events p' < read_events p"
    and write_progress:
      "poll_write_ready fd p = (Ready (Inr u), q) \<Longrightarrow> guarded_write fd xs q = (None, p') \<Longrightarrow>
         write_events p' < write_events p"
    and drain_progress: "fd_tcdrain fd p = (Inl EINTR, p') \<Longrightarrow> signals p' < signals p"
    and read_bounded: "guarded_read fd n p = (Some (Inr bs), p') \<Longrightarrow> length bs \<le> n"
    and write_bounded: "guarded_write fd xs p = (Some (Inr k), p') \<Longrightarrow> k \<le> length xs"
    and try_read_bounded: "fd_try_read fd n p = (Inr bs, p') \<Longrightarrow> length bs \<le> n"
    and try_write_bounded: "fd_write fd xs p = (Inr k, p') \<Longrightarrow> k \<le> length xs"
begin

lemma read_returns:
  "\<exists>r p'. read_ready_loop fd n p = Some (r, p') \<and> (\<forall>bs. r = Ready (Inr bs) \<longrightarrow> length bs \<le> n)"
proof (induction p rule: measure_induct_rule [of read_events])
  case (less p)
  obtain r q where r: "poll_read_ready fd p = (r, q)" by fastforce
  show ?case
  proof (cases "\<exists>u. r = Ready (Inr u)")
    case True
    then obtain u where u: "r = Ready (Inr u)" ..
    obtain g p1 where g: "guarded_read fd n q = (g, p1)" by fastforce
    show ?thesis
    proof (cases g)
      case None
      with r u g read_progress have "read_events p1 < read_events p" by blast
      from less.IH [OF this] r u g None show ?thesis
        by (subst read_ready_loop.simps) simp
    next
      case (Some res)
      with r u g read_bounded [of n q] show ?thesis
        by (subst read_ready_loop.simps) auto
    qed
  next
    case False
    with r show ?thesis
      by (subst read_ready_loop.simps) (auto split: poll.splits sum.splits)
  qed
qed

lemma write_returns:
  "\<exists>r p'. write_ready_loop fd xs p = Some (r, p') \<and> (\<forall>k. r = Ready (Inr k) \<longrightarrow> k \<le> length xs)"
proof (induction p rule: measure_induct_rule [of write_events])
  case (less p)
  obtain r q where r: "poll_write_ready fd p = (r, q)" by fastforce
  show ?case
  proof (cases "\<exists>u. r = Ready (Inr u)")
    case True
    then obtain u where u: "r = Ready (Inr u)" ..
    obtain g p1 where g: "guarded_write fd xs q = (g, p1)" by fastforce
    show ?thesis
    proof (cases g)
      case None
      with r u g write_progress have "write_events p1 < write_events p" by blast
      from less.IH [OF this] r u g None show ?thesis
        by (subst write_ready_loop.simps) simp
    next
      case (Some res)
      with r u g write_bounded [of xs q] show ?thesis
        by (subst write_ready_loop.simps) auto
    qed
  next
    case False
    with r show ?thesis
      by (subst write_ready_loop.simps) (auto split: poll.splits sum.splits)
  qed
qed

lemma drain_returns:
  "\<exists>r p'. unix_drain_output fd p = Some (r, p') \<and> (\<forall>e. r = Inl e \<longrightarrow> (\<exists>n. n \<noteq> EINTR \<and> e = errno_error fd n))"
proof (induction p rule: measure_induct_rule [of signals])
  case (less p)
  obtain r q where r: "fd_tcdrain fd p = (r, q)" by fastforce
  show ?case
  proof (cases "r = Inl EINTR")
    case True
    with r drain_progress have "signals q < signals p" by blast
    from less.IH [OF this] r True show ?thesis
      by (subst unix_drain_output.simps) simp
  next
    case False
    with r show ?thesis
      by (subst unix_drain_output.simps) (auto split: sum.splits)
  qed
qed

end

sublocale async_fd < unix: duplex "unix_stream fd"
proof
  fix n p bs p' assume "poll_read_io (unix_stream fd) n p = (Ready (Inr bs), p')"
  then show "length bs \<le> n"
    using read_returns [of n p] by (auto simp: unix_poll_read_def split: if_splits)
next
  fix xs p k p' assume "poll_write_io (unix_stream fd) xs p = (Ready (Inr k), p')"
  then show "k \<le> length xs"
    using write_returns [of xs p] by (auto simp: unix_poll_write_def split: if_splits)
qed

context async_fd begin

lemma unix_bounded_stream: "bounded_stream (unix_stream fd)"
  using unix.duplex_bounded_io
  by (auto simp: bounded_stream_def dest: try_read_bounded try_write_bounded)

end

subsection \<open>Opening\<close>

text \<open>
  The calls \<open>SerialStream::open\<close> makes; \<open>close_tty\<close> is the drop of the port, which
  closes its descriptor on every early return.
\<close>

record ('p, 'w) unix_calls =
  tty_open :: "builder \<Rightarrow> 'w \<Rightarrow> (sp_error + 'p) \<times> 'w"
  get_flags :: "'p \<Rightarrow> 'w \<Rightarrow> (io_error + u32) \<times> 'w"
  set_flags :: "u32 \<Rightarrow> 'p \<Rightarrow> 'w \<Rightarrow> (io_error + unit) \<times> 'w"
  register_fd :: "'p \<Rightarrow> 'w \<Rightarrow> (io_error + unit) \<times> 'w"
  close_tty :: "'p \<Rightarrow> 'w \<Rightarrow> 'w"
  sp_from_io :: "io_error \<Rightarrow> sp_error"
  O_NONBLOCK :: u32

definition unix_open :: "('p, 'w) unix_calls \<Rightarrow> builder \<Rightarrow> 'w \<Rightarrow> (sp_error + 'p) \<times> 'w" where
  "unix_open calls b w =
     (case tty_open calls b w of
        (Inl e, w) \<Rightarrow> (Inl e, w)
      | (Inr port, w) \<Rightarrow>
          (case get_flags calls port w of
             (Inl e, w) \<Rightarrow> (Inl (sp_from_io calls e), close_tty calls port w)
           | (Inr flags, w) \<Rightarrow>
               (case set_flags calls (flags OR O_NONBLOCK calls) port w of
                  (Inl e, w) \<Rightarrow> (Inl (sp_from_io calls e), close_tty calls port w)
                | (Inr _, w) \<Rightarrow>
                    (case register_fd calls port w of
                       (Inl e, w) \<Rightarrow> (Inl (sp_from_io calls e), close_tty calls port w)
                     | (Inr _, w) \<Rightarrow> (Inr port, w)))))"

subsection \<open>A terminal\<close>

text \<open>
  A terminal for the concrete instances: chunks that have arrived, the bytes it has sent, the
  space left in its output buffer, readiness events that turn out stale, and signals that will
  interrupt a drain.
\<close>

record tty =
  arrived :: "bytes list"
  line :: bytes
  space :: nat
  stale :: nat
  interrupts :: nat
  speed :: u32
  attributes :: termios
  control_block :: dcb
  broken :: bool

definition block_error :: io_error where
  "block_error = io_error_new WouldBlock ''would block''"

definition tty_read :: "nat \<Rightarrow> tty \<Rightarrow> bytes io_result option \<times> tty" where
  "tty_read n p =
     (case arrived p of
        [] \<Rightarrow> (None, p\<lparr>stale := stale p - 1\<rparr>)
      | c # cs \<Rightarrow>
          (Some (Inr (take n c)), p\<lparr>arrived := (if length c \<le> n then cs else drop n c # cs)\<rparr>))"

definition tty_write :: "bytes \<Rightarrow> tty \<Rightarrow> nat io_result option \<times> tty" where
  "tty_write xs p =
     (if broken p then (Some (Inl (io_error_new BrokenPipe ''EIO'')), p)
      else if space p = 0 then (None, p\<lparr>stale := stale p - 1\<rparr>)
      else let k = min (length xs) (space p)
           in (Some (Inr k), p\<lparr>line := line p @ take k xs, space := space p - k\<rparr>))"

definition tty_fd :: "tty tty_fd" where
  "tty_fd =
     \<lparr>poll_read_ready = (\<lambda>p. if arrived p = [] \<and> stale p = 0 then (Pending, p) else (Ready (Inr ()), p)),
      guarded_read = tty_read,
      poll_write_ready = (\<lambda>p. if space p = 0 \<and> stale p = 0 \<and> \<not> broken p then (Pending, p)
                             else (Ready (Inr ()), p)),
      guarded_write = tty_write,
      fd_try_read = (\<lambda>n p. case tty_read n p of (None, q) \<Rightarrow> (Inl block_error, q) | (Some r, q) \<Rightarrow> (r, q)),
      fd_write = (\<lambda>xs p. case tty_write xs p of (None, q) \<Rightarrow> (Inl block_error, q) | (Some r, q) \<Rightarrow> (r, q)),
      fd_tcdrain = (\<lambda>p. if interrupts p = 0 then (Inr (), p)
                        else (Inl EINTR, p\<lparr>interrupts := interrupts p - 1\<rparr>)),
      errno_error = (\<lambda>n. io_error_new Other ''errno''),
      tty_port =
        \<lparr>bytes_to_write = (\<lambda>p. (Inr 0, p)),
         ctl_set_baud_rate = (\<lambda>n p. (Inr (), p\<lparr>speed := n\<rparr>)),
         ctl_baud_rate = (\<lambda>p. (Inr (speed p), p)),
         write_data_terminal_ready = (\<lambda>b p. (Inr (), p)),
         write_request_to_send = (\<lambda>b p. (Inr (), p)),
         set_break = (\<lambda>p. (Inr (), p)), clear_break = (\<lambda>p. (Inr (), p)),
         read_clear_to_send = (\<lambda>p. (Inr True, p)), read_data_set_ready = (\<lambda>p. (Inr True, p)),
         read_carrier_detect = (\<lambda>p. (Inr False, p)),
         clear_all = (\<lambda>p. (Inr (), p\<lparr>arrived := []\<rparr>)),
         tcgetattr = (\<lambda>p. (Inr (attributes p), p)),
         tcsetattr = (\<lambda>t p. (Inr (), p\<lparr>attributes := t\<rparr>)),
         cfsetspeed = (\<lambda>n t. Inr (t\<lparr>line_speed := n\<rparr>)), cfgetospeed = line_speed,
         get_comm_state = (\<lambda>p. (Inr (control_block p), p)),
         set_comm_state = (\<lambda>d p. (Inr (), p\<lparr>control_block := d\<rparr>))\<rparr>\<rparr>"

definition tty_new :: tty where
  "tty_new =
     \<lparr>arrived = [], line = [], space = 4096, stale = 0, interrupts = 0, speed = 9600,
      attributes = \<lparr>input_flags = {}, control_flags = {}, line_speed = 9600\<rparr>,
      control_block = \<lparr>dcb_baud_rate = 9600, dcb_byte_size = 8, dcb_parity = 0, dcb_stop_bits = 0,
                       dcb_bitfield = 0\<rparr>, broken = False\<rparr>"

interpretation tty: async_fd tty_fd stale stale interrupts
  by unfold_locales
    (auto simp: tty_fd_def tty_read_def tty_write_def Let_def split: list.splits if_splits option.splits
      prod.splits)

lemma tty_bounded: "bounded_stream (unix_stream tty_fd)"
  by (rule tty.unix_bounded_stream)

lemma tty_poll_read:
  "0 < n \<Longrightarrow> arrived p = c # cs \<Longrightarrow> unix_poll_read tty_fd n p =
     Some (Ready (Inr (take n c)), p\<lparr>arrived := (if length c \<le> n then cs else drop n c # cs)\<rparr>)"
  "0 < n \<Longrightarrow> arrived p = [] \<Longrightarrow> stale p = 0 \<Longrightarrow> unix_poll_read tty_fd n p = Some (Pending, p)"
  by (simp_all add: unix_poll_read_def read_ready_loop.simps tty_fd_def tty_read_def)

lemma tty_poll_write:
  "xs \<noteq> [] \<Longrightarrow> \<not> broken p \<Longrightarrow> 0 < space p \<Longrightarrow> unix_poll_write tty_fd xs p =
     Some (Ready (Inr (min (length xs) (space p))),
       p\<lparr>line := line p @ take (min (length xs) (space p)) xs,
          space := space p - min (length xs) (space p)\<rparr>)"
  by (simp add: unix_poll_write_def write_ready_loop.simps tty_fd_def tty_write_def Let_def)

lemma tty_try_write:
  "fd_write tty_fd xs p =
     (if broken p then (Inl (io_error_new BrokenPipe ''EIO''), p)
      else if space p = 0 then (Inl block_error, p\<lparr>stale := stale p - 1\<rparr>)
      else (Inr (min (length xs) (space p)),
            p\<lparr>line := line p @ take (min (length xs) (space p)) xs,
               space := space p - min (length xs) (space p)\<rparr>))"
  by (simp add: tty_fd_def tty_write_def Let_def)

subsection \<open>Properties\<close>

text \<open>What the opening code relies on: which calls open and close descriptors.\<close>

locale descriptor_table =
  fixes calls :: "('p, 'w) unix_calls" and opened :: "'w \<Rightarrow> 'p multiset"
  assumes open_Inr: "tty_open calls b w = (Inr port, w') \<Longrightarrow> opened w' = add_mset port (opened w)"
    and open_Inl: "tty_open calls b w = (Inl e, w') \<Longrightarrow> opened w' = opened w"
    and get_opened: "get_flags calls port w = (f, w') \<Longrightarrow> opened w' = opened w"
    and set_opened: "set_flags calls n port w = (u, w') \<Longrightarrow> opened w' = opened w"
    and register_opened: "register_fd calls port w = (v, w') \<Longrightarrow> opened w' = opened w"
    and close_opened: "opened (close_tty calls port w) = opened w - {#port#}"
begin

lemma open_balance:
  assumes "unix_open calls b w = (r, w')"
  shows "opened w' = (case r of Inl _ \<Rightarrow> opened w | Inr port \<Rightarrow> add_mset port (opened w))"
  using assms
  by (auto simp: unix_open_def close_opened split: prod.splits sum.splits
      dest!: open_Inr open_Inl get_opened set_opened register_opened)

end

text \<open>A table of the ports opened so far whose registration can be refused, with the flags set.\<close>

definition table_calls :: "bool \<Rightarrow> (tty, tty list \<times> u32) unix_calls" where
  "table_calls refuse =
     \<lparr>tty_open = (\<lambda>b (ps, f). (Inr tty_new, (tty_new # ps, f))),
      get_flags = (\<lambda>p (ps, f). (Inr f, (ps, f))),
      set_flags = (\<lambda>n p (ps, f). (Inr (), (ps, n))),
      register_fd = (\<lambda>p w. (if refuse then Inl (io_error_other ''register'') else Inr (), w)),
      close_tty = (\<lambda>p (ps, f). (remove1 p ps, f)),
      sp_from_io = (\<lambda>e. \<lparr>description = to_string e, into_io = e\<rparr>),
      O_NONBLOCK = 0x800\<rparr>"

definition plain_builder :: builder where
  "plain_builder =
     \<lparr>b_path = ''/dev/ttyS0'', b_baud_rate = 9600, b_data_bits = Eight, b_stop_bits = One,
      b_parity = Parity_None, b_flow = Flow_None, b_exclusive = Some True\<rparr>"

interpretation tty_table: descriptor_table "table_calls refuse" "\<lambda>(ps, f). mset ps" for refuse
  by unfold_locales (auto simp: table_calls_def split: if_splits)

text \<open>
  C37: opening never leaks a descriptor: when any of its steps fails, as many descriptors are open
  as before, and when it succeeds exactly the returned port is added.
\<close>

theorem unix_open_no_leak:
  assumes "descriptor_table calls opened" and "unix_open calls b w = (r, w')"
  shows "opened w' = (case r of Inl _ \<Rightarrow> opened w | Inr port \<Rightarrow> add_mset port (opened w))"
  using assms(1,2) by (rule descriptor_table.open_balance)

theorem unix_open_no_leak_witness:
  "(case unix_open (table_calls True) plain_builder ([tty_new], 2) of
      (r, w) \<Rightarrow> (\<exists>e. r = Inl e) \<and> mset (fst w) = {#tty_new#}) \<and>
   (case unix_open (table_calls False) plain_builder ([tty_new], 2) of
      (r, w) \<Rightarrow> r = Inr tty_new \<and> snd w = 0x802 \<and> mset (fst w) = {#tty_new, tty_new#})"
proof -
  obtain r w where f: "unix_open (table_calls True) plain_builder ([tty_new], 2) = (r, w)" by (metis prod.exhaust)
  obtain r' w' where s: "unix_open (table_calls False) plain_builder ([tty_new], 2) = (r', w')" by (metis prod.exhaust)
  have "\<exists>e. r = Inl e" "r' = Inr tty_new" "snd w' = 0x802"
    using f s by (auto simp: unix_open_def table_calls_def)
  with f s unix_open_no_leak [OF tty_table.descriptor_table_axioms f]
    unix_open_no_leak [OF tty_table.descriptor_table_axioms s]
  show ?thesis by (auto split: prod.splits)
qed

text \<open>
  C39: a physical drain survives any number of signals: it retries exactly the interrupted calls
  and returns the first other result, so an interruption is never reported as a failed drain.
\<close>

theorem unix_drain_retries:
  assumes "\<forall>i < k. fd_tcdrain fd (ps i) = (Inl EINTR, ps (Suc i))"
    and "fd_tcdrain fd (ps k) = (r, q)" and "r \<noteq> Inl EINTR"
  shows "unix_drain_output fd (ps 0) = Some (map_sum (errno_error fd) (\<lambda>u. u) r, q)"
  using assms
proof (induction k arbitrary: ps)
  case 0
  then show ?case
    by (subst unix_drain_output.simps) (auto split: sum.splits)
next
  case (Suc k)
  have "unix_drain_output fd (ps (Suc 0)) = Some (map_sum (errno_error fd) (\<lambda>u. u) r, q)"
    using Suc.prems by (intro Suc.IH [of "\<lambda>i. ps (Suc i)"]) auto
  with Suc.prems(1) show ?case
    by (subst unix_drain_output.simps) simp
qed

theorem unix_drain_retries_witness:
  "unix_drain_output tty_fd (tty_new\<lparr>interrupts := 2\<rparr>) = Some (Inr (), tty_new)"
proof -
  have drain: "fd_tcdrain tty_fd p = (if interrupts p = 0 then (Inr (), p)
      else (Inl EINTR, p\<lparr>interrupts := interrupts p - 1\<rparr>))" for p
    by (simp add: tty_fd_def)
  have new: "tty_new\<lparr>interrupts := 0\<rparr> = tty_new" "interrupts tty_new = 0"
    by (simp_all add: tty_new_def)
  show ?thesis
    using unix_drain_retries [of 2 tty_fd "\<lambda>i. tty_new\<lparr>interrupts := 2 - i\<rparr>" "Inr ()" tty_new]
    by (auto simp: drain new less_2_cases_iff)
qed

text \<open>
  C38: a poll of the stream always returns, however many stale readiness events it meets, and
  transfers no more than its buffer holds; an empty buffer or slice does not touch the device.
\<close>

theorem unix_poll_returns:
  assumes "async_fd fd read_events write_events signals"
  shows "(\<exists>r q. unix_poll_read fd n p = Some (r, q)
            \<and> (\<forall>bs. r = Ready (Inr bs) \<longrightarrow> length bs \<le> n) \<and> (n = 0 \<longrightarrow> q = p)) \<and>
         (\<exists>r q. unix_poll_write fd xs p = Some (r, q)
            \<and> (\<forall>k. r = Ready (Inr k) \<longrightarrow> k \<le> length xs) \<and> (xs = [] \<longrightarrow> q = p))"
proof
  show "\<exists>r q. unix_poll_read fd n p = Some (r, q)
            \<and> (\<forall>bs. r = Ready (Inr bs) \<longrightarrow> length bs \<le> n) \<and> (n = 0 \<longrightarrow> q = p)"
    using async_fd.read_returns [OF assms, of n p] by (auto simp: unix_poll_read_def)
  show "\<exists>r q. unix_poll_write fd xs p = Some (r, q)
            \<and> (\<forall>k. r = Ready (Inr k) \<longrightarrow> k \<le> length xs) \<and> (xs = [] \<longrightarrow> q = p)"
    using async_fd.write_returns [OF assms, of xs p] by (auto simp: unix_poll_write_def)
qed

theorem unix_poll_returns_witness:
  "\<exists>r q. unix_poll_read tty_fd 4 (tty_new\<lparr>stale := 3\<rparr>) = Some (r, q)
      \<and> (\<forall>bs. r = Ready (Inr bs) \<longrightarrow> length bs \<le> 4)"
  using unix_poll_returns [OF tty.async_fd_axioms, of 4 "tty_new\<lparr>stale := 3\<rparr>"] by blast

end
