(* ===== verification/Native_Port.thy ===== *)
theory Native_Port
  imports Control
begin

text \<open>
  \<open>impl NativePort\<close> of \<open>src/src/lib.rs\<close>: the operations the JavaScript thread calls.
  A result \<open>Inl e\<close> is the Node-API error thrown into JavaScript; the outer option of the
  operations that slice buffers is \<open>None\<close> on a Rust panic.
\<close>

subsection \<open>Admission\<close>

definition enqueue ::
  "'e runtime \<Rightarrow> ('p, 'e) peer \<Rightarrow> command \<Rightarrow> ('p, 'e) control
     \<Rightarrow> (napi_error + unit) \<times> ('p, 'e) control" where
  "enqueue rt peer c s =
     (let (stopped, s) = load_stop peer s in
      if stopped then (Inl (from_reason ''Port is closed''), s)
      else
        let (admitted, s) =
          (if ordered c then
             let (pending, s) = fetch_add_pending peer s in
             if unat pending \<ge> MAX_PENDING_OPS then (False, fetch_sub_pending peer s) else (True, s)
           else (True, s)) in
        if \<not> admitted then (Inl (from_reason ''Too many pending serial operations''), s)
        else
          case send_command rt peer c s of
            (Inl m, s) \<Rightarrow>
              (Inl (from_reason m), if ordered c then fetch_sub_pending peer s else s)
          | (Inr _, s) \<Rightarrow> (Inr (), s))"

subsection \<open>Reads\<close>

definition native_read ::
  "'e runtime \<Rightarrow> ('p, 'e) peer \<Rightarrow> u32 \<Rightarrow> u32 \<Rightarrow> ('p, 'e) control
     \<Rightarrow> (napi_error + unit) \<times> ('p, 'e) control" where
  "native_read rt peer i len s =
     (if \<not> (len \<noteq> 0 \<and> unat len \<le> CHUNK_SIZE)
      then (Inl (napi_error_new Status_InvalidArg ''Invalid transfer size''), s)
      else enqueue rt peer \<lparr>cmd_id = i, operation = Op_Read (unat len)\<rparr> s)"

definition read_credit ::
  "'e runtime \<Rightarrow> ('p, 'e) peer \<Rightarrow> u32 \<Rightarrow> u32 \<Rightarrow> ('p, 'e) control
     \<Rightarrow> (napi_error + unit) \<times> ('p, 'e) control" where
  "read_credit rt peer bs events s =
     (if \<not> (bs \<noteq> 0 \<and> unat bs \<le> CHUNK_SIZE \<and> events \<noteq> 0 \<and> unat events \<le> READ_SLOTS)
      then (Inl (napi_error_new Status_InvalidArg ''Invalid read credit''), s)
      else enqueue rt peer
             \<lparr>cmd_id = 0, operation = Op_ReadCredit (unat bs) (unat events)\<rparr> s)"

subsection \<open>Writes\<close>

text \<open>
  The condition chain of the immediate write: the count, when every link of the chain held.
  \<open>try_lock\<close> fails while another thread holds the mutex and when it is poisoned.
\<close>

definition try_inline ::
  "('p, 'z) serial_stream_scheme \<Rightarrow> ('p, 'e) peer \<Rightarrow> bool \<Rightarrow> bytes \<Rightarrow> ('p, 'e) control
     \<Rightarrow> nat option \<times> ('p, 'e) control" where
  "try_inline io peer allow_inline data s =
     (if \<not> allow_inline then (None, s)
      else
        let (pending, s) = load_pending peer s in
        if pending \<noteq> 0 then (None, s)
        else
          let s = peer s in
          if held s \<or> poisoned s then (None, s)
          else
            case session s of
              None \<Rightarrow> (None, s)
            | Some port \<Rightarrow>
                (case try_write io data port of
                   (Inl _, port') \<Rightarrow> (None, s\<lparr>session := Some port'\<rparr>)
                 | (Inr count, port') \<Rightarrow> (Some count, s\<lparr>session := Some port'\<rparr>)))"

definition native_write ::
  "('p, 'z) serial_stream_scheme \<Rightarrow> 'e runtime \<Rightarrow> ('p, 'e) peer \<Rightarrow> u32 \<Rightarrow> bytes \<Rightarrow> bool
     \<Rightarrow> ('p, 'e) control \<Rightarrow> ((napi_error + bool) \<times> ('p, 'e) control) option" where
  "native_write io rt peer i data allow_inline s =
     (if \<not> length data \<le> CHUNK_SIZE
      then Some (Inl (napi_error_new Status_InvalidArg ''Invalid transfer size''), s)
      else
        let (stopped, s) = load_stop peer s in
        if stopped then Some (Inl (from_reason ''Port is closed''), s)
        else
          let (count, s) = try_inline io peer allow_inline data s;
              written = (case count of None \<Rightarrow> 0 | Some n \<Rightarrow> n) in
          if count = Some (length data) then Some (Inr True, s)
          else
            case slice_from data written of
              None \<Rightarrow> None
            | Some rest \<Rightarrow>
                (case enqueue rt peer \<lparr>cmd_id = i, operation = Op_Write rest\<rparr> s of
                   (Inl e, s) \<Rightarrow> Some (Inl e, s)
                 | (Inr _, s) \<Rightarrow> Some (Inr False, s)))"

text \<open>
  The buffers of a vectored write are a JavaScript array whose elements may be accessors: reading
  one runs code on the JavaScript thread that can change the port (call \<open>close\<close>, say).
\<close>

type_synonym ('p, 'e) element =
  "('p, 'e) control \<Rightarrow> (napi_error + bytes option) \<times> ('p, 'e) control"

fun gather ::
  "('p, 'e) element list \<Rightarrow> bytes \<Rightarrow> ('p, 'e) control
     \<Rightarrow> ((napi_error + bytes) \<times> ('p, 'e) control) option" where
  "gather [] data s = Some (Inr data, s)"
| "gather (get # rest) data s =
     (case get s of
        (Inl e, s) \<Rightarrow> Some (Inl e, s)
      | (Inr None, s) \<Rightarrow> Some (Inl (napi_error_new Status_InvalidArg ''Missing write buffer''), s)
      | (Inr (Some buffer), s) \<Rightarrow>
          (case checked_sub CHUNK_SIZE (length data) of
             None \<Rightarrow> None
           | Some room \<Rightarrow>
               if length buffer \<le> room then gather rest (data @ buffer) s
               else Some (Inl (napi_error_new Status_InvalidArg ''Invalid transfer size''), s)))"

text \<open>\<open>copy_within(written.., 0)\<close> moves the tail of the vector to its front.\<close>

definition copy_within_front :: "nat \<Rightarrow> 'a list \<Rightarrow> 'a list option" where
  "copy_within_front w xs =
     (if w \<le> length xs then Some (drop w xs @ drop (length xs - w) xs) else None)"

definition compact_data :: "nat \<Rightarrow> bytes \<Rightarrow> bytes option" where
  "compact_data written data =
     (if written \<noteq> 0 then
        case checked_sub (length data) written of
          None \<Rightarrow> None
        | Some remaining \<Rightarrow> map_option (take remaining) (copy_within_front written data)
      else Some data)"

definition native_writev ::
  "('p, 'z) serial_stream_scheme \<Rightarrow> 'e runtime \<Rightarrow> ('p, 'e) peer \<Rightarrow> u32 \<Rightarrow> ('p, 'e) element list
     \<Rightarrow> u32 option \<Rightarrow> bool option
     \<Rightarrow> ('p, 'e) control \<Rightarrow> ((napi_error + bool) \<times> ('p, 'e) control) option" where
  "native_writev io rt peer i buffers length_hint allow_inline s =
     (let (stopped, s) = load_stop peer s in
      if stopped then Some (Inl (from_reason ''Port is closed''), s)
      else
        let capacity = unat (case length_hint of None \<Rightarrow> 0 | Some n \<Rightarrow> n) in
        if \<not> (capacity \<le> CHUNK_SIZE \<and> length buffers \<le> 1024)
        then Some (Inl (napi_error_new Status_InvalidArg ''Invalid transfer size''), s)
        else
          case gather buffers [] s of
            None \<Rightarrow> None
          | Some (Inl e, s) \<Rightarrow> Some (Inl e, s)
          | Some (Inr data, s) \<Rightarrow>
              (let (stopped, s) = load_stop peer s in
               if stopped then Some (Inl (from_reason ''Port is closed''), s)
               else
                 let (count, s) =
                       try_inline io peer (case allow_inline of None \<Rightarrow> False | Some b \<Rightarrow> b) data s;
                     written = (case count of None \<Rightarrow> 0 | Some n \<Rightarrow> n) in
                 if count = Some (length data) then Some (Inr True, s)
                 else
                   case compact_data written data of
                     None \<Rightarrow> None
                   | Some rest \<Rightarrow>
                       (case enqueue rt peer \<lparr>cmd_id = i, operation = Op_Write rest\<rparr> s of
                          (Inl e, s) \<Rightarrow> Some (Inl e, s)
                        | (Inr _, s) \<Rightarrow> Some (Inr False, s))))"

subsection \<open>Control requests and close\<close>

definition request_operation :: "string \<Rightarrow> u32 \<Rightarrow> operation option" where
  "request_operation op val =
     (if op = ''update'' then Some (Op_Update val)
      else if op = ''set'' then Some (Op_Set val)
      else if op = ''get'' then Some Op_Get
      else if op = ''getBaudRate'' then Some Op_GetBaudRate
      else if op = ''flush'' then Some Op_Flush
      else if op = ''drain'' then Some Op_Drain
      else None)"

definition native_request ::
  "'e runtime \<Rightarrow> ('p, 'e) peer \<Rightarrow> u32 \<Rightarrow> string \<Rightarrow> u32 \<Rightarrow> ('p, 'e) control
     \<Rightarrow> (napi_error + unit) \<times> ('p, 'e) control" where
  "native_request rt peer i op val s =
     (case request_operation op val of
        None \<Rightarrow> (Inl (napi_error_new Status_InvalidArg ''Unknown serial control operation''), s)
      | Some x \<Rightarrow> enqueue rt peer \<lparr>cmd_id = i, operation = x\<rparr> s)"

definition native_close ::
  "'e runtime \<Rightarrow> ('p, 'e) peer \<Rightarrow> ('p, 'e) control \<Rightarrow> ('p, 'e) control" where
  "native_close rt peer s = control_stop rt peer s"

definition native_drop ::
  "'e runtime \<Rightarrow> ('p, 'e) peer \<Rightarrow> ('p, 'e) control \<Rightarrow> ('p, 'e) control" where
  "native_drop rt peer s = control_stop rt peer s"

end
