(* ===== verification/Reactor_Correct.thy ===== *)
theory Reactor_Correct
  imports Reactor_Invariant Unix_Stream Native_Port
begin

text \<open>
  What the reactor guarantees of a whole execution of an open port, for every behaviour of the
  other threads, of the runtime and of the device, and how a port ends.
\<close>

subsection \<open>A concrete port\<close>

text \<open>A terminal in the session and commands in the channel, for the concrete instances.\<close>

definition port_state :: "tty \<Rightarrow> command list \<Rightarrow> (tty, fifo) control" where
  "port_state p cs =
     (control_new (empty_fifo\<lparr>queue := cs\<rparr>))
       \<lparr>session := Some p, pending_ops := word_of_nat (length (filter ordered cs))\<rparr>"

definition sample :: "(tty, fifo) control" where
  "sample = port_state (tty_new\<lparr>arrived := [[7, 8], [9]]\<rparr>)
     [\<lparr>cmd_id = 1, operation = Op_Write [1, 2, 3]\<rparr>,
      \<lparr>cmd_id = 0, operation = Op_ReadCredit 8 2\<rparr>]"

abbreviation sample_run ::
  "nat \<Rightarrow> (outcome \<times> reactor \<times> (tty, fifo) control) option" where
  "sample_run n \<equiv> run_open Linux (unix_stream tty_fd) (fifo_runtime 96) no_peer n Next reactor_new sample"

text \<open>Five turns of it, evaluated: receive both commands, read, write, complete and read again.\<close>

lemmas turn_simps = turn_def select_def transfer_branch_def timer_branch_def poll_transfers_def
  poll_def poll_read_def poll_write_def retry_interrupted_def handle_command_def
  handle_transfer_def handle_read_def locked_port_def load_stop_def load_pending_def
  fetch_sub_pending_def complete_front_def pending_write_def read_capacity_def read_length_def
  grow_buffer_def resize_def send_def publish_def note_obs_def charge_def next_window_size_def
  fill_def send_read_def callback_event_read_def slice_to_def slice_from_def checked_sub_def
  tty_poll_read tty_poll_write Let_def

lemmas sample_simps = sample_def port_state_def control_new_def empty_fifo_def reactor_new_def
  transfer_poller_default_def ordered_def tty_new_def

definition sample_log :: "obs list" where
  "sample_log =
     [Obs_Recv \<lparr>cmd_id = 1, operation = Op_Write [1, 2, 3]\<rparr>,
      Obs_Recv \<lparr>cmd_id = 0, operation = Op_ReadCredit 8 2\<rparr>,
      Obs_Read True [7, 8],
      Obs_Send (InlineRead (7 # 8 # replicate 94 0) 2) True,
      Obs_Write [1, 2, 3],
      Obs_Done \<lparr>cmd_id = 1, operation = Op_Write [1, 2, 3]\<rparr> (native_event_new 1 ''ok''),
      Obs_Send (Event (native_event_new 1 ''ok'')) True,
      Obs_Read True [9],
      Obs_Send (InlineRead (9 # replicate 95 0) 1) True]"

lemma small_window: "clamp 64 65536 (next_power_of_two (Suc 0)) = 64"
  "clamp 64 65536 (next_power_of_two (Suc (Suc 0))) = 64"
  by (simp_all add: clamp_def next_power_of_two_def next_pow2_from.simps)

lemma sample_run_5:
  "\<exists>r s. sample_run 5 = Some (Next, r, s) \<and> log r = sample_log
     \<and> window r = \<lparr>w_bytes = 5, w_slots = 0, w_size = 64\<rparr> \<and> commands r = []
     \<and> map_option line (session s) = Some [1, 2, 3] \<and> pending_ops s = 0"
proof -
  have five: "(5 :: nat) = Suc (Suc (Suc (Suc (Suc 0))))" by simp
  show ?thesis
    unfolding five by (simp add: turn_simps sample_simps small_window sample_log_def)
qed

subsection \<open>Executions\<close>

lemma run_new_inv:
  assumes "bounded_stream io" and "run_open os io rt peer n Next reactor_new s = Some (out, r', s')"
  shows "loop_inv out r'"
proof -
  have "loop_inv Next reactor_new" by (simp add: core_inv_new live_inv_new)
  from run_open_inv [OF assms(1) this, of os rt peer n s] assms(2) show ?thesis by auto
qed

lemma sample_run_Some: "\<exists>out r s. sample_run n = Some (out, r, s)"
  using run_open_inv [OF tty_bounded, of Next reactor_new Linux "fifo_runtime 96" no_peer n sample]
  by (auto simp: core_inv_new live_inv_new)

text \<open>
  C2: the reactor never panics. Whatever the other threads, the runtime and the device do, no
  slice is out of range and no subtraction goes below zero, so a run of any number of turns has a
  result.
\<close>

theorem run_open_no_panic:
  assumes "bounded_stream io"
  shows "run_open os io rt peer n Next reactor_new s \<noteq> None"
  using run_open_inv [OF assms, of Next reactor_new os rt peer n s]
  by (auto simp: core_inv_new live_inv_new)

theorem run_open_no_panic_witness: "sample_run 7 \<noteq> None"
  by (rule run_open_no_panic [OF tty_bounded])

text \<open>
  C5: received data is delivered complete and in order. While the loop runs, the chunks that
  the JavaScript side has accepted are exactly the chunks read from the port, in that order; when
  it has ended, they are a prefix of them, cut where an event was refused.
\<close>

theorem received_data_in_order:
  assumes "bounded_stream io" and "run_open os io rt peer n Next reactor_new s = Some (out, r', s')"
  shows "prefix (accepted (log r')) (reads (log r'))
    \<and> ((\<forall>res. out \<noteq> Finished res) \<longrightarrow> accepted (log r') = reads (log r'))"
proof -
  have inv: "loop_inv out r'" by (rule run_new_inv [OF assms])
  then have "core_inv r'" by (simp add: loop_inv_def)
  then have "prefix (accepted (log r')) (reads (log r'))"
    by (simp add: core_inv_def accepted_prefix)
  moreover have "accepted (log r') = reads (log r')" if "\<forall>res. out \<noteq> Finished res"
  proof -
    have "core_inv r'" "live_inv r'" using inv that by (simp_all add: loop_inv_def)
    then show ?thesis by (simp add: core_inv_def live_inv_def accepted_all)
  qed
  ultimately show ?thesis by blast
qed

theorem received_data_in_order_witness:
  "\<exists>r s. sample_run 5 = Some (Next, r, s) \<and> accepted (log r) = [[7, 8], [9]]
     \<and> reads (log r) = [[7, 8], [9]]"
proof -
  obtain r s where run: "sample_run 5 = Some (Next, r, s)" and l: "log r = sample_log"
    using sample_run_5 by blast
  have "accepted (log r) = reads (log r)"
    using received_data_in_order [OF tty_bounded run] by simp
  with run l show ?thesis by (simp add: sample_log_def)
qed

text \<open>
  C3: writes reach the wire complete, in order and unmixed. The bytes the port has accepted are
  the payloads of the completed commands, in the order of their arrival, followed by the part of
  the front command written so far; and the commands received are the completed ones followed by
  the waiting ones, so none is lost, duplicated or overtaken.
\<close>

theorem writes_in_order:
  assumes "bounded_stream io" and "run_open os io rt peer n Next reactor_new s = Some (out, r', s')"
  shows "tx (log r') = payloads (dones (log r')) @ take (written r') (front_payload (commands r'))
    \<and> recvd (log r') = dones (log r') @ commands r'"
  using run_new_inv [OF assms] by (simp add: loop_inv_def core_inv_def)

theorem writes_in_order_witness:
  "\<exists>r s. sample_run 5 = Some (Next, r, s) \<and> tx (log r) = [1, 2, 3] \<and> commands r = []
     \<and> tx (log r) = payloads (dones (log r)) @ take (written r) (front_payload (commands r))"
proof -
  obtain r s where run: "sample_run 5 = Some (Next, r, s)" and l: "log r = sample_log" "commands r = []"
    using sample_run_5 by blast
  show ?thesis using run writes_in_order [OF tty_bounded run] l by (simp add: sample_log_def)
qed

text \<open>
  C8: a completion tells the truth. When a command completes, the port has accepted the whole
  payload of every command up to and including it and nothing of a later one, and exactly one
  event, which carries the command's id and is \<open>ok\<close> or \<open>error\<close>, is published for it
  before anything else happens.
\<close>

theorem completion_means_written:
  assumes "bounded_stream io" and "run_open os io rt peer n Next reactor_new s = Some (out, r', s')"
    and "log r' = p @ Obs_Done c ev # q"
  shows "tx p = payloads (dones p @ [c]) \<and> ev_id ev = cmd_id c \<and> ev_kind ev \<in> {''ok'', ''error''}
    \<and> (\<exists>ok q'. q = Obs_Send (Event ev) ok # q')"
  using run_new_inv [OF assms(1,2)] assms(3) by (auto simp: loop_inv_def core_inv_def done_ok_def)

theorem completion_means_written_witness:
  "\<exists>r s p c ev q. sample_run 5 = Some (Next, r, s) \<and> log r = p @ Obs_Done c ev # q
     \<and> cmd_id c = 1 \<and> tx p = [1, 2, 3] \<and> tx p = payloads (dones p @ [c]) \<and> ev_kind ev = ''ok''"
proof -
  obtain r s where run: "sample_run 5 = Some (Next, r, s)" and l: "log r = sample_log"
    using sample_run_5 by blast
  define c where "c = \<lparr>cmd_id = 1, operation = Op_Write [1, 2, 3]\<rparr>"
  have split: "log r = take 5 sample_log @ Obs_Done c (native_event_new 1 ''ok'') # drop 6 sample_log"
    unfolding l by (simp add: sample_log_def c_def)
  have "tx (take 5 sample_log) = [1, 2, 3]" by (simp add: sample_log_def)
  with run split completion_means_written [OF tty_bounded run split] show ?thesis
    by (intro exI [of _ r] exI [of _ s] exI [of _ "take 5 sample_log"] exI [of _ c]
        exI [of _ "native_event_new 1 ''ok''"] exI [of _ "drop 6 sample_log"])
      (simp add: c_def)
qed

text \<open>
  C9: credit is conserved and bounded. The bytes and slots of credit received equal those still
  in the window and those spent on reads, one slot for each read; while the loop runs the window
  never exceeds 64 KiB and 32 slots, so reading never outruns the credit JavaScript has granted.
\<close>

theorem credit_conserved:
  assumes "bounded_stream io" and "run_open os io rt peer n Next reactor_new s = Some (out, r', s')"
  shows "credit_bytes_in (log r') = w_bytes (window r') + spent_bytes (log r')
    \<and> credit_slots_in (log r') = w_slots (window r') + spent_slots (log r')
    \<and> ((\<forall>res. out \<noteq> Finished res) \<longrightarrow>
         w_bytes (window r') \<le> CHUNK_SIZE \<and> w_slots (window r') \<le> READ_SLOTS)"
  using run_new_inv [OF assms] by (auto simp: loop_inv_def core_inv_def live_inv_def)

theorem credit_conserved_witness:
  "\<exists>r s. sample_run 5 = Some (Next, r, s) \<and> credit_bytes_in (log r) = 8 \<and> w_bytes (window r) = 5
     \<and> spent_bytes (log r) = 3 \<and> spent_slots (log r) = 2"
proof -
  obtain r s where run: "sample_run 5 = Some (Next, r, s)" and l: "log r = sample_log"
    "window r = \<lparr>w_bytes = 5, w_slots = 0, w_size = 64\<rparr>"
    using sample_run_5 by blast
  show ?thesis using run credit_conserved [OF tty_bounded run] l by (simp add: sample_log_def)
qed

text \<open>
  C31: memory is bounded. Between turns the adaptive read size is a power of two between 64 bytes
  and 64 KiB and the retained read buffer never exceeds 64 KiB.
\<close>

theorem read_size_bounded:
  assumes "bounded_stream io" and "run_open os io rt peer n Next reactor_new s = Some (out, r', s')"
    and "\<forall>res. out \<noteq> Finished res"
  shows "power_of_two (w_size (window r')) \<and> 64 \<le> w_size (window r') \<and> w_size (window r') \<le> CHUNK_SIZE
    \<and> length (read_buffer r') \<le> CHUNK_SIZE"
  using run_new_inv [OF assms(1,2)] assms(3) by (auto simp: loop_inv_def live_inv_def wf_size_def)

theorem read_size_bounded_witness:
  "\<exists>r s. sample_run 5 = Some (Next, r, s) \<and> w_size (window r) = 64
     \<and> power_of_two (w_size (window r)) \<and> length (read_buffer r) \<le> 65536"
proof -
  obtain r s where run: "sample_run 5 = Some (Next, r, s)"
    and l: "window r = \<lparr>w_bytes = 5, w_slots = 0, w_size = 64\<rparr>"
    using sample_run_5 by blast
  have "\<forall>res. Next \<noteq> Finished res" by simp
  from run read_size_bounded [OF tty_bounded run this] l show ?thesis by auto
qed

text \<open>
  C30: the state of the loop is well formed between turns: only ordered commands wait in the queue, the
  count of written bytes stays within the data of the front command, and a single read and the credit
  stream exclude each other, the credit being zero when nothing streams.
\<close>

theorem reactor_well_formed:
  assumes "bounded_stream io" and "run_open os io rt peer n Next reactor_new s = Some (out, r', s')"
    and "\<forall>res. out \<noteq> Finished res"
  shows "list_all ordered (commands r')
    \<and> written r' \<le> (case commands r' of [] \<Rightarrow> 0 | c # _ \<Rightarrow> length (payload c))
    \<and> (if streaming r' then read r' = None else w_bytes (window r') = 0 \<and> w_slots (window r') = 0)"
  using run_new_inv [OF assms(1,2)] assms(3)
  by (auto simp: loop_inv_def live_inv_def core_inv_def split: list.split)

theorem reactor_well_formed_witness:
  "\<exists>r s. sample_run 5 = Some (Next, r, s) \<and> list_all ordered (commands r) \<and> written r = 0"
proof -
  obtain r s where run: "sample_run 5 = Some (Next, r, s)" and l: "commands r = []"
    using sample_run_5 by blast
  have "\<forall>res. Next \<noteq> Finished res" by simp
  from run reactor_well_formed [OF tty_bounded run this] l show ?thesis by auto
qed

subsection \<open>Bursts and admission\<close>

text \<open>
  C21: a burst publishes the chunk in hand in an event of its own before it reads any other; it
  then reads at most 15 followers and publishes them, when there are some, in one event, in the
  order they were read. It charges the window exactly one slot and the bytes of each follower,
  leaves queue, pending read and preferences alone, reads nothing after a refused first event, and
  when it does not report a refusal both events were accepted.
\<close>

theorem burst_ordered_and_bounded:
  assumes "send_ready_reads io rt peer len r s = Some (res, r', s')"
    and "wf_size (w_size (window r))"
  shows "\<exists>ev ok cs d. log r' = log r @ Obs_Send ev ok # map (Obs_Read True) cs @ d
     \<and> event_chunks ev = [take len (read_buffer r)]
     \<and> (if cs = [] then d = [] else \<exists>ev' ok'. d = [Obs_Send ev' ok'] \<and> event_chunks ev' = cs)
     \<and> length cs < READ_BURST_LIMIT \<and> same_queue r r'
     \<and> w_bytes (window r) = w_bytes (window r') + length (concat cs)
     \<and> w_slots (window r) = w_slots (window r') + length cs
     \<and> (ok \<or> cs = []) \<and> (res \<noteq> Inr False \<longrightarrow> ok \<and> all_accepted d)"
  by (rule send_ready_reads_shape [OF assms])

definition burst_reactor :: reactor where
  "burst_reactor = reactor_new
     \<lparr>streaming := True, window := \<lparr>w_bytes = 8, w_slots = 2, w_size = 1024\<rparr>, read_buffer := [5, 6]\<rparr>"

theorem burst_ordered_and_bounded_witness:
  "\<exists>r' s' ev ev'. send_ready_reads (unix_stream tty_fd) (fifo_runtime 96) no_peer 2 burst_reactor
       (sample\<lparr>pending_ops := 0\<rparr>) = Some (Inr True, r', s')
     \<and> log r' = [Obs_Send ev True, Obs_Read True [7, 8], Obs_Read True [9], Obs_Send ev' True]
     \<and> event_chunks ev = [[5, 6]] \<and> event_chunks ev' = [[7, 8], [9]] \<and> window r' = \<lparr>w_bytes = 5, w_slots = 0, w_size = 64\<rparr>"
proof -
  have burst: "READ_BURST_LIMIT - 1 = 15" by (simp add: READ_BURST_LIMIT_def)
  have nums: "Suc 14 = 15" "Suc 13 = 14" "Suc 12 = 13" by simp_all
  note step = collect_ready.simps(2) [where n = 14, unfolded nums]
    collect_ready.simps(2) [where n = 13, unfolded nums]
    collect_ready.simps(2) [where n = 12, unfolded nums]
  have tty_try: "fd_try_read tty_fd n p = (case arrived p of [] \<Rightarrow> (Inl block_error, p\<lparr>stale := stale p - 1\<rparr>)
      | c # cs \<Rightarrow> (Inr (take n c), p\<lparr>arrived := (if length c \<le> n then cs else drop n c # cs)\<rparr>))" for n p
    by (simp add: tty_fd_def tty_read_def split: list.split)
  have "\<exists>r' s'. send_ready_reads (unix_stream tty_fd) (fifo_runtime 96) no_peer 2 burst_reactor
       (sample\<lparr>pending_ops := 0\<rparr>) = Some (Inr True, r', s')
     \<and> reads (log r') = [[7, 8], [9]] \<and> window r' = \<lparr>w_bytes = 5, w_slots = 0, w_size = 64\<rparr>"
    unfolding send_ready_reads_def burst
    by (simp add: burst_reactor_def turn_simps sample_simps small_window tty_try collect_def
        publish_followers_def block_error_def step)
  then obtain r' s' where run: "send_ready_reads (unix_stream tty_fd) (fifo_runtime 96) no_peer 2
      burst_reactor (sample\<lparr>pending_ops := 0\<rparr>) = Some (Inr True, r', s')"
    and rd: "reads (log r') = [[7, 8], [9]]" "window r' = \<lparr>w_bytes = 5, w_slots = 0, w_size = 64\<rparr>"
    by blast
  have "wf_size (w_size (window burst_reactor))" by (simp add: burst_reactor_def wf_size_1024)
  from burst_ordered_and_bounded [OF run this] obtain ev ok cs d where
    l: "log r' = Obs_Send ev ok # map (Obs_Read True) cs @ d" "event_chunks ev = [[5, 6]]"
      "if cs = [] then d = [] else \<exists>ev' ok'. d = [Obs_Send ev' ok'] \<and> event_chunks ev' = cs"
      "ok" "all_accepted d"
    by (auto simp: burst_reactor_def reactor_new_def)
  have "reads d = []" using l(3) by (auto split: if_splits)
  with l(1) rd(1) have cs: "cs = [[7, 8], [9]]" by simp
  with l(3,5) obtain ev' where "d = [Obs_Send ev' True]" "event_chunks ev' = [[7, 8], [9]]" by auto
  with l(1,2,4) cs rd(2) run show ?thesis by auto
qed

lemma handle_command_busy_event:
  assumes "operation c = Op_Read len" and "read r \<noteq> None \<or> streaming r"
  shows "\<exists>ok ev s'. handle_command rt peer (Some c) r s =
        (if ok then Next else Finished (Inr ()),
         note_obs (Obs_Send (Event ev) ok) (note_obs (Obs_Recv c) r), s')
      \<and> ev_id ev = cmd_id c \<and> ev_code ev = Some ''ERR_SERIALPORT_BUSY''"
proof -
  define ev where "ev = native_event_error (cmd_id c) (io_error_new ResourceBusy ''Read already pending'')"
  obtain ok r1 s1 where snd: "send rt peer ev (note_obs (Obs_Recv c) r) s = (ok, r1, s1)"
    by (metis prod_cases3)
  have "handle_command rt peer (Some c) r s
      = (if ok then Next else Finished (Inr ()),
         note_obs (Obs_Send (Event ev) ok) (note_obs (Obs_Recv c) r), s1)"
    using handle_command_busy [OF assms, of rt peer s] snd send_log [OF snd] by (simp add: ev_def)
  moreover have "ev_id ev = cmd_id c" "ev_code ev = Some ''ERR_SERIALPORT_BUSY''"
    by (simp_all add: ev_def)
  ultimately show ?thesis by blast
qed

text \<open>
  What the reactor does with each command it receives. Reads are exclusive: a request to
  read while another is pending, or while credit streams, is answered with a busy error for its
  own id and changes nothing else. Credit that arrives during a pending read, or that would exceed
  64 KiB or 32 slots, ends the port with an invalid-argument error; any other credit is added to
  the window exactly. Every other command goes to the end of the ordered queue.
\<close>

lemma command_admission:
  "case operation c of
     Op_Read len \<Rightarrow>
       if read r = None \<and> \<not> streaming r
       then handle_command rt peer (Some c) r s =
              (Next, (note_obs (Obs_Recv c) r)\<lparr>read := Some (cmd_id c, len)\<rparr>, s)
       else \<exists>ok ev s'. handle_command rt peer (Some c) r s =
              (if ok then Next else Finished (Inr ()),
               note_obs (Obs_Send (Event ev) ok) (note_obs (Obs_Recv c) r), s')
            \<and> ev_id ev = cmd_id c \<and> ev_code ev = Some ''ERR_SERIALPORT_BUSY''
   | Op_ReadCredit b n \<Rightarrow>
       (let w = (window r)\<lparr>w_bytes := w_bytes (window r) + b, w_slots := w_slots (window r) + n\<rparr> in
        if read r = None \<and> w_bytes w \<le> CHUNK_SIZE \<and> w_slots w \<le> READ_SLOTS
        then handle_command rt peer (Some c) r s =
               (Next, (note_obs (Obs_Recv c) r)\<lparr>window := w, streaming := True\<rparr>, s)
        else \<exists>e. handle_command rt peer (Some c) r s =
               (Finished (Inl e), (note_obs (Obs_Recv c) r)\<lparr>window := w\<rparr>, s)
             \<and> code (kind e) = ''ERR_SERIALPORT_INVALID_ARGUMENT'')
   | _ \<Rightarrow> handle_command rt peer (Some c) r s =
            (Next, (note_obs (Obs_Recv c) r)\<lparr>commands := commands r @ [c]\<rparr>, s)"
proof (cases "operation c")
  case (Op_Read len)
  show ?thesis
  proof (cases "read r = None \<and> \<not> streaming r")
    case True
    with Op_Read show ?thesis by (simp add: handle_command_def)
  next
    case False
    then have "read r \<noteq> None \<or> streaming r" by auto
    from handle_command_busy_event [OF Op_Read this] show ?thesis
      unfolding Op_Read operation.case if_not_P [OF False] by blast
  qed
next
  case (Op_ReadCredit b n)
  then show ?thesis by (cases "read r") (auto simp: handle_command_def Let_def)
qed (simp_all add: handle_command_def)

subsection \<open>Stopping and closing\<close>

lemma turn_stopped:
  assumes "stop (peer s)"
  shows "turn os io rt peer Next r s = Some (Finished (Inr ()), r, peer s)"
  using assms by (simp add: turn_def load_stop_def)

lemma select_notified:
  assumes "core_inv r" and "live_inv r" and "notified rt (outside (peer s)) = (True, e)"
  shows "\<exists>r'. select io rt peer draining r s = Some (Next, r', peer s\<lparr>outside := e\<rparr>)
    \<and> log r' = log r \<and> commands r' = commands r"
proof -
  obtain wr where "pending_write r = Some wr" using pending_write_inv [OF assms(1)] by blast
  with assms(3) show ?thesis by (auto simp: select_def Let_def split: option.split)
qed

lemma stopped_reactor_ends:
  assumes "loop_inv ph r" and "ph = Next \<or> ph = Select d"
    and stopping: "\<And>s. stop s \<Longrightarrow> stop (peer s)"
    and kept: "\<And>s. N (outside s) \<Longrightarrow> N (outside (peer s))"
    and permit: "\<And>e. N (notify_one rt e)" "\<And>e. N e \<Longrightarrow> fst (notified rt e)"
  shows "\<exists>r' s'. run_open os io rt peer 2 ph r (control_stop rt peer s) = Some (Finished (Inr ()), r', s')
    \<and> log r' = log r \<and> commands r' = commands r"
proof -
  define t where "t = control_stop rt peer s"
  have t: "stop t" "N (outside t)"
    using stopping [of "(peer s)\<lparr>stop := True\<rparr>"] permit(1)
    by (simp_all add: t_def control_stop_def Let_def)
  have two: "(2 :: nat) = Suc (Suc 0)" by simp
  have next_stop: "run_open os io rt peer (Suc n) Next q u = Some (Finished (Inr ()), q, peer u)"
    if "stop u" for n q u
    using turn_stopped [of peer u os io rt q] stopping [OF that] by simp
  show ?thesis
  proof (cases "ph = Next")
    case True
    with next_stop [OF t(1), of "Suc 0" r] show ?thesis unfolding t_def [symmetric] two by simp
  next
    case False
    with assms(2) have ph: "ph = Select d" by simp
    have "fst (notified rt (outside (peer t)))" using permit(2) kept t(2) by blast
    then obtain e where "notified rt (outside (peer t)) = (True, e)" by (metis prod.collapse)
    with select_notified [of r rt peer t e io d] assms(1) ph obtain r' where
      r': "select io rt peer d r t = Some (Next, r', peer t\<lparr>outside := e\<rparr>)"
      "log r' = log r" "commands r' = commands r" by auto
    have "stop (peer t\<lparr>outside := e\<rparr>)" using stopping [OF t(1)] by simp
    from next_stop [OF this, of 0 r'] r' ph show ?thesis
      unfolding t_def [symmetric] two by (simp add: turn_def)
  qed
qed

text \<open>
  C12: closing a port ends its reactor promptly. When \<open>close\<close> has set the flag and stored a
  notification, a reactor at the top of its loop or suspended in its \<open>select!\<close>, whatever it
  waits for, returns within two turns, without error and without any further read, write,
  completion or event.
\<close>

theorem close_stops_reactor:
  assumes "loop_inv ph r" and "ph = Next \<or> ph = Select d"
    and stopping: "\<And>s. stop s \<Longrightarrow> stop (peer s)"
    and kept: "\<And>s. N (outside s) \<Longrightarrow> N (outside (peer s))"
    and permit: "\<And>e. N (notify_one rt e)" "\<And>e. N e \<Longrightarrow> fst (notified rt e)"
  shows "\<exists>r' s'. run_open os io rt peer 2 ph r (native_close rt peer s) = Some (Finished (Inr ()), r', s')
    \<and> log r' = log r \<and> commands r' = commands r"
  unfolding native_close_def by (rule stopped_reactor_ends [OF assms])

theorem close_stops_reactor_witness:
  "\<exists>r s. run_open Linux (unix_stream tty_fd) (fifo_runtime 96) no_peer 2 (Select False) reactor_new
       (native_close (fifo_runtime 96) no_peer sample) = Some (Finished (Inr ()), r, s)
     \<and> log r = [] \<and> commands r = []"
  using close_stops_reactor [of "Select False" reactor_new False no_peer permit "fifo_runtime 96" Linux
      "unix_stream tty_fd" sample]
  by (simp add: core_inv_new live_inv_new) (simp add: reactor_new_def)

text \<open>
  A device that answers a transfer with zero bytes is gone: the loop ends, and the close event
  JavaScript receives carries the disconnect code and its message.
\<close>

lemma disconnect_closes_with_code:
  "\<exists>e. handle_transfer io rt peer wr capacity (Inr (Tr_Read 0)) r s = Some (Finished (Inl e), r, s)
     \<and> handle_transfer io rt peer wr capacity (Inr (Tr_Write 0)) r s = Some (Finished (Inl e), r, s)
     \<and> ev_kind (close_event (Some (Inl e))) = ''close''
     \<and> ev_code (close_event (Some (Inl e))) = Some ''ERR_SERIALPORT_DISCONNECTED''
     \<and> ev_message (close_event (Some (Inl e))) = Some ''Serial device disconnected''"
  by (simp add: handle_transfer_def close_event_def)

lemma completion_drop_spec:
  assumes "completion_drop rt peer result r s = (r', s')"
    and "\<And>s. session s = None \<Longrightarrow> session (peer s) = None" and "\<And>s. stop s \<Longrightarrow> stop (peer s)"
  shows "\<exists>ok t. send rt peer (close_event result) (note_obs Obs_Closed r) t = (ok, r', s')
    \<and> session t = None \<and> stop t \<and> session s' = None \<and> stop s'"
proof -
  define t where "t = (peer ((peer s)\<lparr>stop := True\<rparr>))\<lparr>session := None\<rparr>"
  obtain ok r1 s1 where snd: "send rt peer (close_event result) (note_obs Obs_Closed r) t = (ok, r1, s1)"
    by (metis prod_cases3)
  with assms(1) have "r1 = r'" "s1 = s'" by (simp_all add: completion_drop_def drop_port_def Let_def t_def)
  moreover have "session t = None" "stop t" using assms(3) by (simp_all add: t_def)
  moreover from this have "session s1 = None" "stop s1"
    using snd assms(2,3) by (auto simp: send_def publish_def Let_def split: prod.splits)
  ultimately show ?thesis using snd by blast
qed

lemma open_event_inv:
  "core_inv (note_obs (Obs_Send (Event (native_event_new 0 ''open'')) True) reactor_new)
   \<and> live_inv (note_obs (Obs_Send (Event (native_event_new 0 ''open'')) True) reactor_new)"
proof
  show "core_inv (note_obs (Obs_Send (Event (native_event_new 0 ''open'')) True) reactor_new)"
    by (rule core_inv_publish [OF core_inv_new live_inv_new]) simp_all
  show "live_inv (note_obs (Obs_Send (Event (native_event_new 0 ''open'')) True) reactor_new)"
    using live_inv_new by (simp add: live_inv_def)
qed

text \<open>What is known when \<open>run\<close> drops its completion: no close event was published yet.\<close>

lemma run_completes:
  assumes "bounded_stream io" and "run_opened os io rt peer n opened s = Some (r', s')"
  shows "\<exists>result r1 s1 t. completion_drop rt peer (Some result) r1 s1 = (r', t)
    \<and> (s' = t \<or> s' = release_receiver rt peer t) \<and> closes (log r1) = []
    \<and> (\<forall>m. opened = Inl m \<longrightarrow> result = Inl (io_error_other m) \<and> log r1 = [])
    \<and> (\<forall>e. opened = Inr (Inl e) \<longrightarrow> result = Inl e \<and> log r1 = [])"
proof -
  have fresh: "closes (log reactor_new) = []" "log reactor_new = []" by (simp_all add: reactor_new_def)
  show ?thesis
  proof (cases "\<exists>port. opened = Inr (Inr port)")
    case False
    then obtain e t where "completion_drop rt peer (Some (Inl e)) reactor_new s = (r', t)"
      "s' = release_receiver rt peer t"
      "\<forall>m. opened = Inl m \<longrightarrow> e = io_error_other m" "\<forall>x. opened = Inr (Inl x) \<longrightarrow> e = x"
      using assms(2) by (auto simp: run_opened_def split: sum.splits prod.splits)
    with fresh False show ?thesis by blast
  next
    case True
    then obtain port where port: "opened = Inr (Inr port)" by blast
    obtain stopped s1 where stop: "load_stop peer ((peer s)\<lparr>session := Some port\<rparr>) = (stopped, s1)"
      by fastforce
    obtain ok r2 s2 where sent: "send rt peer (native_event_new 0 ''open'') reactor_new s1 = (ok, r2, s2)"
      by (metis prod_cases3)
    have r2: "r2 = note_obs (Obs_Send (Event (native_event_new 0 ''open'')) ok) reactor_new"
      using send_log [OF sent] .
    note unfold = assms(2) [unfolded run_opened_def port Let_def sum.case stop, simplified, unfolded sent, simplified]
    show ?thesis
    proof (cases "\<not> stopped \<and> ok")
      case False
      then have "\<exists>q t. completion_drop rt peer (Some (Inr ())) q (if stopped then s1 else s2) = (r', t)
          \<and> s' = release_receiver rt peer t \<and> closes (log q) = []"
        using unfold
        by (intro exI [of _ "if stopped then reactor_new else r2"])
          (cases stopped; cases ok; auto simp: fresh r2 split: prod.splits)
      with port show ?thesis by blast
    next
      case True
      then have "loop_inv Next r2" using open_event_inv r2 by simp
      from run_open_inv [OF assms(1) this, of os rt peer n s2] obtain out r3 s3 where
        ro: "run_open os io rt peer n Next r2 s2 = Some (out, r3, s3)" "loop_inv out r3" by blast
      with unfold True obtain res where
        "completion_drop rt peer (Some res) r3 (release_receiver rt peer s3) = (r', s')"
        by (auto split: outcome.splits)
      moreover have "closes (log r3) = []" using ro(2) by (simp add: loop_inv_def core_inv_def)
      ultimately show ?thesis using port by blast
    qed
  qed
qed

text \<open>
  C11: a port closes exactly once, and its close event comes after the device was closed. However
  \<open>run\<close> ends, its last two observations are the drop of the device and, after it, one close
  event; no close event and no drop of the device comes before them. When that event is sent, and
  still in the end, the session is empty and the stop flag keeps the operations of the JavaScript
  thread out. A device that did not
  open is reported with the error of \<open>settings::open\<close>, and a task that did not join with that
  of the join, each without any other event.
\<close>

theorem run_closes_once:
  assumes "bounded_stream io" and "run os io rt peer n dev opts join w s = Some (r', s')"
    and "\<And>s. session s = None \<Longrightarrow> session (peer s) = None" and "\<And>s. stop s \<Longrightarrow> stop (peer s)"
  shows "\<exists>result l ok. log r' = l @ [Obs_Closed, Obs_Send (Event (close_event (Some result))) ok]
    \<and> (\<exists>q t u. log q = l @ [Obs_Closed] \<and> session t = None \<and> stop t
         \<and> send rt peer (close_event (Some result)) q t = (ok, r', u))
    \<and> Obs_Closed \<notin> set l \<and> (\<forall>ev ok. Obs_Send (Event ev) ok \<in> set l \<longrightarrow> ev_kind ev \<noteq> ''close'')
    \<and> session s' = None \<and> stop s'
    \<and> (\<forall>e. join = None \<and> fst (settings_open os io dev opts w) = Inl e \<longrightarrow> result = Inl e \<and> l = [])
    \<and> (\<forall>m. join = Some m \<longrightarrow> result = Inl (io_error_other m) \<and> l = [])"
proof -
  define opened where "opened = open_task os io dev opts join w"
  have "run_opened os io rt peer n opened s = Some (r', s')"
    using assms(2) by (simp add: run_def opened_def)
  from run_completes [OF assms(1) this] obtain result r1 s1 t where
    c: "completion_drop rt peer (Some result) r1 s1 = (r', t)"
    and t: "s' = t \<or> s' = release_receiver rt peer t"
    and l: "closes (log r1) = []"
    and e: "\<forall>m. opened = Inl m \<longrightarrow> result = Inl (io_error_other m) \<and> log r1 = []"
      "\<forall>e. opened = Inr (Inl e) \<longrightarrow> result = Inl e \<and> log r1 = []"
    by blast
  from completion_drop_spec [OF c assms(3,4)] obtain ok v where
    r': "send rt peer (close_event (Some result)) (note_obs Obs_Closed r1) v = (ok, r', t)"
      "session v = None" "stop v" "session t = None" "stop t"
    by blast
  have logs: "log r' = log r1 @ [Obs_Closed, Obs_Send (Event (close_event (Some result))) ok]"
    using send_log [OF r'(1)] by simp
  have sent: "\<exists>q t u. log q = log r1 @ [Obs_Closed] \<and> session t = None \<and> stop t
      \<and> send rt peer (close_event (Some result)) q t = (ok, r', u)"
    using r'(1-3) note_obs_sel(8) by blast
  have first: "Obs_Closed \<notin> set (log r1)"
    "\<forall>ev ok. Obs_Send (Event ev) ok \<in> set (log r1) \<longrightarrow> ev_kind ev \<noteq> ''close''"
    using l closes_none by blast+
  have ends: "session s' = None" "stop s'"
    using r'(4,5) t assms(3) [of t] assms(4) [of t] by (auto simp: release_receiver_def Let_def)
  have failed: "\<forall>e. join = None \<and> fst (settings_open os io dev opts w) = Inl e \<longrightarrow> result = Inl e \<and> log r1 = []"
    "\<forall>m. join = Some m \<longrightarrow> result = Inl (io_error_other m) \<and> log r1 = []"
    using e by (simp_all add: opened_def open_task_def)
  show ?thesis
    by (intro exI [of _ result] exI [of _ "log r1"] exI [of _ ok] conjI logs sent first ends failed)
qed

definition no_devices :: "('p, unit) devices" where
  "no_devices =
     \<lparr>open_stream = (\<lambda>b w. (Inl \<lparr>description = ''no device'', into_io = io_error_new NotFound ''no device''\<rparr>, w)),
      enotty_desc = ''ENOTTY''\<rparr>"

definition missing_options :: native_options where
  "missing_options =
     \<lparr>path = ''/dev/ttyS9'', baud_rate = 9600, data_bits = 8, stop_bits = F64 1, parity = ''none'',
      lock = True, rtscts = False, xon = False, xoff = False, xany = False, hupcl = True\<rparr>"

theorem run_closes_once_witness:
  "\<exists>r s ok. run Linux (unix_stream tty_fd) (fifo_runtime 96) no_peer 0 no_devices missing_options
       None () (control_new empty_fifo) = Some (r, s)
     \<and> log r = [Obs_Closed, Obs_Send (Event (close_event (Some (Inl (io_error_new NotFound ''no device''))))) ok]
     \<and> stop s"
proof -
  have opened: "fst (settings_open Linux (unix_stream tty_fd) no_devices missing_options ())
      = Inl (io_error_new NotFound ''no device'')"
    by (simp add: settings_open_def validate_def data_bits_of_def stop_bits_of_def parity_of_def
        missing_options_def platform_open_def no_devices_def)
  obtain r s where run: "run Linux (unix_stream tty_fd) (fifo_runtime 96) no_peer 0 no_devices
       missing_options None () (control_new empty_fifo) = Some (r, s)"
    by (auto simp: run_def run_opened_def open_task_def opened split_beta)
  from run_closes_once [OF tty_bounded run] run opened show ?thesis by auto
qed

end
