(* ===== verification/Native_Port_Correct.thy ===== *)
theory Native_Port_Correct
  imports Native_Port Unix_Stream
begin

text \<open>
  What the operations of the JavaScript thread guarantee: admission is all or nothing, immediate
  and queued bytes together are the data, a vectored write is the write of the concatenation, and
  no operation panics.
\<close>

subsection \<open>The wire\<close>

text \<open>What a write does to the bytes on the line: an immediate write appends what it accepts.\<close>

locale wire =
  fixes io :: "('p, 'z) serial_stream_scheme" and sent :: "'p \<Rightarrow> bytes"
  assumes try_write_Inr: "try_write io xs p = (Inr n, p') \<Longrightarrow> n \<le> length xs \<and> sent p' = sent p @ take n xs"
    and try_write_Inl: "try_write io xs p = (Inl e, p') \<Longrightarrow> sent p' = sent p"
begin

lemma try_inline_wire:
  assumes "try_inline io peer allow data s = (cnt, s')"
    and quiet: "\<And>s. map_option sent (session (peer s)) = map_option sent (session s)"
  shows "case cnt of None \<Rightarrow> map_option sent (session s') = map_option sent (session s)
     | Some n \<Rightarrow> n \<le> length data \<and> session s \<noteq> None
         \<and> map_option sent (session s') = map_option (\<lambda>p. sent p @ take n data) (session s)"
proof -
  have peer: "session (peer q) = Some p \<Longrightarrow> \<exists>p0. session q = Some p0 \<and> sent p = sent p0" for q p
    using quiet [of q] by (cases "session q") auto
  show ?thesis
    using assms(1) quiet [of s] quiet [of "peer s"]
    by (auto simp: try_inline_def load_pending_def Let_def split: if_splits prod.splits sum.splits option.splits
      dest!: try_write_Inr try_write_Inl peer)
qed

end

interpretation tty_wire: wire "unix_stream tty_fd" line
  by unfold_locales (auto simp: tty_try_write split: if_splits)

subsection \<open>Admission\<close>

lemma enqueue_cases:
  assumes "enqueue rt no_peer c s = (r, s')"
  obtains (closed) "stop s" "r = Inl (from_reason ''Port is closed'')" "s' = s"
  | (full) "\<not> stop s" "ordered c" "64 \<le> unat (pending_ops s)" "s' = s"
      "r = Inl (from_reason ''Too many pending serial operations'')"
  | (refused) m e where "\<not> stop s" "try_send rt c (outside s) = (Inl m, e)"
      "r = Inl (from_reason m)" "s' = s\<lparr>outside := e\<rparr>"
  | (sent) e where "\<not> stop s" "try_send rt c (outside s) = (Inr (), e)" "r = Inr ()"
      "ordered c \<longrightarrow> unat (pending_ops s) < 64"
      "s' = s\<lparr>pending_ops := pending_ops s + (if ordered c then 1 else 0), outside := e\<rparr>"
proof (cases "stop s")
  case True
  then have "r = Inl (from_reason ''Port is closed'') \<and> s' = s"
    using assms by (auto simp: enqueue_def load_stop_def)
  with closed [OF True] show thesis by blast
next
  case running: False
  show thesis
  proof (cases "ordered c \<and> 64 \<le> unat (pending_ops s)")
    case True
    then have "r = Inl (from_reason ''Too many pending serial operations'') \<and> s' = s"
      using assms running by (auto simp: enqueue_def access_defs Let_def)
    with True running full show thesis by blast
  next
    case False
    obtain x e where snd: "try_send rt c (outside s) = (x, e)" by fastforce
    show thesis
    proof (cases x)
      case (Inl m)
      have "r = Inl (from_reason m) \<and> s' = s\<lparr>outside := e\<rparr>"
        using assms running False snd Inl
        by (cases "ordered c") (auto simp: enqueue_def access_defs Let_def)
      with refused [OF running] snd Inl show thesis by blast
    next
      case (Inr u)
      have "r = Inr () \<and> s' = s\<lparr>pending_ops := pending_ops s + (if ordered c then 1 else 0), outside := e\<rparr>"
        using assms running False snd Inr
        by (cases "ordered c") (auto simp: enqueue_def access_defs Let_def)
      moreover have "ordered c \<longrightarrow> unat (pending_ops s) < 64" using False by auto
      moreover have "try_send rt c (outside s) = (Inr (), e)" using snd Inr by simp
      ultimately show thesis using sent [OF running] by blast
    qed
  qed
qed

text \<open>The effect of an admission, over what the channel promises.\<close>

lemma try_inline_outside:
  assumes "try_inline io peer allow data s = (cnt, s')"
    and "\<And>s. contents (outside (peer s)) = contents (outside s)"
  shows "contents (outside s') = contents (outside s)"
  using assms by (auto simp: try_inline_def load_pending_def Let_def split: if_splits prod.splits sum.splits
      option.splits)

context command_channel begin

text \<open>Admission while the other threads leave the device and the channel alone.\<close>

lemma enqueue_quiet:
  assumes "enqueue rt peer c s = (r, s')"
    and keep: "\<And>s. map_option sent (session (peer s)) = map_option sent (session s)"
    and contents: "\<And>s. contents (outside (peer s)) = contents (outside s)"
  shows "map_option sent (session s') = map_option sent (session s) \<and>
    contents (outside s') = contents (outside s) @ (case r of Inl _ \<Rightarrow> [] | Inr _ \<Rightarrow> [c])"
  using assms(1)
  by (auto simp: enqueue_def load_stop_def fetch_add_pending_def fetch_sub_pending_def send_command_def
      Let_def keep contents split: if_splits prod.splits sum.splits dest!: try_send_Inr try_send_Inl)

lemma enqueue_effect:
  assumes "enqueue rt no_peer c s = (r, s')"
  shows "session s' = session s \<and> stop s' = stop s \<and>
    (case r of
       Inl _ \<Rightarrow> pending_ops s' = pending_ops s \<and> contents (outside s') = contents (outside s)
     | Inr _ \<Rightarrow> pending_ops s' = pending_ops s + (if ordered c then 1 else 0)
         \<and> (ordered c \<longrightarrow> unat (pending_ops s) < MAX_PENDING_OPS) \<and> \<not> stop s
         \<and> contents (outside s') = contents (outside s) @ [c])"
  using assms
  by (cases rule: enqueue_cases) (auto dest: try_send_Inr try_send_Inl)

end

text \<open>
  C19: admission is all or nothing. A command is refused without a trace: the reservation is
  released on every error path and the channel keeps its contents. An admitted command is appended
  to the channel; an ordered one is counted, and only fewer than 64 can be outstanding.
\<close>

theorem enqueue_all_or_nothing:
  assumes "command_channel rt contents" and "enqueue rt no_peer c s = (r, s')"
  shows "session s' = session s \<and>
    (case r of
       Inl _ \<Rightarrow> pending_ops s' = pending_ops s \<and> contents (outside s') = contents (outside s)
     | Inr _ \<Rightarrow> pending_ops s' = pending_ops s + (if ordered c then 1 else 0)
         \<and> (ordered c \<longrightarrow> unat (pending_ops s) < MAX_PENDING_OPS) \<and> \<not> stop s
         \<and> contents (outside s') = contents (outside s) @ [c])"
  using command_channel.enqueue_effect [OF assms] by blast

definition full_port :: "(tty, fifo) control" where
  "full_port = (control_new empty_fifo)\<lparr>pending_ops := 64, session := Some tty_new\<rparr>"

theorem enqueue_all_or_nothing_witness:
  "(\<exists>s. enqueue (fifo_runtime 96) no_peer \<lparr>cmd_id = 5, operation = Op_Drain\<rparr> full_port
        = (Inl (from_reason ''Too many pending serial operations''), s) \<and> pending_ops s = 64) \<and>
   (\<exists>s. enqueue (fifo_runtime 96) no_peer \<lparr>cmd_id = 0, operation = Op_ReadCredit 8 1\<rparr> full_port
        = (Inr (), s) \<and> pending_ops s = 64 \<and> length (queue (outside s)) = 1)"
proof -
  have fifo: "command_channel (fifo_runtime 96) queue" by (rule fifo_channel.command_channel_axioms)
  let ?d = "\<lparr>cmd_id = 5, operation = Op_Drain\<rparr>" and ?c = "\<lparr>cmd_id = 0, operation = Op_ReadCredit 8 1\<rparr>"
  obtain s where d: "enqueue (fifo_runtime 96) no_peer ?d full_port
      = (Inl (from_reason ''Too many pending serial operations''), s)"
    by (simp add: enqueue_def access_defs Let_def ordered_def full_port_def control_new_def)
  obtain t where c: "enqueue (fifo_runtime 96) no_peer ?c full_port = (Inr (), t)"
    by (simp add: enqueue_def access_defs Let_def ordered_def full_port_def control_new_def
        empty_fifo_def)
  show ?thesis
    using enqueue_all_or_nothing [OF fifo d] enqueue_all_or_nothing [OF fifo c] d c
    by (auto simp: full_port_def control_new_def empty_fifo_def ordered_def)
qed

subsection \<open>Writes\<close>

lemma native_write_cases:
  assumes "native_write io rt peer i data allow s = Some (r, s')"
  obtains (invalid) "CHUNK_SIZE < length data" "s' = s" "\<exists>e. r = Inl e \<and> status e = Status_InvalidArg"
  | (closed) "stop (peer s)" "s' = peer s" "r = Inl (from_reason ''Port is closed'')"
  | (all) "\<not> stop (peer s)" "length data \<le> CHUNK_SIZE"
      "try_inline io peer allow data (peer s) = (Some (length data), s')" "r = Inr True"
  | (rest) cnt s1 n q where "\<not> stop (peer s)" "length data \<le> CHUNK_SIZE"
      "try_inline io peer allow data (peer s) = (cnt, s1)"
      "n = (case cnt of None \<Rightarrow> 0 | Some k \<Rightarrow> k)" "n \<le> length data" "cnt \<noteq> Some (length data)"
      "enqueue rt peer \<lparr>cmd_id = i, operation = Op_Write (drop n data)\<rparr> s1 = (q, s')"
      "r = map_sum (\<lambda>e. e) (\<lambda>_. False) q"
proof (cases "length data \<le> CHUNK_SIZE")
  case False
  with assms invalid show thesis by (auto simp: native_write_def)
next
  case len: True
  show thesis
  proof (cases "stop (peer s)")
    case True
    with assms len closed show thesis by (auto simp: native_write_def load_stop_def)
  next
    case False
    obtain cnt s1 where inl: "try_inline io peer allow data (peer s) = (cnt, s1)" by fastforce
    show thesis
    proof (cases "cnt = Some (length data)")
      case True
      with assms len False inl all show thesis by (auto simp: native_write_def load_stop_def)
    next
      case part: False
      define n where "n = (case cnt of None \<Rightarrow> 0 | Some k \<Rightarrow> k)"
      obtain q s2 where e: "enqueue rt peer \<lparr>cmd_id = i, operation = Op_Write (drop n data)\<rparr> s1 = (q, s2)"
        by fastforce
      have "n \<le> length data \<and> s2 = s' \<and> r = map_sum (\<lambda>e. e) (\<lambda>_. False) q"
        using assms len False inl part e
        by (auto simp: native_write_def load_stop_def Let_def n_def [symmetric]
            split: option.splits sum.splits)
      with rest [OF False len inl n_def _ part] e show thesis by blast
    qed
  qed
qed


definition slow_port :: "(tty, fifo) control" where
  "slow_port = (control_new empty_fifo)\<lparr>session := Some (tty_new\<lparr>space := 2\<rparr>)\<rparr>"

lemmas write_eval = native_write_def try_inline_def enqueue_def access_defs Let_def slow_port_def
  control_new_def empty_fifo_def tty_try_write tty_new_def ordered_def slice_from_def


text \<open>
  An immediate write never overtakes. While an ordered operation is outstanding, while the
  caller has not allowed it, or while another thread holds the device, a write does not touch the
  device at all: the whole data goes through the queue, behind what is already there.
\<close>

lemma inline_write_never_overtakes:
  assumes "pending_ops s \<noteq> 0 \<or> \<not> allow \<or> held s \<or> poisoned s" and "data \<noteq> []"
    and "command_channel rt contents" and "native_write io rt no_peer i data allow s = Some (r, s')"
  shows "session s' = session s \<and> r \<noteq> Inr True
    \<and> contents (outside s') = contents (outside s) @
         (if r = Inr False then [\<lparr>cmd_id = i, operation = Op_Write data\<rparr>] else [])"
proof -
  have inl: "try_inline io no_peer allow data s = (None, s)"
    using assms(1) by (auto simp: try_inline_def load_pending_def)
  show ?thesis
    using assms(4)
  proof (cases rule: native_write_cases)
    case all
    with inl show ?thesis by simp
  next
    case (rest cnt s1 n q)
    have s1: "s1 = s" "n = 0" using rest inl by simp_all
    have "session s' = session s"
      using rest(7) unfolding s1 by (cases rule: enqueue_cases) auto
    with rest s1 command_channel.enqueue_effect [OF assms(3), of _ s q s'] show ?thesis
      by (cases q) auto
  qed auto
qed

lemma inline_write_never_overtakes_witness:
  "\<exists>s. native_write (unix_stream tty_fd) (fifo_runtime 96) no_peer 9 [1, 2, 3] True
         (slow_port\<lparr>pending_ops := 1\<rparr>) = Some (Inr False, s)
     \<and> session s = session slow_port
     \<and> queue (outside s) = [\<lparr>cmd_id = 9, operation = Op_Write [1, 2, 3]\<rparr>]"
proof -
  obtain s where w: "native_write (unix_stream tty_fd) (fifo_runtime 96) no_peer 9 [1, 2, 3] True
      (slow_port\<lparr>pending_ops := 1\<rparr>) = Some (Inr False, s)"
    by (simp add: write_eval)
  have "queue (outside slow_port) = []" by (simp add: slow_port_def control_new_def empty_fifo_def)
  with w inline_write_never_overtakes [OF _ _ fifo_channel.command_channel_axioms w]
  show ?thesis by auto
qed

subsection \<open>Vectored writes\<close>

lemma compact_data_slice: "compact_data w data = slice_from data w"
  by (auto simp: compact_data_def copy_within_front_def slice_from_def checked_sub_def)

text \<open>An ordinary buffer of the array: reading it has no effect.\<close>

definition buffer_element :: "bytes \<Rightarrow> ('p, 'e) element" where
  "buffer_element b s = (Inr (Some b), s)"

lemma gather_buffers:
  assumes "length data \<le> CHUNK_SIZE"
  shows "gather (map buffer_element bs) data s =
    (if length data + length (concat bs) \<le> CHUNK_SIZE then Some (Inr (data @ concat bs), s)
     else Some (Inl (napi_error_new Status_InvalidArg ''Invalid transfer size''), s))"
  using assms
proof (induction bs arbitrary: data)
  case Nil
  then show ?case by simp
next
  case (Cons b bs)
  then show ?case by (auto simp: buffer_element_def checked_sub_def)
qed

lemma gather_no_panic [panic_free]: "length data \<le> CHUNK_SIZE \<Longrightarrow> gather gs data s \<noteq> None"
  by (induction gs arbitrary: data s) (auto split: prod.splits sum.splits option.splits)

lemma gather_None: "gather gs [] s = None \<Longrightarrow> False"
  using gather_no_panic [of "[]" gs s] by simp

lemma native_writev_buffers:
  assumes "length bs \<le> 1024" and "unat (case hint of None \<Rightarrow> 0 | Some n \<Rightarrow> n) \<le> CHUNK_SIZE"
    and "\<not> stop (peer s)"
  shows "native_writev io rt peer i (map buffer_element bs) hint allow s =
    native_write io rt peer i (concat bs) (allow = Some True) (peer s)"
proof -
  have "gather (map buffer_element bs) [] (peer s) =
    (if length (concat bs) \<le> CHUNK_SIZE then Some (Inr (concat bs), peer s)
     else Some (Inl (napi_error_new Status_InvalidArg ''Invalid transfer size''), peer s))"
    using gather_buffers [of "[]" bs "peer s"] by simp
  moreover have "(case allow of None \<Rightarrow> False | Some b \<Rightarrow> b) = (allow = Some True)"
    by (auto split: option.split)
  ultimately show ?thesis
    using assms unfolding native_writev_def native_write_def load_stop_def compact_data_slice
    by (simp add: Let_def)
qed

text \<open>
  C20: a vectored write is the write of the concatenated buffers: for ordinary buffers, whatever
  the other threads do, \<open>writev\<close> returns what \<open>write\<close> of the concatenation returns, with the
  same effect on the device and on the channel, the moved tail of the vector included.
\<close>

theorem writev_is_write:
  assumes "length bs \<le> 1024" and "unat (case hint of None \<Rightarrow> 0 | Some n \<Rightarrow> n) \<le> CHUNK_SIZE"
    and "\<not> stop (peer s)"
  shows "native_writev io rt peer i (map buffer_element bs) hint allow s =
    native_write io rt peer i (concat bs) (allow = Some True) (peer s)"
  using assms by (rule native_writev_buffers)

theorem writev_is_write_witness:
  "\<exists>s. native_writev (unix_stream tty_fd) (fifo_runtime 96) no_peer 9
         (map buffer_element [[1], [2, 3]]) (Some 3) (Some True) slow_port = Some (Inr False, s)
     \<and> map_option line (session s) = Some [1, 2]
     \<and> queue (outside s) = [\<lparr>cmd_id = 9, operation = Op_Write [3]\<rparr>]"
proof -
  have "\<not> stop (no_peer slow_port)" by (simp add: slow_port_def control_new_def)
  with writev_is_write [of "[[1], [2, 3]]" "Some 3" no_peer slow_port "unix_stream tty_fd"
    "fifo_runtime 96" 9 "Some True"] show ?thesis
    by (simp add: write_eval)
qed

text \<open>
  The buffers are read before the port is checked again: if an accessor among them closed the
  port, the write is refused and the device is not touched, although the port was open when the
  call began.
\<close>

lemma writev_rechecks_close:
  assumes "\<not> stop (peer s)" and "unat (case hint of None \<Rightarrow> 0 | Some n \<Rightarrow> n) \<le> CHUNK_SIZE"
    and "length gs \<le> 1024" and "gather gs [] (peer s) = Some (Inr data, t)" and "stop (peer t)"
  shows "native_writev io rt peer i gs hint allow s =
    Some (Inl (from_reason ''Port is closed''), peer t)"
  using assms by (simp add: native_writev_def load_stop_def Let_def)

definition closing_element :: "('p, fifo) element" where
  "closing_element s = (Inr (Some [1, 2]), native_close (fifo_runtime 96) no_peer s)"

lemma writev_rechecks_close_witness:
  "\<exists>t. native_writev (unix_stream tty_fd) (fifo_runtime 96) no_peer 9 [closing_element] None (Some True)
         slow_port = Some (Inl (from_reason ''Port is closed''), t)
     \<and> map_option line (session t) = Some []"
proof -
  have g: "gather [closing_element] [] (no_peer slow_port)
      = Some (Inr [1, 2], native_close (fifo_runtime 96) no_peer slow_port)"
    by (simp add: closing_element_def checked_sub_def)
  show ?thesis
    using writev_rechecks_close [of no_peer slow_port None "[closing_element]" "[1, 2]"
        "native_close (fifo_runtime 96) no_peer slow_port" "unix_stream tty_fd" "fifo_runtime 96" 9 "Some True"] g
    by (simp add: native_close_def control_stop_def slow_port_def control_new_def tty_new_def Let_def)
qed

subsection \<open>No panics\<close>

lemma try_inline_bounded:
  assumes "bounded_stream io" and "try_inline io peer allow data s = (Some n, s')"
  shows "n \<le> length data"
  using assms(2) bounded_stream_write [OF assms(1)]
  by (auto simp: try_inline_def load_pending_def Let_def split: if_splits prod.splits sum.splits
      option.splits)

lemma native_write_no_panic [panic_free]:
  assumes "bounded_stream io"
  shows "native_write io rt peer i data allow s \<noteq> None"
  by (auto simp: native_write_def Let_def split: prod.splits sum.splits option.splits
      dest: try_inline_bounded [OF assms])

lemma native_writev_no_panic [panic_free]:
  assumes "bounded_stream io"
  shows "native_writev io rt peer i gs hint allow s \<noteq> None"
  unfolding native_writev_def compact_data_slice
  by (auto simp: Let_def split: prod.splits sum.splits
      option.splits dest: try_inline_bounded [OF assms] dest!: gather_None)

text \<open>
  C34: the operations of the JavaScript thread never panic, so they never unwind into Node-API:
  for any data, any array of buffers whose accessors may do anything, and any behaviour of the
  device and of the other threads.
\<close>

theorem native_operations_no_panic:
  assumes "bounded_stream io"
  shows "native_write io rt peer i data allow s \<noteq> None
    \<and> native_writev io rt peer i gs hint allow' s \<noteq> None"
  using native_write_no_panic [OF assms] native_writev_no_panic [OF assms] by blast

theorem native_operations_no_panic_witness:
  "native_writev (unix_stream tty_fd) (fifo_runtime 96) no_peer 9 [closing_element, closing_element]
     None (Some True) slow_port \<noteq> None"
  using native_operations_no_panic [OF tty_bounded] by blast

subsection \<open>Requests\<close>

text \<open>
  Every operation checks its arguments before it touches the port. A read asks for between 1
  byte and 64 KiB, credit grants up to 64 KiB and 32 events, a control request names one of six
  operations; anything else is an invalid-argument error that leaves the shared state alone, and
  anything admitted is queued as exactly the command it names.
\<close>

lemma requests_checked:
  "native_read rt peer i len s =
     (if 1 \<le> unat len \<and> unat len \<le> 65536
      then enqueue rt peer \<lparr>cmd_id = i, operation = Op_Read (unat len)\<rparr> s
      else (Inl (napi_error_new Status_InvalidArg ''Invalid transfer size''), s))
   \<and> read_credit rt peer bs n s =
     (if 1 \<le> unat bs \<and> unat bs \<le> 65536 \<and> 1 \<le> unat n \<and> unat n \<le> 32
      then enqueue rt peer \<lparr>cmd_id = 0, operation = Op_ReadCredit (unat bs) (unat n)\<rparr> s
      else (Inl (napi_error_new Status_InvalidArg ''Invalid read credit''), s))
   \<and> native_request rt peer i op val s =
     (if op \<in> {''update'', ''set'', ''get'', ''getBaudRate'', ''flush'', ''drain''}
      then enqueue rt peer \<lparr>cmd_id = i, operation = the (request_operation op val)\<rparr> s
      else (Inl (napi_error_new Status_InvalidArg ''Unknown serial control operation''), s))"
proof -
  have pos: "x \<noteq> 0 \<longleftrightarrow> 1 \<le> unat x" for x :: u32
    by (simp add: Suc_le_eq unat_gt_0)
  show ?thesis
    unfolding native_read_def read_credit_def native_request_def request_operation_def pos
    by auto
qed

end
