(* ===== verification/Port_System.thy ===== *)
theory Port_System
  imports Reactor_Correct Native_Port_Correct
begin

text \<open>
  A port as a whole: the JavaScript thread and the reactor on one shared control block, interleaved at
  every shared access. The specification is a pipe of bytes. What the JavaScript thread may do is the
  relation \<open>js_access\<close> on the shared state and a ghost; under any number of such accesses between
  two of its own, every turn of \<open>Reactor\<close> keeps an invariant that accounts for each submitted byte
  and each pending operation (\<open>run_open_inv_of\<close>).
\<close>

subsection \<open>The specification\<close>

text \<open>
  Bytes that were submitted and are not yet on the line, and the bytes on the line. Bytes are submitted
  at the end and transmitted from the front.
\<close>

record pipe =
  on_line :: bytes
  in_flight :: bytes

inductive pipe_step :: "pipe \<Rightarrow> pipe \<Rightarrow> bool" where
  Submit: "pipe_step p (p\<lparr>in_flight := in_flight p @ xs\<rparr>)"
| Transmit: "k \<le> length (in_flight p) \<Longrightarrow>
    pipe_step p (p\<lparr>on_line := on_line p @ take k (in_flight p), in_flight := drop k (in_flight p)\<rparr>)"

inductive_simps pipe_step_iff: "pipe_step p q"

definition pipe_total :: "pipe \<Rightarrow> bytes" where
  "pipe_total p = on_line p @ in_flight p"

lemma pipe_step_grows:
  "pipe_step p q \<Longrightarrow> prefix (on_line p) (on_line q) \<and> prefix (pipe_total p) (pipe_total q)"
  by (auto simp: pipe_step_iff pipe_total_def)

lemma pipe_steps_grow:
  "pipe_step\<^sup>*\<^sup>* p q \<Longrightarrow> prefix (on_line p) (on_line q) \<and> prefix (pipe_total p) (pipe_total q)"
  by (induction rule: rtranclp_induct) (auto dest!: pipe_step_grows intro: prefix_order.trans)

text \<open>These two facts characterise the executions of the pipe.\<close>

lemma pipe_steps_iff:
  "pipe_step\<^sup>*\<^sup>* p q \<longleftrightarrow> prefix (on_line p) (on_line q) \<and> prefix (pipe_total p) (pipe_total q)"
proof
  assume "prefix (on_line p) (on_line q) \<and> prefix (pipe_total p) (pipe_total q)"
  then obtain ys zs where q: "on_line q = on_line p @ ys" "pipe_total q = pipe_total p @ zs"
    by (auto elim!: prefixE)
  define r where "r = p\<lparr>in_flight := in_flight p @ zs\<rparr>"
  have "ys @ in_flight q = in_flight r" using q by (simp add: pipe_total_def r_def)
  then have split: "take (length ys) (in_flight r) = ys" "drop (length ys) (in_flight r) = in_flight q"
    "length ys \<le> length (in_flight r)"
    by (simp_all flip: \<open>ys @ in_flight q = in_flight r\<close>)
  have "on_line q = on_line r @ ys" using q by (simp add: r_def)
  then have "q = r\<lparr>on_line := on_line r @ ys, in_flight := in_flight q\<rparr>" by simp
  with Transmit [OF split(3)] have "pipe_step r q" unfolding split(1,2) by simp
  moreover have "pipe_step p r" unfolding r_def by (rule Submit)
  ultimately show "pipe_step\<^sup>*\<^sup>* p q" by simp
qed (rule pipe_steps_grow)

subsection \<open>What the device and the runtime do to the bytes\<close>

definition quiet :: "('p \<Rightarrow> bytes) \<Rightarrow> ('p \<Rightarrow> 'a \<times> 'p) \<Rightarrow> bool" where
  "quiet sent f \<longleftrightarrow> (\<forall>p. sent (snd (f p)) = sent p)"

lemma quietD: "quiet sent f \<Longrightarrow> f p = (x, p') \<Longrightarrow> sent p' = sent p"
  by (metis quiet_def snd_conv)

text \<open>Only writes put bytes on the line, and a write puts those it reports.\<close>

locale device_wire = wire io sent for io :: "('p, 'z) serial_stream_scheme" and sent +
  assumes poll_read_quiet: "quiet sent (poll_read_io io n)"
    and poll_write_sent: "poll_write_io io xs p = (r, p') \<Longrightarrow>
      sent p' = sent p @ (case r of Ready (Inr n) \<Rightarrow> take n xs | _ \<Rightarrow> [])"
    and try_read_quiet: "quiet sent (try_read io n)"
    and drain_quiet: "quiet sent (drain_output io)"
    and bytes_quiet: "quiet sent (bytes_to_write (control_port io))"
    and set_baud_quiet: "quiet sent (ctl_set_baud_rate (control_port io) b)"
    and baud_quiet: "quiet sent (ctl_baud_rate (control_port io))"
    and dtr_quiet: "quiet sent (write_data_terminal_ready (control_port io) on)"
    and rts_quiet: "quiet sent (write_request_to_send (control_port io) on)"
    and set_break_quiet: "quiet sent (set_break (control_port io))"
    and clear_break_quiet: "quiet sent (clear_break (control_port io))"
    and cts_quiet: "quiet sent (read_clear_to_send (control_port io))"
    and dsr_quiet: "quiet sent (read_data_set_ready (control_port io))"
    and dcd_quiet: "quiet sent (read_carrier_detect (control_port io))"
    and clear_quiet: "quiet sent (clear_all (control_port io))"
    and tcgetattr_quiet: "quiet sent (tcgetattr (control_port io))"
    and tcsetattr_quiet: "quiet sent (tcsetattr (control_port io) t)"
begin

lemmas control_quiet = quietD [OF set_baud_quiet] quietD [OF baud_quiet] quietD [OF dtr_quiet]
  quietD [OF rts_quiet] quietD [OF set_break_quiet] quietD [OF clear_break_quiet]
  quietD [OF cts_quiet] quietD [OF dsr_quiet] quietD [OF dcd_quiet] quietD [OF clear_quiet]
  quietD [OF tcgetattr_quiet] quietD [OF tcsetattr_quiet]

lemma set_baud_rate_quiet: "set_baud_rate os io b p = (r, p') \<Longrightarrow> sent p' = sent p"
  by (auto simp: set_baud_rate_def Let_def split: if_splits prod.splits sum.splits bool.splits
      dest!: control_quiet)

lemma get_baud_rate_quiet: "get_baud_rate os io p = (r, p') \<Longrightarrow> sent p' = sent p"
  by (auto simp: get_baud_rate_def Let_def split: if_splits prod.splits sum.splits dest!: control_quiet)

lemma control_operation_quiet: "control_operation os io c p = (r, p') \<Longrightarrow> sent p' = sent p"
  by (auto simp: control_operation_def Let_def split: operation.splits if_splits prod.splits sum.splits
      dest!: control_quiet set_baud_rate_quiet get_baud_rate_quiet)

lemma poll_sent:
  assumes "poll io tp p w rd wr = (ready, tp', p', w', rd')"
  shows "sent p' = sent p @ (case ready of
    Ready (Inr (Tr_Write n)) \<Rightarrow> (case wr of Some xs \<Rightarrow> take n xs | None \<Rightarrow> []) | _ \<Rightarrow> [])"
proof -
  have rd: "sent q = sent p \<and> (\<forall>n. r \<noteq> Ready (Inr (Tr_Write n)))" if "poll_read io p w rd = (r, q, v, b)" for p w r q v b
    using that by (auto simp: poll_read_def retry_interrupted_def
        split: option.splits prod.splits poll.splits sum.splits if_splits dest: quietD [OF poll_read_quiet])
  have wr: "sent q = sent p @ (case r of
      Ready (Inr (Tr_Write n)) \<Rightarrow> (case wr of Some xs \<Rightarrow> take n xs | None \<Rightarrow> []) | _ \<Rightarrow> [])"
    if "poll_write io p w wr = (r, q, v)" for p w r q v
    using that by (auto simp: poll_write_def retry_interrupted_def
        split: option.splits prod.splits poll.splits sum.splits if_splits dest!: poll_write_sent)
  obtain r1 q1 v1 b1 where r1: "poll_read io p w rd = (r1, q1, v1, b1)" by (metis prod_cases4)
  obtain r2 q2 v2 where w2: "poll_write io q1 v1 wr = (r2, q2, v2)" by (metis prod_cases3)
  obtain r3 q3 v3 where w3: "poll_write io p w wr = (r3, q3, v3)" by (metis prod_cases3)
  obtain r4 q4 v4 b4 where r4: "poll_read io q3 v3 rd = (r4, q4, v4, b4)" by (metis prod_cases4)
  show ?thesis
  proof (cases "write_first tp")
    case True
    with assms w3 r4 have "(ready, p') = (if r3 = Pending then (r4, q4) else (r3, q3))"
      by (auto simp: poll_def split: poll.splits)
    with wr [OF w3] rd [OF r4] show ?thesis by (auto split: if_splits poll.splits sum.splits transfer.splits)
  next
    case False
    with assms r1 w2 have "(ready, p') = (if r1 = Pending then (r2, q2) else (r1, q1))"
      by (auto simp: poll_def split: poll.splits)
    with wr [OF w2] rd [OF r1] show ?thesis by (auto split: if_splits poll.splits sum.splits transfer.splits)
  qed
qed

end

subsection \<open>What the JavaScript thread may do\<close>

text \<open>The number of commands of a list that are counted as pending operations.\<close>

definition outstanding :: "command list \<Rightarrow> nat" where
  "outstanding cs = length (filter ordered cs)"

lemma outstanding_simps [simp]:
  "outstanding [] = 0" "outstanding (c # cs) = (if ordered c then 1 else 0) + outstanding cs"
  "outstanding (cs @ ds) = outstanding cs + outstanding ds"
  by (simp_all add: outstanding_def)

lemma unordered_payload: "\<not> ordered c \<Longrightarrow> payload c = []"
  by (cases "operation c") (auto simp: ordered_def)

lemma outstanding_0: "outstanding cs = 0 \<Longrightarrow> payloads cs = []"
  by (induction cs) (auto split: if_splits)

text \<open>
  A ghost of the JavaScript thread: the bytes it has submitted, and whether it holds a place in the
  counter that is not a command's yet, one it must give back or one it may use.
\<close>

datatype place = No_Place | Refused_Place | Admitted_Place

record ghost =
  submitted :: bytes
  place :: place

text \<open>
  Its atomic accesses to the shared state: closing, a call of the runtime that leaves the commands
  alone, taking and giving back a place in the counter, sending a command, and an immediate write,
  which needs the lock and an empty counter.
\<close>

inductive js_access ::
  "('e \<Rightarrow> command list) \<Rightarrow> ('p \<Rightarrow> bytes) \<Rightarrow> ghost \<times> ('p, 'e) control \<Rightarrow> ghost \<times> ('p, 'e) control \<Rightarrow> bool"
  for contents sent where
  Set_Stop: "js_access contents sent (g, s) (g, s\<lparr>stop := True\<rparr>)"
| Runtime: "contents e = contents (outside s) \<Longrightarrow> js_access contents sent (g, s) (g, s\<lparr>outside := e\<rparr>)"
| Reserve: "place g = No_Place \<Longrightarrow> js_access contents sent (g, s)
    (g\<lparr>place := if unat (pending_ops s) \<ge> MAX_PENDING_OPS then Refused_Place else Admitted_Place\<rparr>,
     s\<lparr>pending_ops := pending_ops s + 1\<rparr>)"
| Release: "place g \<noteq> No_Place \<Longrightarrow> js_access contents sent (g, s)
    (g\<lparr>place := No_Place\<rparr>, s\<lparr>pending_ops := pending_ops s - 1\<rparr>)"
| Send: "contents e = contents (outside s) @ [c] \<Longrightarrow> (ordered c \<Longrightarrow> place g = Admitted_Place) \<Longrightarrow>
    js_access contents sent (g, s)
      (g\<lparr>submitted := submitted g @ payload c, place := if ordered c then No_Place else place g\<rparr>,
       s\<lparr>outside := e\<rparr>)"
| Write: "session s = Some p \<Longrightarrow> \<not> held s \<Longrightarrow> pending_ops s = 0 \<Longrightarrow> place g = No_Place \<Longrightarrow>
    sent q = sent p @ xs \<Longrightarrow>
    js_access contents sent (g, s) (g\<lparr>submitted := submitted g @ xs\<rparr>, s\<lparr>session := Some q\<rparr>)"

inductive_cases js_accessE: "js_access contents sent x y"

text \<open>The reactor's calls of the runtime keep the ghost, and the commands except for \<open>recv\<close>.\<close>

locale tracked_channel = command_channel rt contents
  for rt :: "'e runtime" and contents :: "'e \<Rightarrow> command list" +
  fixes gh :: "'e \<Rightarrow> ghost"
  assumes recv_gh: "recv rt e = (m, e') \<Longrightarrow> gh e' = gh e"
    and call_gh: "call_nonblocking rt ev e = (st, e') \<Longrightarrow> gh e' = gh e"
    and notified_view: "notified rt e = (b, e') \<Longrightarrow> contents e' = contents e \<and> gh e' = gh e"
    and proceed_view: "poll_proceed rt e = (b, e') \<Longrightarrow> contents e' = contents e \<and> gh e' = gh e"
    and sleep_view: "sleep_elapsed rt e = (b, e') \<Longrightarrow> contents e' = contents e \<and> gh e' = gh e"
    and join_view: "join_error rt e = (j, e') \<Longrightarrow> contents e' = contents e \<and> gh e' = gh e"

subsection \<open>The invariant of the whole\<close>

text \<open>
  What was submitted is what is on the line, what the reactor holds (\<open>c\<close>, of \<open>k\<close> commands) and what
  the channel holds; the counter counts the commands of both and the place of the JavaScript thread.
  \<open>w0\<close> and \<open>h0\<close> are an earlier line and history.
\<close>

definition sys_inv ::
  "('e \<Rightarrow> command list) \<Rightarrow> ('p \<Rightarrow> bytes) \<Rightarrow> bytes \<Rightarrow> bytes \<Rightarrow> bytes \<Rightarrow> nat \<Rightarrow> ghost \<Rightarrow> ('p, 'e) control \<Rightarrow> bool"
where
  "sys_inv contents sent w0 h0 c k g s \<longleftrightarrow>
     (\<exists>p. session s = Some p \<and> prefix w0 (sent p)
        \<and> submitted g = sent p @ c @ payloads (contents (outside s)))
     \<and> prefix h0 (submitted g)
     \<and> unat (pending_ops s) = k + outstanding (contents (outside s)) + (if place g = No_Place then 0 else 1)
     \<and> k + outstanding (contents (outside s)) \<le> MAX_PENDING_OPS
     \<and> (place g = Admitted_Place \<longrightarrow> k + outstanding (contents (outside s)) < MAX_PENDING_OPS)
     \<and> (k = 0 \<longrightarrow> c = [])"

lemma sys_inv_pending: "sys_inv contents sent w0 h0 c k g s \<Longrightarrow> unat (pending_ops s) \<le> Suc MAX_PENDING_OPS"
  by (auto simp: sys_inv_def split: if_splits)

lemma unat_add_one: "unat (n :: usize) \<le> Suc MAX_PENDING_OPS \<Longrightarrow> unat (n + 1) = unat n + 1"
  by (simp add: unat_word_ariths(1))

lemma js_access_inv:
  assumes "js_access contents sent (g, s) (g', s')" and "sys_inv contents sent w0 h0 c k g s"
  shows "sys_inv contents sent w0 h0 c k g' s'"
  using assms(1)
proof (cases rule: js_access.cases)
  case Reserve
  with assms(2) unat_add_one [OF sys_inv_pending [OF assms(2)]] show ?thesis by (auto simp: sys_inv_def)
next
  case Release
  with assms(2) have "unat (pending_ops s) \<noteq> 0" by (auto simp: sys_inv_def)
  then have "unat (pending_ops s - 1) = unat (pending_ops s) - 1" by (simp add: unat_minus_one unat_eq_0)
  with Release assms(2) show ?thesis by (auto simp: sys_inv_def)
next
  case (Send e x)
  with assms(2) show ?thesis
    by (auto simp: sys_inv_def unordered_payload intro: prefix_prefix simp flip: append_assoc)
next
  case (Write p q xs)
  then have "k = 0" "outstanding (contents (outside s)) = 0" using assms(2) by (auto simp: sys_inv_def)
  with Write assms(2) outstanding_0 [of "contents (outside s)"] show ?thesis
    by (auto simp: sys_inv_def intro: prefix_prefix simp del: concat_eq_Nil_conv)
qed (use assms(2) in \<open>auto simp: sys_inv_def\<close>)

lemma js_accesses_inv:
  assumes "(js_access contents sent)\<^sup>*\<^sup>* (g, s) (g', s')" and "sys_inv contents sent w0 h0 c k g s"
  shows "sys_inv contents sent w0 h0 c k g' s'"
  using assms by (induction rule: rtranclp_induct2) (auto intro: js_access_inv)

lemma js_accesses_held:
  "(js_access contents sent)\<^sup>*\<^sup>* (g, s) (g', s') \<Longrightarrow> held s' = held s \<and> (held s \<longrightarrow> session s' = session s)"
  by (induction rule: rtranclp_induct2) (auto elim: js_accessE)

lemma sys_inv_session:
  "sys_inv contents sent w0 h0 c k g s \<Longrightarrow> session s = Some p \<Longrightarrow> sent p' = sent p \<Longrightarrow>
     sys_inv contents sent w0 h0 c k g (s\<lparr>session := Some p'\<rparr>)"
  by (auto simp: sys_inv_def)

lemma sys_inv_held [simp]:
  "sys_inv contents sent w0 h0 c k g (s\<lparr>held := b\<rparr>) = sys_inv contents sent w0 h0 c k g s"
  "sys_inv contents sent w0 h0 c k g (s\<lparr>held := b, session := x\<rparr>) =
     sys_inv contents sent w0 h0 c k g (s\<lparr>session := x\<rparr>)"
  by (simp_all add: sys_inv_def)

subsection \<open>The reactor keeps it\<close>

text \<open>The bytes of the queued commands that the port has not accepted.\<close>

definition unsent :: "reactor \<Rightarrow> bytes" where
  "unsent r = drop (written r) (payloads (commands r))"

lemma unsent_frame [simp]:
  "unsent (note_obs x r) = unsent r" "unsent (r\<lparr>read_buffer := b\<rparr>) = unsent r"
  "unsent (r\<lparr>window := w\<rparr>) = unsent r" "unsent (r\<lparr>transfers := t\<rparr>) = unsent r"
  "unsent (r\<lparr>read := x'\<rparr>) = unsent r" "unsent (r\<lparr>streaming := b'\<rparr>) = unsent r"
  "unsent (grow_buffer n r) = unsent r"
  by (simp_all add: unsent_def)

lemma unsent_same: "same_queue r r' \<Longrightarrow> unsent r' = unsent r \<and> commands r' = commands r"
  by (simp add: unsent_def same_queue_def)

text \<open>
  The other thread makes any number of accesses between two of the reactor; \<open>lim\<close> is a bound on the
  counter they keep.
\<close>

locale port_system = device_wire io sent + tracked_channel rt contents gh
  for io :: "('p, 'z) serial_stream_scheme" and sent :: "'p \<Rightarrow> bytes"
    and rt :: "'e runtime" and contents :: "'e \<Rightarrow> command list" and gh :: "'e \<Rightarrow> ghost" +
  fixes peer :: "('p, 'e) peer" and w0 :: bytes and h0 :: bytes and lim :: nat
  assumes peer_js: "(js_access contents sent)\<^sup>*\<^sup>* (gh (outside s), s) (gh (outside (peer s)), peer s)"
    and peer_lim: "sys_inv contents sent w0 h0 c k (gh (outside s)) s \<Longrightarrow> unat (pending_ops s) \<le> lim \<Longrightarrow>
      unat (pending_ops (peer s)) \<le> lim"
    and bounded: "bounded_stream io"
begin

definition inv :: "bytes \<Rightarrow> nat \<Rightarrow> ('p, 'e) control \<Rightarrow> bool" where
  "inv c k s \<longleftrightarrow> sys_inv contents sent w0 h0 c k (gh (outside s)) s \<and> unat (pending_ops s) \<le> lim"

abbreviation inv_of :: "reactor \<Rightarrow> ('p, 'e) control \<Rightarrow> bool" where
  "inv_of r s \<equiv> inv (unsent r) (length (commands r)) s"

lemma peer_inv: "inv c k s \<Longrightarrow> inv c k (peer s)"
  unfolding inv_def using js_accesses_inv [OF peer_js] peer_lim by blast

lemma peer_held: "held s \<Longrightarrow> held (peer s) \<and> session (peer s) = session s"
  using js_accesses_held [OF peer_js [of s]] by simp

lemma inv_outside:
  "inv c k s \<Longrightarrow> contents e = contents (outside s) \<and> gh e = gh (outside s) \<Longrightarrow> inv c k (s\<lparr>outside := e\<rparr>)"
  by (simp add: inv_def sys_inv_def)

lemma inv_session:
  "inv c k s \<Longrightarrow> session s = Some p \<Longrightarrow> sent p' = sent p \<Longrightarrow> inv c k (s\<lparr>session := Some p'\<rparr>)"
  by (auto simp: inv_def intro: sys_inv_session)

lemma inv_held [simp]:
  "inv c k (s\<lparr>held := b\<rparr>) = inv c k s" "inv c k (s\<lparr>held := b, session := x\<rparr>) = inv c k (s\<lparr>session := x\<rparr>)"
  by (simp_all add: inv_def)

lemma load_inv:
  "load_stop peer s = (b, s') \<Longrightarrow> inv c k s \<Longrightarrow> inv c k s'"
  "load_pending peer s = (n, s') \<Longrightarrow> inv c k s \<Longrightarrow> inv c k s'"
  by (auto simp: load_stop_def load_pending_def Let_def peer_inv)

lemma publish_inv: "publish rt peer ev r s = (ok, r', s') \<Longrightarrow> inv c k s \<Longrightarrow> inv c k s'"
  by (auto simp: publish_def Let_def split: prod.splits
      intro!: inv_outside peer_inv dest: call_contents call_gh)

lemma send_inv: "send rt peer ev r s = (ok, r', s') \<Longrightarrow> inv c k s \<Longrightarrow> inv c k s'"
  unfolding send_def by (rule publish_inv)

lemma send_read_inv: "send_read rt peer len r s = Some (ok, r', s') \<Longrightarrow> inv c k s \<Longrightarrow> inv c k s'"
  by (auto simp: send_read_def split: option.splits dest: publish_inv)

lemma fetch_sub_inv:
  assumes "inv c (Suc k) s" and "k = 0 \<longrightarrow> c = []"
  shows "inv c k (fetch_sub_pending peer s)"
proof -
  have i: "inv c (Suc k) (peer s)" by (rule peer_inv [OF assms(1)])
  then have "pending_ops (peer s) \<noteq> 0" by (auto simp: inv_def sys_inv_def)
  then have "unat (pending_ops (peer s) - 1) = unat (pending_ops (peer s)) - 1" by (simp add: unat_minus_one)
  with i assms(2) show ?thesis by (auto simp: inv_def sys_inv_def)
qed

lemma with_port_inv:
  assumes "with_port peer f s = (x, s')" and "inv c k s" and "\<And>p y p'. f p = (y, p') \<Longrightarrow> sent p' = sent p"
  shows "inv c k s'"
  using peer_inv [OF assms(2)] assms(1,3)
  by (auto simp: with_port_def locked_port_def Let_def split: if_splits option.splits prod.splits
      intro: inv_session)

lemma drain_blocking_inv:
  assumes "drain_blocking io rt peer s = (x, s')" and "inv c k s"
  shows "inv c k s'"
proof -
  have i: "inv c k (peer s)" by (rule peer_inv [OF assms(2)])
  have j: "inv c k (t\<lparr>outside := e\<rparr>)" if "join_error rt (outside t) = (m, e)" "inv c k t" for t m e
    using that join_view by (auto intro: inv_outside)
  show ?thesis
  proof (cases "locked_port (peer s)")
    case (Inl e)
    with assms(1) i j show ?thesis by (auto simp: drain_blocking_def Let_def split: prod.splits)
  next
    case (Inr p)
    then have p: "session (peer s) = Some p" by (auto simp: locked_port_def split: if_splits option.splits)
    obtain y q where d: "drain_output io p = (y, q)" by fastforce
    let ?h = "peer ((peer s)\<lparr>held := True\<rparr>)"
    have h: "inv c k ?h" "session ?h = Some p" using i p peer_held [of "(peer s)\<lparr>held := True\<rparr>"] by (simp_all add: peer_inv)
    have "inv c k (?h\<lparr>held := False, session := Some q\<rparr>)"
      using inv_session [OF h quietD [OF drain_quiet d]] by simp
    with assms(1) Inr d j show ?thesis by (auto simp: drain_blocking_def Let_def split: prod.splits)
  qed
qed

lemma with_port_quiet:
  "with_port peer (control_operation os io x) s = (y, s') \<Longrightarrow> inv c k s \<Longrightarrow> inv c k s'"
  "with_port peer (bytes_to_write (control_port io)) s = (n, s') \<Longrightarrow> inv c k s \<Longrightarrow> inv c k s'"
  by (erule (1) with_port_inv, erule control_operation_quiet)
    (erule (1) with_port_inv, erule quietD [OF bytes_quiet])

lemma complete_front_inv:
  assumes "complete_front os io rt peer x r s = (f, r', s')" and "inv c k s"
  shows "inv c k s'"
  using assms
  by (auto simp: complete_front_def split: operation.splits if_splits prod.splits sum.splits
      dest!: drain_blocking_inv with_port_quiet)

lemma drain_commands_inv_of:
  assumes "drain_commands os io rt peer cs r s = (res, r', s')"
    and "core_inv (r\<lparr>commands := cs\<rparr>)" and "live_inv r" and "inv_of (r\<lparr>commands := cs\<rparr>) s"
  shows "inv_of r' s'"
  using assms
proof (induction cs arbitrary: r s)
  case Nil
  then show ?case by (auto simp: unsent_def)
next
  case (Cons c cs)
  from Cons.prems(1-3) show ?case
  proof (cases rule: drain_commands_step)
    case stopped
    with Cons.prems(4) load_inv(1) show ?thesis by blast
  next
    case (waiting f s1)
    from complete_front_inv [OF waiting(2)] load_inv(1) [OF waiting(1)] Cons.prems(4) waiting(3) show ?thesis
      by simp
  next
    case (completed s1 ev s2 ok r3 s3)
    let ?q = "r\<lparr>commands := c # cs\<rparr>"
    have "inv (unsent ?q) (length (commands ?q)) s2"
      using complete_front_inv [OF completed(2)] load_inv(1) [OF completed(1)] Cons.prems(4) by blast
    moreover have "unsent ?q = payloads cs" using completed(4) by (simp add: unsent_def)
    ultimately have "inv (payloads cs) (length cs) (fetch_sub_pending peer s2)"
      by (intro fetch_sub_inv) simp_all
    then have "inv_of r3 s3" using send_inv [OF completed(5)] completed(6) by (simp add: unsent_def)
    with completed(7-10) Cons.IH [of r3 s3] show ?thesis by (cases ok) auto
  qed
qed

text \<open>While a burst holds the port, the session is stale but agrees on the bytes sent.\<close>

definition burst_inv :: "bytes \<Rightarrow> nat \<Rightarrow> 'p \<Rightarrow> 'p \<Rightarrow> ('p, 'e) control \<Rightarrow> bool" where
  "burst_inv c k q port s \<longleftrightarrow> inv c k s \<and> held s \<and> session s = Some q \<and> sent port = sent q"

lemma burst_inv_peer: "burst_inv c k q port s \<Longrightarrow> burst_inv c k q port (peer s)"
  using peer_held [of s] by (simp add: burst_inv_def peer_inv)

lemma burst_inv_proceed:
  "poll_proceed rt (outside s) = (b, e) \<Longrightarrow> burst_inv c k q port s \<Longrightarrow> burst_inv c k q port (s\<lparr>outside := e\<rparr>)"
  using proceed_view [of "outside s" b e] by (simp add: burst_inv_def inv_outside)

lemma burst_inv_read:
  "try_read io n port = (x, port') \<Longrightarrow> burst_inv c k q port s \<Longrightarrow> burst_inv c k q port' s"
  using quietD [OF try_read_quiet] by (simp add: burst_inv_def)

lemma collect_ready_inv:
  assumes "collect_ready io rt peer n first batch port r s = Some (res, first', batch', port', r', s')"
    and "burst_inv c k q port s"
  shows "burst_inv c k q port' s' \<and> same_queue r r'"
  using assms
proof (induction n arbitrary: first batch port r s)
  case 0
  then show ?case by simp
next
  case (Suc n)
  define capacity where "capacity = min (w_bytes (window r)) (w_size (window r))"
  define r1 where "r1 = grow_buffer capacity r"
  have r1: "same_queue r r1" by (simp add: r1_def same_queue_def)
  have i: "burst_inv c k q port (peer s)" "burst_inv c k q port (peer (peer s))"
    using Suc.prems(2) by (simp_all add: burst_inv_peer)
  obtain b e where p: "poll_proceed rt (outside (peer (peer s))) = (b, e)" by fastforce
  define s2 where "s2 = (peer (peer s))\<lparr>outside := e\<rparr>"
  obtain x port1 where t: "try_read io capacity port = (x, port1)" by fastforce
  have i2: "burst_inv c k q port s2" "burst_inv c k q port1 s2"
    using burst_inv_proceed [OF p i(2)] burst_inv_read [OF t] by (simp_all add: s2_def)
  have rec: "burst_inv c k q port' s' \<and> same_queue r r'"
    if "collect_ready io rt peer n f2 b2 port1 r2 s2 = Some (res, first', batch', port', r', s')" "same_queue r r2"
    for f2 b2 r2
    using Suc.IH [OF that(1) i2(2)] that(2) same_queue_trans by blast
  show ?case
    using Suc.prems(1) i i2 r1
    by (auto simp: Let_def load_stop_def load_pending_def capacity_def [symmetric] r1_def [symmetric]
        p s2_def [symmetric] t split: if_splits prod.splits sum.splits option.splits dest!: rec)
qed

lemma publish_followers_inv:
  "publish_followers rt peer first batch r s = (ok, r', s') \<Longrightarrow> inv c k s \<Longrightarrow> inv c k s' \<and> same_queue r r'"
  by (auto simp: publish_followers_def split: option.splits if_splits dest: publish_inv publish_log)

lemma send_ready_reads_inv:
  assumes "send_ready_reads io rt peer len r s = Some (res, r', s')" and "inv c k s"
  shows "inv c k s' \<and> same_queue r r'"
proof -
  obtain ok r1 s1 where first: "send_read rt peer len r s = Some (ok, r1, s1)"
    using assms(1) by (auto simp: send_ready_reads_def split: option.splits)
  have q1: "same_queue r r1" using send_read_log [OF first] by auto
  have i1: "inv c k s1" "inv c k (peer s1)" using send_read_inv [OF first assms(2)] by (simp_all add: peer_inv)
  show ?thesis
  proof (cases "ok \<and> w_bytes (window r1) \<noteq> 0 \<and> w_slots (window r1) \<noteq> 0")
    case False
    with assms(1) first i1 q1 show ?thesis by (auto simp: send_ready_reads_def split: if_splits)
  next
    case True
    show ?thesis
    proof (cases "locked_port (peer s1)")
      case (Inl e)
      with True assms(1) first i1 q1 show ?thesis
        by (auto simp: send_ready_reads_def publish_followers_def Let_def)
    next
      case (Inr port)
      with True assms(1) first obtain collected fst1 batch1 port1 r2 s2 ok2 where
        c: "collect_ready io rt peer (READ_BURST_LIMIT - 1) None [] port r1 ((peer s1)\<lparr>held := True\<rparr>)
              = Some (collected, fst1, batch1, port1, r2, s2)"
        and p: "publish_followers rt peer fst1 batch1 r2 (s2\<lparr>held := False, session := Some port1\<rparr>)
              = (ok2, r', s')"
        by (auto simp: send_ready_reads_def Let_def split: option.splits prod.splits if_splits)
      have "session (peer s1) = Some port" using Inr by (auto simp: locked_port_def split: if_splits option.splits)
      then have "burst_inv c k port port ((peer s1)\<lparr>held := True\<rparr>)" using i1(2) by (simp add: burst_inv_def)
      from collect_ready_inv [OF c this] have b: "burst_inv c k port port1 s2" "same_queue r1 r2" by auto
      then have "inv c k (s2\<lparr>held := False, session := Some port1\<rparr>)"
        by (auto simp: burst_inv_def intro: inv_session)
      from publish_followers_inv [OF p this] q1 b(2) show ?thesis using same_queue_trans by blast
    qed
  qed
qed

lemma handle_read_inv_of:
  assumes "handle_read io rt peer writing capacity len r s = Some (out, r', s')" and "inv c k s"
  shows "inv c k s' \<and> unsent r' = unsent r \<and> commands r' = commands r"
proof -
  define w where "w = (window r)\<lparr>w_size := next_window_size (Some len = capacity) (w_size (window r)) len\<rparr>"
  show ?thesis
  proof (cases "streaming r")
    case True
    with assms(1) obtain v where v: "charge len w = Some v"
      by (cases "charge len w") (auto simp: handle_read_def w_def [symmetric])
    define q where "q = r\<lparr>window := w\<rparr>\<lparr>window := v\<rparr>"
    have sq: "same_queue r q" by (simp add: q_def)
    have dr: "inv c k t \<and> same_queue r q1" if "send_read rt peer len q u = Some (ok, q1, t)" "inv c k u" for ok q1 t u
      using send_read_inv [OF that] send_read_log [OF that(1)] sq by auto
    have bu: "inv c k t \<and> same_queue r q1" if "send_ready_reads io rt peer len q u = Some (x, q1, t)" "inv c k u" for x q1 t u
      using send_ready_reads_inv [OF that] sq same_queue_trans by blast
    obtain pend s1 where lp: "load_pending peer s = (pend, s1)" by fastforce
    have "inv c k s' \<and> same_queue r r'"
      using assms True v lp load_inv(2) [OF lp assms(2)]
      by (auto simp: handle_read_def w_def [symmetric] q_def [symmetric] Let_def
          split: option.splits sum.splits if_splits prod.splits dest: dr bu)
    with unsent_same show ?thesis by blast
  next
    case False
    have snd: "inv c k t \<and> q' = note_obs (Obs_Send (Event ev) ok) q"
      if "send rt peer ev q s = (ok, q', t)" for ev q ok q' t
      using send_inv [OF that assms(2)] send_log [OF that] by blast
    show ?thesis
      using assms False
      by (auto simp: handle_read_def Let_def split: option.splits prod.splits dest!: snd)
  qed
qed

lemma handle_command_inv_of:
  assumes "handle_command rt peer m r s = (out, r', s')" and "core_inv r"
    and "\<And>x. m = Some x \<Longrightarrow> inv (unsent r @ payload x) (length (commands r) + (if ordered x then 1 else 0)) s"
    and "m = None \<Longrightarrow> inv_of r s"
  shows "inv_of r' s'"
proof (cases m)
  case None
  with assms show ?thesis by (auto simp: handle_command_def)
next
  case (Some x)
  note i = assms(3) [OF Some]
  have w: "written r \<le> length (payloads (commands r))"
    using assms(2) by (cases "commands r") (auto simp: core_inv_def)
  show ?thesis
  proof (cases "ordered x")
    case True
    then have "handle_command rt peer m r s = (Next, (note_obs (Obs_Recv x) r)\<lparr>commands := commands r @ [x]\<rparr>, s)"
      unfolding Some by (rule handle_command_ordered)
    with assms(1) have "r' = (note_obs (Obs_Recv x) r)\<lparr>commands := commands r @ [x]\<rparr>" "s' = s" by simp_all
    moreover have "unsent ((note_obs (Obs_Recv x) r)\<lparr>commands := commands r @ [x]\<rparr>) = unsent r @ payload x"
      using w by (simp add: unsent_def)
    ultimately show ?thesis using i True by simp
  next
    case False
    with i have i: "inv_of r s" by simp
    have snd: "inv_of r t \<and> q' = note_obs (Obs_Send (Event ev) ok) q"
      if "send rt peer ev q s = (ok, q', t)" for ev q ok q' t
      using send_inv [OF that i] send_log [OF that] by blast
    from False obtain n b m' where "operation x = Op_Read n \<or> operation x = Op_ReadCredit b m'"
      by (auto simp: ordered_def not_ordered_op)
    with assms(1) Some i show ?thesis
      by (auto simp: handle_command_def Let_def split: prod.splits if_splits dest!: snd)
  qed
qed

lemma recv_inv:
  assumes "recv rt (outside s) = (m, e)" and "inv_of r s"
  shows "(case m of
      Ready (Some x) \<Rightarrow> inv (unsent r @ payload x) (length (commands r) + (if ordered x then 1 else 0)) (s\<lparr>outside := e\<rparr>)
    | _ \<Rightarrow> inv_of r (s\<lparr>outside := e\<rparr>))"
proof -
  have h: "gh e = gh (outside s)" by (rule recv_gh [OF assms(1)])
  show ?thesis
  proof (cases "\<exists>x. m = Ready (Some x)")
    case True
    then obtain x where x: "m = Ready (Some x)" by blast
    with recv_Some assms(1) have "contents (outside s) = x # contents e" by simp
    with assms(2) h x show ?thesis
      by (auto simp: inv_def sys_inv_def)
  next
    case False
    then have "contents e = contents (outside s)" using recv_other [OF assms(1)] by blast
    with assms(2) h False show ?thesis
      by (auto intro: inv_outside split: poll.split option.split)
  qed
qed

lemma pending_write_unsent:
  "pending_write r = Some (Some xs) \<Longrightarrow> \<exists>x cs. commands r = x # cs \<and> unsent r = xs @ payloads cs"
  by (fastforce simp: pending_write_def unsent_def split: list.splits operation.splits)

lemma poll_transfers_inv:
  assumes "poll_transfers io peer rd wr r s = ((ready, rd'), r', s')" and "inv_of r s"
    and "pending_write r = Some wr"
  shows "(case ready of
      Ready (Inr (Tr_Write n)) \<Rightarrow> inv (drop n (unsent r)) (length (commands r)) s'
    | _ \<Rightarrow> inv_of r s')"
proof -
  have i: "inv_of r (peer s)" by (rule peer_inv [OF assms(2)])
  show ?thesis
  proof (cases "locked_port (peer s)")
    case (Inl e)
    with assms(1) i show ?thesis by (auto simp: poll_transfers_def)
  next
    case (Inr port)
    then have p: "session (peer s) = Some port" by (auto simp: locked_port_def split: if_splits option.splits)
    obtain tp port' v where pl: "poll io (transfers r) port 0 rd wr = (ready, tp, port', v, rd')"
      and s': "s' = (peer s)\<lparr>session := Some port'\<rparr>"
      using assms(1) Inr by (auto simp: poll_transfers_def split: prod.splits)
    note sent = poll_sent [OF pl]
    show ?thesis
    proof (cases "\<exists>n. ready = Ready (Inr (Tr_Write n))")
      case False
      then have "sent port' = sent port" using sent by (auto split: poll.splits sum.splits transfer.splits)
      with inv_session [OF i p] False s' show ?thesis by (auto split: poll.splits sum.splits transfer.splits)
    next
      case True
      then obtain n where n: "ready = Ready (Inr (Tr_Write n))" by blast
      with poll_Ready_Inr [OF pl [unfolded n]] obtain xs q where
        xs: "wr = Some xs" "poll_write_io io xs q = (Ready (Inr n), port')" by auto
      have le: "n \<le> length xs" using bounded_io_write [OF bounded_stream_io [OF bounded] xs(2)] .
      obtain x cs where c: "commands r = x # cs" "unsent r = xs @ payloads cs"
        using pending_write_unsent assms(3) xs(1) by blast
      have "sent port' = sent port @ take n xs" using sent n xs(1) by simp
      moreover have "unsent r = take n xs @ drop n (unsent r)" using c(2) le by simp
      ultimately show ?thesis
        using i p n c(1) s' by (auto simp: inv_def sys_inv_def)
    qed
  qed
qed

lemma handle_transfer_inv_of:
  assumes "handle_transfer io rt peer wr capacity ready r s = Some (out, r', s')"
    and "(case ready of Inr (Tr_Write n) \<Rightarrow> inv (drop n (unsent r)) (length (commands r)) s | _ \<Rightarrow> inv_of r s)"
  shows "inv_of r' s'"
proof (cases ready)
  case (Inl e)
  with assms show ?thesis by (auto simp: handle_transfer_def)
next
  case (Inr t)
  show ?thesis
  proof (cases t)
    case (Tr_Read n)
    show ?thesis
    proof (cases "n = 0")
      case True
      with Inr Tr_Read assms show ?thesis by (auto simp: handle_transfer_def)
    next
      case False
      with Inr Tr_Read assms have "handle_read io rt peer (wr \<noteq> None) capacity n
          (note_obs (Obs_Read (streaming r) (take n (read_buffer r))) r) s = Some (out, r', s')" "inv_of r s"
        by (auto simp: handle_transfer_def)
      from handle_read_inv_of [OF this] show ?thesis by simp
    qed
  next
    case (Tr_Write n)
    with Inr assms show ?thesis
      by (auto simp: handle_transfer_def Let_def unsent_def add.commute split: if_splits)
  qed
qed

lemma transfer_branch_inv_of:
  assumes "transfer_branch io rt peer wr capacity r s = Some (out, r', s')" and "inv_of r s"
    and "pending_write r = Some wr"
  shows "inv_of r' s'"
proof (cases "read_length r = None \<and> wr = None")
  case True
  with assms show ?thesis by (auto simp: transfer_branch_def)
next
  case False
  then obtain rd ready rd' r1 s1 where
    p: "poll_transfers io peer rd wr r s = ((ready, rd'), r1, s1)" and
    out: "(let r = (case (rd', capacity) of
                     (Some bs, Some len) \<Rightarrow> r1\<lparr>read_buffer := bs @ drop len (read_buffer r1)\<rparr> | _ \<Rightarrow> r1)
       in case ready of
            Ready t \<Rightarrow> map_option (\<lambda>(out, r, s). (Some out, r, s)) (handle_transfer io rt peer wr capacity t r s1)
          | Pending \<Rightarrow> Some (None, r, s1)) = Some (out, r', s')"
    using assms(1) by (auto simp: transfer_branch_def split: option.splits prod.splits)
  define r2 where "r2 = (case (rd', capacity) of
      (Some bs, Some len) \<Rightarrow> r1\<lparr>read_buffer := bs @ drop len (read_buffer r1)\<rparr> | _ \<Rightarrow> r1)"
  have "\<exists>t. r1 = r\<lparr>transfers := t\<rparr>"
    using p by (auto simp: poll_transfers_def Let_def split: sum.splits prod.splits)
      (metis (full_types) reactor.surjective reactor.update_convs(7))
  then have r2: "unsent r2 = unsent r" "commands r2 = commands r"
    by (auto simp: r2_def split: option.split)
  note i = poll_transfers_inv [OF p assms(2,3)]
  note out = out [folded r2_def, unfolded Let_def]
  show ?thesis
  proof (cases ready)
    case Pending
    with out i r2 show ?thesis by simp
  next
    case (Ready t)
    with out obtain o' where h: "handle_transfer io rt peer wr capacity t r2 s1 = Some (o', r', s')"
      by auto
    show ?thesis
      by (rule handle_transfer_inv_of [OF h]) (use i Ready r2 in \<open>auto split: sum.splits transfer.splits\<close>)
  qed
qed

lemma timer_branch_inv_of: "timer_branch rt peer d s = (out, s') \<Longrightarrow> inv c k s \<Longrightarrow> inv c k s'"
  by (auto simp: timer_branch_def Let_def split: if_splits prod.splits
      intro!: peer_inv inv_outside dest: sleep_view)

lemma select_inv_of:
  assumes "select io rt peer d r s = Some (out, r', s')" and "core_inv r" and "inv_of r s"
  shows "inv_of r' s'"
proof -
  obtain wr where wr: "pending_write r = Some wr" using pending_write_inv [OF assms(2)] by blast
  define r1 where "r1 = (case read_capacity r of None \<Rightarrow> r | Some len \<Rightarrow> grow_buffer len r)"
  have r1: "unsent r1 = unsent r" "commands r1 = commands r" "pending_write r1 = Some wr" "core_inv r1"
    using wr assms(2) by (simp_all add: r1_def split: option.split)
  obtain changed e where n: "notified rt (outside (peer s)) = (changed, e)" by fastforce
  define s1 where "s1 = peer (peer s\<lparr>outside := e\<rparr>)"
  have i1: "inv_of r1 (peer s\<lparr>outside := e\<rparr>)" "inv_of r1 s1"
    using notified_view [OF n] peer_inv [OF assms(3)] r1 by (simp_all add: s1_def inv_outside peer_inv)
  obtain m e2 where m: "recv rt (outside s1) = (m, e2)" by fastforce
  define s2 where "s2 = s1\<lparr>outside := e2\<rparr>"
  note rv = recv_inv [OF m i1(2), folded s2_def]
  have "select io rt peer d r s = (if changed then Some (Next, r1, peer s\<lparr>outside := e\<rparr>)
     else case m of
       Ready c \<Rightarrow> Some (handle_command rt peer c r1 s2)
     | Pending \<Rightarrow>
         (case transfer_branch io rt peer wr (read_capacity r) r1 s2 of
            None \<Rightarrow> None
          | Some (Some out, r, s) \<Rightarrow> Some (out, r, s)
          | Some (None, r, s) \<Rightarrow> (let (out, s) = timer_branch rt peer d s in Some (out, r, s))))"
    unfolding select_def wr option.simps Let_def r1_def [symmetric]
    using n m by (simp add: s1_def [symmetric] s2_def [symmetric] split: poll.split option.split)
  note sel = this [unfolded assms(1), symmetric]
  show ?thesis
  proof (cases changed)
    case True
    with sel i1 show ?thesis by simp
  next
    case running: False
    show ?thesis
    proof (cases m)
      case (Ready c)
      with sel running have h: "handle_command rt peer c r1 s2 = (out, r', s')" by simp
      show ?thesis
        by (rule handle_command_inv_of [OF h r1(4)]) (use rv Ready in auto)
    next
      case Pending
      with rv have i2: "inv_of r1 s2" by simp
      have tb: "inv_of r2 s3" if "transfer_branch io rt peer wr (read_capacity r) r1 s2 = Some (x, r2, s3)" for x r2 s3
        by (rule transfer_branch_inv_of [OF that i2 r1(3)])
      show ?thesis
        using sel running Pending
        by (auto split: option.splits prod.splits dest!: tb timer_branch_inv_of)
    qed
  qed
qed

lemma turn_inv_of:
  assumes "turn os io rt peer ph r s = Some (out, r', s')" and "loop_inv ph r" and "inv_of r s"
  shows "inv_of r' s'"
proof (cases ph)
  case Next
  obtain stopped s1 where stop: "load_stop peer s = (stopped, s1)" by fastforce
  have i: "inv_of r s1" by (rule load_inv(1) [OF stop assms(3)])
  obtain res r1 s2 where d: "drain_commands os io rt peer (commands r) r s1 = (res, r1, s2)"
    by (metis prod_cases3)
  have inv: "core_inv r" "live_inv r" using assms(2) Next by simp_all
  have i2: "inv_of r1 s2" using drain_commands_inv_of [OF d] inv i by simp
  have core: "core_inv r1" using drain_commands_inv [OF d] inv by simp
  show ?thesis
    using assms(1) Next stop d i i2 select_inv_of [OF _ core i2]
    by (auto simp: turn_def split: if_splits sum.splits)
next
  case (Select d)
  with assms select_inv_of [of d r s out r' s'] show ?thesis by (simp add: turn_def)
next
  case (Finished res)
  with assms show ?thesis by (auto simp: turn_def)
qed

lemma run_open_inv_of:
  assumes "run_open os io rt peer n ph r s = Some (out, r', s')" and "loop_inv ph r" and "inv_of r s"
  shows "inv_of r' s'"
  using assms
proof (induction n arbitrary: ph r s)
  case 0
  then show ?case by simp
next
  case (Suc n)
  obtain o1 r1 s1 where t: "turn os io rt peer ph r s = Some (o1, r1, s1)" "loop_inv o1 r1"
    using turn_inv [OF bounded Suc.prems(2)] by blast
  have i: "inv_of r1 s1" by (rule turn_inv_of [OF t(1) Suc.prems(2,3)])
  show ?case
  proof (cases "\<exists>res. o1 = Finished res")
    case True
    with Suc.prems(1) t i show ?thesis by auto
  next
    case False
    then have "run_open os io rt peer n o1 r1 s1 = Some (out, r', s')"
      using Suc.prems(1) t by (cases o1) auto
    from Suc.IH [OF this t(2) i] show ?thesis .
  qed
qed

end

end
