(* ===== verification/Js_Thread.thy ===== *)
theory Js_Thread
  imports Port_System
begin

text \<open>
  The JavaScript thread: every method of \<open>NativePort\<close> makes only the accesses
  \<open>js_access\<close> of \<open>Port_System\<close> allows, while the reactor runs between any two of them.
\<close>

subsection \<open>The operations of the JavaScript thread\<close>

text \<open>
  A call of a method of \<open>NativePort\<close>, the data it submits, and its effect: whether the call was
  accepted, and the state. The outer \<open>None\<close> is a panic.
\<close>

datatype js_call =
    Js_Write u32 bytes bool
  | Js_Writev u32 "bytes list" "u32 option" "bool option"
  | Js_Request u32 string u32
  | Js_Read u32 u32
  | Js_Credit u32 u32
  | Js_Close

fun call_data :: "js_call \<Rightarrow> bytes" where
  "call_data (Js_Write i data allow) = data"
| "call_data (Js_Writev i bs hint allow) = concat bs"
| "call_data _ = []"

definition accepted_call :: "'e + 'a \<Rightarrow> bool" where
  "accepted_call r = (case r of Inl _ \<Rightarrow> False | Inr _ \<Rightarrow> True)"

lemma accepted_call_simps [simp]: "accepted_call (Inl e) = False" "accepted_call (Inr x) = True"
  by (simp_all add: accepted_call_def)

fun js_step ::
  "('p, 'z) serial_stream_scheme \<Rightarrow> 'e runtime \<Rightarrow> ('p, 'e) peer \<Rightarrow> js_call
     \<Rightarrow> ('p, 'e) control \<Rightarrow> (bool \<times> ('p, 'e) control) option" where
  "js_step io rt peer (Js_Write i data allow) s =
     map_option (apfst accepted_call) (native_write io rt peer i data allow s)"
| "js_step io rt peer (Js_Writev i bs hint allow) s =
     map_option (apfst accepted_call) (native_writev io rt peer i (map buffer_element bs) hint allow s)"
| "js_step io rt peer (Js_Request i op val) s = Some (apfst accepted_call (native_request rt peer i op val s))"
| "js_step io rt peer (Js_Read i len) s = Some (apfst accepted_call (native_read rt peer i len s))"
| "js_step io rt peer (Js_Credit b n) s = Some (apfst accepted_call (read_credit rt peer b n s))"
| "js_step io rt peer Js_Close s = Some (True, native_close rt peer s)"

subsection \<open>They make only such accesses\<close>

text \<open>
  An execution of the JavaScript thread: its own accesses, and between them what the reactor did,
  which is now the environment \<open>peer\<close>.
\<close>

definition js_path ::
  "('e \<Rightarrow> command list) \<Rightarrow> ('p \<Rightarrow> bytes) \<Rightarrow> ('p, 'e) peer \<Rightarrow> ghost \<times> ('p, 'e) control
     \<Rightarrow> ghost \<times> ('p, 'e) control \<Rightarrow> bool" where
  "js_path contents sent peer = (\<lambda>x y. js_access contents sent x y \<or> y = (fst x, peer (snd x)))\<^sup>*\<^sup>*"

definition submits :: "bytes \<Rightarrow> ghost \<Rightarrow> ghost" where
  "submits xs g = g\<lparr>submitted := submitted g @ xs\<rparr>"

lemma submits_simps [simp]:
  "submits [] g = g" "submits ys (submits xs g) = submits (xs @ ys) g" "place (submits xs g) = place g"
  "submitted (submits xs g) = submitted g @ xs"
  by (simp_all add: submits_def)

text \<open>The reactor never raises the counter; see \<open>reactor_never_raises\<close>.\<close>

definition never_raises :: "('p, 'e) peer \<Rightarrow> bool" where
  "never_raises peer \<longleftrightarrow> (\<forall>s. unat (pending_ops (peer s)) \<le> unat (pending_ops s))"

locale js_thread = wire io sent + command_channel rt contents
  for io :: "('p, 'z) serial_stream_scheme" and sent :: "'p \<Rightarrow> bytes"
    and rt :: "'e runtime" and contents :: "'e \<Rightarrow> command list" +
  fixes peer :: "('p, 'e) peer"
  assumes peer_never_raises: "never_raises peer"
begin

abbreviation path :: "ghost \<times> ('p, 'e) control \<Rightarrow> ghost \<times> ('p, 'e) control \<Rightarrow> bool" where
  "path \<equiv> js_path contents sent peer"

lemma path_refl [simp]: "path x x"
  by (simp add: js_path_def)

lemma path_trans: "path x y \<Longrightarrow> path y z \<Longrightarrow> path x z"
  unfolding js_path_def by (rule rtranclp_trans)

lemma path_peer: "path (g, s) (g, peer s)"
  unfolding js_path_def by (rule r_into_rtranclp) simp

lemma path_access: "js_access contents sent x y \<Longrightarrow> path x y"
  unfolding js_path_def by (rule r_into_rtranclp) simp

text \<open>An access after the environment.\<close>

lemma path_step: "js_access contents sent (g, peer s) y \<Longrightarrow> path (g, s) y"
  by (rule path_trans [OF path_peer path_access])

lemma path_load:
  "load_stop peer s = (b, s') \<Longrightarrow> path (g, s) (g, s')"
  "load_pending peer s = (n, s') \<Longrightarrow> path (g, s) (g, s')"
  by (auto simp: load_stop_def load_pending_def Let_def path_peer)

lemma path_send_command:
  assumes "send_command rt peer c s = (r, s')" and "ordered c \<longrightarrow> place g = Admitted_Place"
  shows "path (g, s) (case r of Inl _ \<Rightarrow> (g, s')
    | Inr _ \<Rightarrow> (g\<lparr>submitted := submitted g @ payload c, place := if ordered c then No_Place else place g\<rparr>, s'))"
proof -
  obtain e where e: "try_send rt c (outside (peer s)) = (r, e)" "s' = (peer s)\<lparr>outside := e\<rparr>"
    using assms(1) by (auto simp: send_command_def Let_def split: prod.splits)
  show ?thesis
  proof (cases r)
    case (Inl m)
    with e try_send_Inl show ?thesis by (auto intro!: path_step Runtime)
  next
    case (Inr u)
    with e try_send_Inr have "contents e = contents (outside (peer s)) @ [c]" by simp
    from path_step [OF Send [OF this]] assms(2) Inr e(2) show ?thesis by auto
  qed
qed

lemma path_enqueue:
  assumes "enqueue rt peer c s = (r, s')" and "place g = No_Place"
  shows "path (g, s) (submits (case r of Inl _ \<Rightarrow> [] | Inr _ \<Rightarrow> payload c) g, s')"
proof -
  have kept: "g\<lparr>submitted := xs, place := No_Place\<rparr> = g\<lparr>submitted := xs\<rparr>" for xs
    using assms(2) by (cases g) simp
  have ghost: "g\<lparr>place := No_Place\<rparr> = g" using assms(2) by (cases g) simp
  obtain stopped s1 where l: "load_stop peer s = (stopped, s1)" by fastforce
  note p1 = path_load(1) [OF l, of g]
  show ?thesis
  proof (cases stopped)
    case True
    with assms(1) l p1 show ?thesis by (auto simp: enqueue_def)
  next
    case running: False
    show ?thesis
    proof (cases "ordered c")
      case False
      obtain x s2 where x: "send_command rt peer c s1 = (x, s2)" by fastforce
      have "s' = s2 \<and> (case r of Inl _ \<Rightarrow> \<exists>m. x = Inl m | Inr _ \<Rightarrow> x = Inr ())"
        using assms(1) l running False x by (auto simp: enqueue_def Let_def split: sum.splits)
      with path_trans [OF p1 path_send_command [OF x, of g]] False show ?thesis
        by (auto simp: submits_def split: sum.splits)
    next
      case True
      define pl where "pl = (if unat (pending_ops (peer s1)) \<ge> MAX_PENDING_OPS then Refused_Place else Admitted_Place)"
      define s2 where "s2 = (peer s1)\<lparr>pending_ops := pending_ops (peer s1) + 1\<rparr>"
      have f: "fetch_add_pending peer s1 = (pending_ops (peer s1), s2)"
        by (simp add: fetch_add_pending_def s2_def Let_def)
      have p2: "path (g, s) (g\<lparr>place := pl\<rparr>, s2)"
        unfolding pl_def s2_def by (rule path_trans [OF p1 path_step]) (rule Reserve [OF assms(2)])
      have release: "path (g\<lparr>place := pl\<rparr>, t) (g, fetch_sub_pending peer t)" for t
        using path_step [OF Release [of "g\<lparr>place := pl\<rparr>" contents sent "peer t"]] ghost
        by (simp add: fetch_sub_pending_def Let_def pl_def)
      show ?thesis
      proof (cases "unat (pending_ops (peer s1)) \<ge> MAX_PENDING_OPS")
        case full: True
        with assms(1) l running True f have "\<exists>e. r = Inl e \<and> s' = fetch_sub_pending peer s2"
          by (auto simp: enqueue_def Let_def)
        with path_trans [OF p2 release] show ?thesis by auto
      next
        case room: False
        obtain x s3 where x: "send_command rt peer c s2 = (x, s3)" by fastforce
        from path_trans [OF p2 path_send_command [OF x]] room
        have p3: "path (g, s) (case x of Inl _ \<Rightarrow> (g\<lparr>place := pl\<rparr>, s3) | Inr _ \<Rightarrow> (submits (payload c) g, s3))"
          using True kept by (simp add: pl_def submits_def split: sum.splits)
        have "(case x of Inl m \<Rightarrow> (\<exists>e. r = Inl e) \<and> s' = fetch_sub_pending peer s3 | Inr _ \<Rightarrow> r = Inr () \<and> s' = s3)"
          using assms(1) l running True room f x by (auto simp: enqueue_def Let_def split: sum.splits)
        with p3 path_trans [OF _ release, of "(g, s)" s3] show ?thesis by (auto split: sum.splits)
      qed
    qed
  qed
qed

text \<open>The counter was zero when it was loaded and only this thread raises it.\<close>

lemma path_try_inline:
  assumes "try_inline io peer allow data s = (cnt, s')" and "place g = No_Place"
  shows "path (g, s) (submits (case cnt of None \<Rightarrow> [] | Some n \<Rightarrow> take n data) g, s')"
proof (cases "allow \<and> pending_ops (peer s) = 0")
  case False
  with assms(1) path_peer [of g s] show ?thesis
    by (auto simp: try_inline_def load_pending_def Let_def split: if_splits)
next
  case True
  let ?t = "peer (peer s)"
  have z: "pending_ops ?t = 0"
    using peer_never_raises True unfolding never_raises_def by (metis le_zero_eq unat_eq_0)
  have p: "path (g, s) (g, ?t)" by (rule path_trans [OF path_peer path_peer])
  show ?thesis
  proof (cases "held ?t \<or> poisoned ?t \<or> session ?t = None")
    case True
    with assms(1) \<open>allow \<and> pending_ops (peer s) = 0\<close> p show ?thesis
      by (auto simp: try_inline_def load_pending_def Let_def split: if_splits)
  next
    case False
    then obtain port where port: "session ?t = Some port" "\<not> held ?t" "\<not> poisoned ?t" by auto
    obtain x port' where w: "try_write io data port = (x, port')" by fastforce
    have r: "s' = ?t\<lparr>session := Some port'\<rparr>" "cnt = (case x of Inl _ \<Rightarrow> None | Inr n \<Rightarrow> Some n)"
      using assms(1) \<open>allow \<and> pending_ops (peer s) = 0\<close> port w
      by (auto simp: try_inline_def load_pending_def Let_def split: sum.splits)
    have "sent port' = sent port @ (case cnt of None \<Rightarrow> [] | Some n \<Rightarrow> take n data)"
      using try_write_Inr [of data port _ port'] try_write_Inl [of data port _ port'] w r(2)
      by (auto split: sum.splits)
    from path_trans [OF p path_access [OF Write [OF port(1,2) z assms(2) this]]]
    show ?thesis by (simp add: r(1) submits_def)
  qed
qed

lemma path_native_write:
  assumes "native_write io rt peer i data allow s = Some (r, s')" and "place g = No_Place"
  shows "\<exists>xs. path (g, s) (submits xs g, s') \<and> prefix xs data \<and> (accepted_call r \<longrightarrow> xs = data)"
proof (cases "length data \<le> CHUNK_SIZE")
  case False
  with assms show ?thesis by (auto simp: native_write_def intro!: exI [of _ "[]"])
next
  case len: True
  obtain stopped s1 where l: "load_stop peer s = (stopped, s1)" by fastforce
  note p1 = path_load(1) [OF l, of g]
  obtain cnt s2 where t: "try_inline io peer allow data s1 = (cnt, s2)" by fastforce
  define n where "n = (case cnt of None \<Rightarrow> 0 | Some n \<Rightarrow> n)"
  have "(case cnt of None \<Rightarrow> [] | Some n \<Rightarrow> take n data) = take n data"
    by (simp add: n_def split: option.split)
  with path_trans [OF p1 path_try_inline [OF t assms(2)]]
  have p2: "path (g, s) (submits (take n data) g, s2)" by simp
  consider "stopped" | "\<not> stopped" "cnt = Some (length data)" | "\<not> stopped" "cnt \<noteq> Some (length data)" by blast
  then show ?thesis
  proof cases
    case 1
    with assms(1) len l have "s' = s1 \<and> \<not> accepted_call r" by (auto simp: native_write_def)
    with p1 show ?thesis by (auto intro: exI [of _ "[]"])
  next
    case 2
    with assms(1) len l t have "s' = s2" by (auto simp: native_write_def)
    with p2 2 show ?thesis by (auto simp: n_def intro: exI [of _ data])
  next
    case 3
    obtain q s3 where e: "enqueue rt peer \<lparr>cmd_id = i, operation = Op_Write (drop n data)\<rparr> s2 = (q, s3)"
      by fastforce
    have r: "s' = s3" "accepted_call r = accepted_call q"
      using assms(1) len l t 3 e
      by (auto simp: native_write_def Let_def n_def [symmetric] slice_from_def split: sum.splits if_splits)
    from path_trans [OF p2 path_enqueue [OF e]] assms(2)
    have "path (g, s) (submits (take n data @ (case q of Inl _ \<Rightarrow> [] | Inr _ \<Rightarrow> drop n data)) g, s3)"
      by (cases q) simp_all
    then show ?thesis unfolding r by (auto simp: take_is_prefix split: sum.splits)
  qed
qed

text \<open>Every method, for ordinary buffers.\<close>

lemma path_enqueue_nothing:
  assumes "payload c = []" and "place g = No_Place"
  shows "path (g, s) (g, snd (enqueue rt peer c s))"
proof -
  obtain r s' where e: "enqueue rt peer c s = (r, s')" by fastforce
  from path_enqueue [OF e assms(2)] assms(1) e show ?thesis by (cases r) simp_all
qed

lemma path_native_close: "path (g, s) (g, native_close rt peer s)"
proof -
  have "path (g, s) (g, (peer s)\<lparr>stop := True\<rparr>)" by (rule path_step [OF Set_Stop])
  moreover have "path (g, (peer s)\<lparr>stop := True\<rparr>) (g, native_close rt peer s)"
    unfolding native_close_def control_stop_def Let_def by (rule path_step [OF Runtime]) (simp add: notify_contents)
  ultimately show ?thesis by (rule path_trans)
qed

lemma path_native_writev:
  assumes "native_writev io rt peer i (map buffer_element bs) hint allow s = Some (r, s')" and "place g = No_Place"
  shows "\<exists>xs. path (g, s) (submits xs g, s') \<and> prefix xs (concat bs) \<and> (accepted_call r \<longrightarrow> xs = concat bs)"
proof (cases "\<not> stop (peer s) \<and> unat (case hint of None \<Rightarrow> 0 | Some n \<Rightarrow> n) \<le> CHUNK_SIZE \<and> length bs \<le> 1024")
  case True
  then have "native_write io rt peer i (concat bs) (allow = Some True) (peer s) = Some (r, s')"
    using assms(1) native_writev_buffers [of bs hint peer s io rt i allow] by simp
  from path_native_write [OF this assms(2)] obtain xs where
    "path (g, peer s) (submits xs g, s')" "prefix xs (concat bs)" "accepted_call r \<longrightarrow> xs = concat bs" by blast
  with path_trans [OF path_peer, of g s "(submits xs g, s')"] show ?thesis by blast
next
  case False
  then have "\<exists>e. native_writev io rt peer i (map buffer_element bs) hint allow s = Some (Inl e, peer s)"
    by (auto simp: native_writev_def load_stop_def Let_def)
  with assms(1) have "s' = peer s \<and> \<not> accepted_call r" by auto
  with path_peer [of g s] show ?thesis by (auto intro: exI [of _ "[]"])
qed

lemma path_js_step:
  assumes "bounded_stream io" and "place g = No_Place"
  shows "\<exists>ok s' xs. js_step io rt peer call s = Some (ok, s') \<and> path (g, s) (submits xs g, s')
    \<and> prefix xs (call_data call) \<and> (ok \<longrightarrow> xs = call_data call)"
proof -
  have wrote: ?thesis if "js_step io rt peer call s = Some (accepted_call r, t)"
    and "\<exists>xs. path (g, s) (submits xs g, t) \<and> prefix xs (call_data call) \<and> (accepted_call r \<longrightarrow> xs = call_data call)"
    for r :: "napi_error + bool" and t
    using that(2) by (intro exI [of _ "accepted_call r"] exI [of _ t]) (simp add: that(1))
  have queued: ?thesis if "js_step io rt peer call s = Some (apfst accepted_call x)" "path (g, s) (g, snd x)"
      "call_data call = []" for x :: "(napi_error + unit) \<times> _"
    using that by (cases x) (auto intro: exI [of _ "[]"])
  note queue = path_enqueue_nothing [OF _ assms(2)]
  show ?thesis
  proof (cases call)
    case (Js_Write i data allow)
    obtain r t where w: "native_write io rt peer i data allow s = Some (r, t)"
      using native_write_no_panic [OF assms(1), of rt peer i data allow s] by auto
    with path_native_write [OF w assms(2)] Js_Write show ?thesis by (intro wrote [of r t]) simp_all
  next
    case (Js_Writev i bs hint allow)
    obtain r t where w: "native_writev io rt peer i (map buffer_element bs) hint allow s = Some (r, t)"
      using native_writev_no_panic [OF assms(1), of rt peer i "map buffer_element bs" hint allow s] by auto
    with path_native_writev [OF w assms(2)] Js_Writev show ?thesis by (intro wrote [of r t]) simp_all
  next
    case (Js_Request i op val)
    have "path (g, s) (g, snd (native_request rt peer i op val s))"
    proof (cases "request_operation op val")
      case None
      then show ?thesis by (simp add: native_request_def)
    next
      case (Some x)
      then have "payload_op x = []"
        unfolding request_operation_def by (simp split: if_split_asm) auto
      with queue [of "\<lparr>cmd_id = i, operation = x\<rparr>"] Some show ?thesis by (simp add: native_request_def)
    qed
    with Js_Request show ?thesis by (intro queued [of "native_request rt peer i op val s"]) simp_all
  next
    case (Js_Read i len)
    show ?thesis
      by (rule queued [of "native_read rt peer i len s"]) (simp_all add: Js_Read native_read_def queue)
  next
    case (Js_Credit b n)
    show ?thesis
      by (rule queued [of "read_credit rt peer b n s"]) (simp_all add: Js_Credit read_credit_def queue)
  next
    case Js_Close
    show ?thesis
      by (rule queued [of "(Inr (), native_close rt peer s)"]) (simp_all add: Js_Close path_native_close)
  qed
qed

end

interpretation tty_js: js_thread "unix_stream tty_fd" line "fifo_runtime n" queue no_peer for n
  by unfold_locales (simp add: never_raises_def)

end
