(* ===== verification/Port_Correct.thy ===== *)
theory Port_Correct
  imports Js_Thread
begin

text \<open>
  Both threads of a port together. Under any accesses of the JavaScript thread a port refines a pipe
  of bytes and its counter is the number of commands in flight; and the methods of the JavaScript
  thread make only such accesses, relying on a reactor that never raises the counter.
\<close>

subsection \<open>The ghost beside the runtime\<close>

text \<open>A runtime with the ghost beside its state.\<close>

definition tracked :: "'e runtime \<Rightarrow> ('e \<times> ghost) runtime" where
  "tracked rt =
     \<lparr>try_send = (\<lambda>c (e, h). apsnd (\<lambda>e. (e, h)) (try_send rt c e)),
      recv = (\<lambda>(e, h). apsnd (\<lambda>e. (e, h)) (recv rt e)),
      notify_one = (\<lambda>(e, h). (notify_one rt e, h)),
      notified = (\<lambda>(e, h). apsnd (\<lambda>e. (e, h)) (notified rt e)),
      call_nonblocking = (\<lambda>ev (e, h). apsnd (\<lambda>e. (e, h)) (call_nonblocking rt ev e)),
      poll_proceed = (\<lambda>(e, h). apsnd (\<lambda>e. (e, h)) (poll_proceed rt e)),
      sleep_elapsed = (\<lambda>(e, h). apsnd (\<lambda>e. (e, h)) (sleep_elapsed rt e)),
      join_error = (\<lambda>(e, h). apsnd (\<lambda>e. (e, h)) (join_error rt e)),
      drop_receiver = (\<lambda>(e, h). (drop_receiver rt e, h))\<rparr>"

locale quiet_channel = command_channel +
  assumes notified_contents: "contents (snd (notified rt e)) = contents e"
    and proceed_contents: "contents (snd (poll_proceed rt e)) = contents e"
    and sleep_contents: "contents (snd (sleep_elapsed rt e)) = contents e"
    and join_contents: "contents (snd (join_error rt e)) = contents e"

interpretation fifo_quiet: quiet_channel "fifo_runtime n" queue for n
  by unfold_locales simp_all

lemma apsnd_pair_iff: "apsnd (\<lambda>e. (e, h)) x = (r, y) \<longleftrightarrow> (\<exists>e. x = (r, e) \<and> y = (e, h))"
  by (cases x) auto

sublocale quiet_channel < tracked: tracked_channel "tracked rt" "\<lambda>e. contents (fst e)" snd
proof unfold_locales
  fix c e r e'
  show "try_send (tracked rt) c e = (Inr (), e') \<Longrightarrow> contents (fst e') = contents (fst e) @ [c]"
    by (cases e) (auto simp: tracked_def apsnd_pair_iff dest: try_send_Inr)
next
  fix c m e e'
  show "try_send (tracked rt) c e = (Inl m, e') \<Longrightarrow> contents (fst e') = contents (fst e)"
    by (cases e) (auto simp: tracked_def apsnd_pair_iff dest: try_send_Inl)
next
  fix c e e'
  show "recv (tracked rt) e = (Ready (Some c), e') \<Longrightarrow> contents (fst e) = c # contents (fst e')"
    by (cases e) (auto simp: tracked_def apsnd_pair_iff dest: recv_Some)
next
  fix r e e'
  show "recv (tracked rt) e = (r, e') \<Longrightarrow> \<forall>c. r \<noteq> Ready (Some c) \<Longrightarrow> contents (fst e') = contents (fst e)"
    by (cases e) (auto simp: tracked_def apsnd_pair_iff dest: recv_other)
  show "recv (tracked rt) e = (r, e') \<Longrightarrow> snd e' = snd e"
    by (cases e) (auto simp: tracked_def apsnd_pair_iff)
next
  fix e :: "'a \<times> ghost"
  show "contents (fst (notify_one (tracked rt) e)) = contents (fst e)"
    by (cases e) (simp add: tracked_def notify_contents)
next
  fix ev st e e'
  show "call_nonblocking (tracked rt) ev e = (st, e') \<Longrightarrow> contents (fst e') = contents (fst e)"
    "call_nonblocking (tracked rt) ev e = (st, e') \<Longrightarrow> snd e' = snd e"
    by (cases e; auto simp: tracked_def apsnd_pair_iff dest: call_contents)+
next
  fix b e e'
  show "notified (tracked rt) e = (b, e') \<Longrightarrow> contents (fst e') = contents (fst e) \<and> snd e' = snd e"
    using notified_contents [of "fst e"] by (cases e) (auto simp: tracked_def apsnd_pair_iff)
  show "poll_proceed (tracked rt) e = (b, e') \<Longrightarrow> contents (fst e') = contents (fst e) \<and> snd e' = snd e"
    using proceed_contents [of "fst e"] by (cases e) (auto simp: tracked_def apsnd_pair_iff)
  show "sleep_elapsed (tracked rt) e = (b, e') \<Longrightarrow> contents (fst e') = contents (fst e) \<and> snd e' = snd e"
    using sleep_contents [of "fst e"] by (cases e) (auto simp: tracked_def apsnd_pair_iff)
next
  fix j e e'
  show "join_error (tracked rt) e = (j, e') \<Longrightarrow> contents (fst e') = contents (fst e) \<and> snd e' = snd e"
    using join_contents [of "fst e"] by (cases e) (auto simp: tracked_def apsnd_pair_iff)
qed

subsection \<open>The terminal\<close>

lemma tty_write_ready_loop:
  "\<exists>r p'. write_ready_loop tty_fd xs p = Some (r, p')
     \<and> line p' = line p @ (case r of Ready (Inr n) \<Rightarrow> take n xs | _ \<Rightarrow> [])"
proof (induction p rule: measure_induct_rule [of stale])
  case (less p)
  show ?case
  proof (cases "space p = 0 \<and> \<not> broken p \<and> stale p \<noteq> 0")
    case True
    then have "stale (p\<lparr>stale := stale p - 1\<rparr>) < stale p" by simp
    from less.IH [OF this] True show ?thesis
      by (subst write_ready_loop.simps) (simp add: tty_fd_def tty_write_def)
  next
    case False
    then show ?thesis
      by (subst write_ready_loop.simps) (auto simp: tty_fd_def tty_write_def Let_def)
  qed
qed

lemma tty_read_ready_loop:
  "\<exists>r p'. read_ready_loop tty_fd n p = Some (r, p') \<and> line p' = line p"
proof (induction p rule: measure_induct_rule [of stale])
  case (less p)
  show ?case
  proof (cases "arrived p = [] \<and> stale p \<noteq> 0")
    case True
    then have "stale (p\<lparr>stale := stale p - 1\<rparr>) < stale p" by simp
    from less.IH [OF this] True show ?thesis
      by (subst read_ready_loop.simps) (simp add: tty_fd_def tty_read_def)
  next
    case False
    then show ?thesis
      by (subst read_ready_loop.simps) (auto simp: tty_fd_def tty_read_def split: list.split)
  qed
qed

lemma tty_drain_line:
  "\<exists>r p'. unix_drain_output tty_fd p = Some (r, p') \<and> line p' = line p"
proof (induction p rule: measure_induct_rule [of interrupts])
  case (less p)
  show ?case
  proof (cases "interrupts p = 0")
    case True
    then show ?thesis by (subst unix_drain_output.simps) (simp add: tty_fd_def)
  next
    case False
    then have "interrupts (p\<lparr>interrupts := interrupts p - 1\<rparr>) < interrupts p" by simp
    from less.IH [OF this] False show ?thesis
      by (subst unix_drain_output.simps) (simp add: tty_fd_def)
  qed
qed

interpretation tty_device: device_wire "unix_stream tty_fd" line
proof unfold_locales
  fix xs p r p' assume "poll_write_io (unix_stream tty_fd) xs p = (r, p')"
  then show "line p' = line p @ (case r of Ready (Inr n) \<Rightarrow> take n xs | _ \<Rightarrow> [])"
    using tty_write_ready_loop [of xs p] by (auto simp: unix_poll_write_def split: if_splits)
next
  fix n
  show "quiet line (poll_read_io (unix_stream tty_fd) n)"
    unfolding quiet_def
  proof
    fix p show "line (snd (poll_read_io (unix_stream tty_fd) n p)) = line p"
      using tty_read_ready_loop [of n p] by (auto simp: unix_poll_read_def)
  qed
  show "quiet line (try_read (unix_stream tty_fd) n)"
    by (auto simp: quiet_def tty_fd_def tty_read_def split: prod.split option.split list.split)
next
  show "quiet line (drain_output (unix_stream tty_fd))"
    unfolding quiet_def
  proof
    fix p show "line (snd (drain_output (unix_stream tty_fd) p)) = line p"
      using tty_drain_line [of p] by auto
  qed
qed (auto simp: quiet_def tty_fd_def)

subsection \<open>Both threads\<close>

text \<open>The environments of a reactor: between two of its accesses JavaScript makes any number of its own.\<close>

definition js_environment ::
  "('e \<Rightarrow> command list) \<Rightarrow> ('p \<Rightarrow> bytes) \<Rightarrow> ('p, 'e \<times> ghost) peer \<Rightarrow> bool" where
  "js_environment contents sent peer \<longleftrightarrow>
     (\<forall>s. (js_access (\<lambda>e. contents (fst e)) sent)\<^sup>*\<^sup>* (snd (outside s), s) (snd (outside (peer s)), peer s))"

text \<open>An open port before the first command, its history the bytes already on the line.\<close>

definition started :: "('e \<Rightarrow> command list) \<Rightarrow> ('p \<Rightarrow> bytes) \<Rightarrow> ('p, 'e \<times> ghost) control \<Rightarrow> bool" where
  "started contents sent s \<longleftrightarrow>
     contents (fst (outside s)) = [] \<and> pending_ops s = 0 \<and> place (snd (outside s)) = No_Place \<and>
     (case session s of None \<Rightarrow> False | Some p \<Rightarrow> submitted (snd (outside s)) = sent p)"

text \<open>What a port is as a pipe: the bytes on the line, and those queued or partly written.\<close>

definition port_pipe ::
  "('e \<Rightarrow> command list) \<Rightarrow> ('p \<Rightarrow> bytes) \<Rightarrow> reactor \<Rightarrow> ('p, 'e \<times> ghost) control \<Rightarrow> pipe option" where
  "port_pipe contents sent r s =
     map_option (\<lambda>p. \<lparr>on_line = sent p, in_flight = unsent r @ payloads (contents (fst (outside s)))\<rparr>)
       (session s)"

abbreviation held_places :: "('p, 'e \<times> ghost) control \<Rightarrow> nat" where
  "held_places s \<equiv> if place (snd (outside s)) = No_Place then 0 else 1"

lemma sys_inv_iff_pipe:
  "sys_inv (\<lambda>e. contents (fst e)) sent w h (unsent r) (length (commands r)) (snd (outside s)) s \<longleftrightarrow>
     (\<exists>a. port_pipe contents sent r s = Some a \<and> prefix w (on_line a) \<and> submitted (snd (outside s)) = pipe_total a)
     \<and> prefix h (submitted (snd (outside s)))
     \<and> unat (pending_ops s) = length (commands r) + outstanding (contents (fst (outside s))) + held_places s
     \<and> length (commands r) + outstanding (contents (fst (outside s))) \<le> MAX_PENDING_OPS
     \<and> (place (snd (outside s)) = Admitted_Place \<longrightarrow>
          length (commands r) + outstanding (contents (fst (outside s))) < MAX_PENDING_OPS)"
  by (auto simp: sys_inv_def port_pipe_def pipe_total_def unsent_def)

context quiet_channel begin

lemma js_system:
  assumes "device_wire io sent" and "bounded_stream io" and "js_environment contents sent peer"
  shows "port_system io sent (tracked rt) (\<lambda>e. contents (fst e)) snd peer w h (Suc MAX_PENDING_OPS)"
proof (intro port_system.intro port_system_axioms.intro tracked.tracked_channel_axioms assms(1,2))
  fix s
  show js: "(js_access (\<lambda>e. contents (fst e)) sent)\<^sup>*\<^sup>* (snd (outside s), s) (snd (outside (peer s)), peer s)" for s
    using assms(3) by (simp add: js_environment_def)
  show "unat (pending_ops (peer s)) \<le> Suc MAX_PENDING_OPS"
    if "sys_inv (\<lambda>e. contents (fst e)) sent w h c k (snd (outside s)) s" for c k
    using sys_inv_pending [OF js_accesses_inv [OF js that]] .
qed

lemma run_system:
  fixes io :: "('p, 'z) serial_stream_scheme" and sent
  assumes "device_wire io sent" and "bounded_stream io" and "js_environment contents sent peer"
    and "started contents sent s"
  obtains ph r1 s1 out r2 s2 a b where
    "run_open os io (tracked rt) peer n Next reactor_new s = Some (ph, r1, s1)"
    "run_open os io (tracked rt) peer m ph r1 s1 = Some (out, r2, s2)"
    "port_pipe contents sent r1 s1 = Some a" "submitted (snd (outside s1)) = pipe_total a"
    "port_pipe contents sent r2 s2 = Some b" "submitted (snd (outside s2)) = pipe_total b"
    "prefix (on_line a) (on_line b)" "prefix (pipe_total a) (pipe_total b)"
    "unat (pending_ops s2) = length (commands r2) + outstanding (contents (fst (outside s2))) + held_places s2"
    "length (commands r2) + outstanding (contents (fst (outside s2))) \<le> MAX_PENDING_OPS"
proof -
  note system = js_system [OF assms(1-3)]
  note inv = port_system.inv_def [OF system]
  have new: "loop_inv Next reactor_new" by (simp add: core_inv_new live_inv_new)
  have start: "sys_inv (\<lambda>e. contents (fst e)) sent [] [] (unsent reactor_new) (length (commands reactor_new))
      (snd (outside s)) s"
    using assms(4) by (auto simp: started_def sys_inv_def unsent_def reactor_new_def split: option.splits)
  have run: "sys_inv (\<lambda>e. contents (fst e)) sent w h (unsent r2) (length (commands r2)) (snd (outside s2)) s2"
    if "run_open os io (tracked rt) peer n ph r1 s1 = Some (out, r2, s2)" "loop_inv ph r1"
      "sys_inv (\<lambda>e. contents (fst e)) sent w h (unsent r1) (length (commands r1)) (snd (outside s1)) s1"
    for n ph r1 s1 out r2 s2 w h
    using port_system.run_open_inv_of [OF system that(1,2), of w h] that(3) sys_inv_pending [OF that(3)]
    unfolding inv by blast
  obtain ph r1 s1 where 1: "run_open os io (tracked rt) peer n Next reactor_new s = Some (ph, r1, s1)" "loop_inv ph r1"
    using run_open_inv [OF assms(2) new] by blast
  obtain out r2 s2 where 2: "run_open os io (tracked rt) peer m ph r1 s1 = Some (out, r2, s2)"
    using run_open_inv [OF assms(2) 1(2)] by blast
  note mid = run [OF 1(1) new start]
  then obtain a where a: "port_pipe contents sent r1 s1 = Some a" "submitted (snd (outside s1)) = pipe_total a"
    unfolding sys_inv_iff_pipe by blast
  with mid have "sys_inv (\<lambda>e. contents (fst e)) sent (on_line a) (pipe_total a)
      (unsent r1) (length (commands r1)) (snd (outside s1)) s1"
    unfolding sys_inv_iff_pipe by auto
  from run [OF 2 1(2) this] a
  show ?thesis unfolding sys_inv_iff_pipe by (elim conjE exE) (rule that [OF 1(1) 2], simp_all)
qed

text \<open>
  The other half of the agreement: against an environment that does not raise the counter, neither
  does the reactor, so the JavaScript thread may rely on it.
\<close>

lemma reactor_never_raises:
  fixes io :: "('p, 'z) serial_stream_scheme" and sent
  assumes "device_wire io sent" and "bounded_stream io" and "js_environment contents sent peer"
    and "started contents sent s" and "run_open os io (tracked rt) peer n Next reactor_new s = Some (ph, r1, s1)"
    and "js_environment contents sent still" and "never_raises still"
    and "run_open os io (tracked rt) still m ph r1 s1 = Some (out, r2, s2)"
  shows "unat (pending_ops s2) \<le> unat (pending_ops s1)"
proof -
  have new: "loop_inv Next reactor_new" by (simp add: core_inv_new live_inv_new)
  have ph: "loop_inv ph r1"
    using run_open_inv [OF assms(2) new, of os "tracked rt" peer n s] assms(5) by auto
  have start: "sys_inv (\<lambda>e. contents (fst e)) sent [] [] (unsent reactor_new) (length (commands reactor_new))
      (snd (outside s)) s"
    using assms(4) by (auto simp: started_def sys_inv_def unsent_def reactor_new_def split: option.splits)
  note first = js_system [OF assms(1-3)]
  have mid: "sys_inv (\<lambda>e. contents (fst e)) sent [] [] (unsent r1) (length (commands r1)) (snd (outside s1)) s1"
    using port_system.run_open_inv_of [OF first assms(5) new, of "[]" "[]"] start sys_inv_pending [OF start]
    unfolding port_system.inv_def [OF first] by blast
  have second: "port_system io sent (tracked rt) (\<lambda>e. contents (fst e)) snd still [] [] (unat (pending_ops s1))"
  proof (intro port_system.intro port_system_axioms.intro tracked.tracked_channel_axioms assms(1,2))
    show "(js_access (\<lambda>e. contents (fst e)) sent)\<^sup>*\<^sup>* (snd (outside s), s) (snd (outside (still s)), still s)" for s
      using assms(6) by (simp add: js_environment_def)
    show "unat (pending_ops (still t)) \<le> unat (pending_ops s1)" if "unat (pending_ops t) \<le> unat (pending_ops s1)" for t
      using assms(7) that unfolding never_raises_def by (meson le_trans)
  qed
  show ?thesis
    using port_system.run_open_inv_of [OF second assms(8) ph] mid unfolding port_system.inv_def [OF second] by blast
qed

end

subsection \<open>Properties\<close>

text \<open>
  C1: a port is a pipe. Whatever accesses the JavaScript thread makes between any two accesses of the
  reactor, and whatever the device and the runtime do, from any turn of the reactor to any later one
  the bytes on the line and the bytes in flight change only by submissions at the end and
  transmissions from the front; together they are the bytes JavaScript submitted, so none is lost,
  duplicated or overtaken, on the immediate path or on the queued one.
\<close>

theorem port_refines_pipe:
  assumes "device_wire io sent" and "bounded_stream io" and "quiet_channel rt contents"
    and "js_environment contents sent peer" and "started contents sent s"
  shows "\<exists>ph r1 s1 out r2 s2 a b.
    run_open os io (tracked rt) peer n Next reactor_new s = Some (ph, r1, s1)
    \<and> run_open os io (tracked rt) peer m ph r1 s1 = Some (out, r2, s2)
    \<and> port_pipe contents sent r1 s1 = Some a \<and> submitted (snd (outside s1)) = pipe_total a
    \<and> port_pipe contents sent r2 s2 = Some b \<and> submitted (snd (outside s2)) = pipe_total b
    \<and> pipe_step\<^sup>*\<^sup>* a b"
  using quiet_channel.run_system [OF assms(3,1,2,4,5), of os n m] unfolding pipe_steps_iff by metis

text \<open>
  An empty port on which JavaScript writes three bytes at once on the immediate path and queues four
  more for the reactor to write.
\<close>

definition no_ghost :: ghost where
  "no_ghost = \<lparr>submitted = [], place = No_Place\<rparr>"

definition fresh_port :: "(tty, fifo \<times> ghost) control" where
  "fresh_port = (control_new (empty_fifo, no_ghost))\<lparr>session := Some tty_new\<rparr>"

definition eager_write :: "(tty, fifo \<times> ghost) control" where
  "eager_write = fresh_port\<lparr>session := Some (tty_new\<lparr>line := [1, 2, 3], space := 4093\<rparr>)\<rparr>"

definition eager_queue :: command where
  "eager_queue = \<lparr>cmd_id = 2, operation = Op_Write [4, 5, 6, 7]\<rparr>"

definition eager_sent :: "(tty, fifo \<times> ghost) control" where
  "eager_sent = eager_write\<lparr>pending_ops := 1,
     outside := (empty_fifo\<lparr>queue := [eager_queue]\<rparr>, \<lparr>submitted = [1, 2, 3, 4, 5, 6, 7], place = No_Place\<rparr>)\<rparr>"

definition eager :: "(tty, fifo \<times> ghost) peer" where
  "eager s = (if s = fresh_port then eager_sent else s)"

lemma fresh_started: "started queue line fresh_port"
  by (simp add: started_def fresh_port_def control_new_def empty_fifo_def tty_new_def no_ghost_def)

lemma eager_environment: "js_environment queue line eager"
proof -
  let ?acc = "js_access (\<lambda>e :: fifo \<times> ghost. queue (fst e)) line"
  let ?g = "\<lparr>submitted = [1, 2, 3], place = No_Place\<rparr>"
  have "?acc (no_ghost, fresh_port) (no_ghost\<lparr>submitted := submitted no_ghost @ [1, 2, 3]\<rparr>,
      fresh_port\<lparr>session := Some (tty_new\<lparr>line := [1, 2, 3], space := 4093\<rparr>)\<rparr>)"
    by (rule Write [where p = tty_new]) (simp_all add: fresh_port_def control_new_def no_ghost_def tty_new_def)
  then have 1: "?acc (no_ghost, fresh_port) (?g, eager_write)" by (simp add: no_ghost_def eager_write_def)
  have "?acc (?g, eager_write) (?g\<lparr>place := if unat (pending_ops eager_write) \<ge> MAX_PENDING_OPS
      then Refused_Place else Admitted_Place\<rparr>, eager_write\<lparr>pending_ops := pending_ops eager_write + 1\<rparr>)"
    by (rule Reserve) simp
  then have 2: "?acc (?g, eager_write) (?g\<lparr>place := Admitted_Place\<rparr>, eager_write\<lparr>pending_ops := 1\<rparr>)"
    by (simp add: eager_write_def fresh_port_def control_new_def)
  have "?acc (?g\<lparr>place := Admitted_Place\<rparr>, eager_write\<lparr>pending_ops := 1\<rparr>)
    (?g\<lparr>place := Admitted_Place, submitted := submitted (?g\<lparr>place := Admitted_Place\<rparr>) @ payload eager_queue,
        place := if ordered eager_queue then No_Place else place (?g\<lparr>place := Admitted_Place\<rparr>)\<rparr>,
     eager_write\<lparr>pending_ops := 1, outside := outside eager_sent\<rparr>)"
    by (rule Send) (simp_all add: eager_sent_def eager_write_def fresh_port_def control_new_def empty_fifo_def)
  then have 3: "?acc (?g\<lparr>place := Admitted_Place\<rparr>, eager_write\<lparr>pending_ops := 1\<rparr>)
      (snd (outside eager_sent), eager_sent)"
    by (simp add: eager_sent_def eager_queue_def ordered_def)
  have "snd (outside fresh_port) = no_ghost" by (simp add: fresh_port_def control_new_def)
  with 1 2 3 show ?thesis
    unfolding js_environment_def eager_def by (auto intro: rtranclp.rtrancl_into_rtrancl)
qed

interpretation eager_system: port_system "unix_stream tty_fd" line "tracked (fifo_runtime n)"
    "\<lambda>e. queue (fst e)" snd eager w h "Suc MAX_PENDING_OPS" for n w h
  by (rule fifo_quiet.js_system [OF tty_device.device_wire_axioms tty_bounded eager_environment])

text \<open>Both calls happen at the first access.\<close>

lemma eager_first: "eager fresh_port = eager_sent"
  by (simp add: eager_def)

lemma eager_idle: "submitted (snd (outside s)) \<noteq> [] \<Longrightarrow> eager s = s"
  by (auto simp: eager_def fresh_port_def control_new_def no_ghost_def)

abbreviation eager_run ::
  "nat \<Rightarrow> reactor \<Rightarrow> (tty, fifo \<times> ghost) control \<Rightarrow> (outcome \<times> reactor \<times> (tty, fifo \<times> ghost) control) option" where
  "eager_run n \<equiv> run_open Linux (unix_stream tty_fd) (tracked (fifo_runtime 96)) eager n Next"

definition eager_reactor :: reactor where
  "eager_reactor = reactor_new\<lparr>commands := [eager_queue], log := [Obs_Recv eager_queue]\<rparr>"

definition eager_received :: "(tty, fifo \<times> ghost) control" where
  "eager_received = eager_sent\<lparr>outside := (empty_fifo, snd (outside eager_sent))\<rparr>"

lemmas eager_defs = eager_sent_def eager_write_def eager_queue_def eager_reactor_def eager_received_def
  fresh_port_def control_new_def empty_fifo_def reactor_new_def transfer_poller_default_def ordered_def
  tty_new_def tracked_def

lemma eager_run_first: "eager_run 1 reactor_new fresh_port = Some (Next, eager_reactor, eager_received)"
  by (simp add: turn_def [of _ _ _ _ Next reactor_new fresh_port] load_stop_def eager_first del: fun_upd_apply)
    (simp add: turn_simps eager_idle eager_defs)

lemma eager_run_second:
  "\<exists>r2 s2. eager_run 1 eager_reactor eager_received = Some (Next, r2, s2)
     \<and> port_pipe queue line r2 s2 = Some \<lparr>on_line = [1, 2, 3, 4, 5, 6, 7], in_flight = []\<rparr>"
  by (simp add: turn_simps eager_idle eager_defs port_pipe_def unsent_def)

lemma eager_run_2:
  "\<exists>r1 s1. eager_run 1 reactor_new fresh_port = Some (Next, r1, s1)
    \<and> port_pipe queue line r1 s1 = Some \<lparr>on_line = [1, 2, 3], in_flight = [4, 5, 6, 7]\<rparr> \<and> pending_ops s1 = 1
    \<and> place (snd (outside s1)) = No_Place
    \<and> (\<exists>r2 s2. eager_run 1 r1 s1 = Some (Next, r2, s2)
        \<and> port_pipe queue line r2 s2 = Some \<lparr>on_line = [1, 2, 3, 4, 5, 6, 7], in_flight = []\<rparr>)"
proof -
  have "port_pipe queue line eager_reactor eager_received = Some \<lparr>on_line = [1, 2, 3], in_flight = [4, 5, 6, 7]\<rparr>"
    "pending_ops eager_received = 1" "place (snd (outside eager_received)) = No_Place"
    by (simp_all add: eager_defs port_pipe_def unsent_def)
  with eager_run_first eager_run_second show ?thesis by blast
qed

theorem port_refines_pipe_witness:
  "\<exists>r1 s1 r2 s2. eager_run 1 reactor_new fresh_port = Some (Next, r1, s1)
    \<and> eager_run 1 r1 s1 = Some (Next, r2, s2)
    \<and> port_pipe queue line r1 s1 = Some \<lparr>on_line = [1, 2, 3], in_flight = [4, 5, 6, 7]\<rparr>
    \<and> port_pipe queue line r2 s2 = Some \<lparr>on_line = [1, 2, 3, 4, 5, 6, 7], in_flight = []\<rparr>
    \<and> pipe_step\<^sup>*\<^sup>* \<lparr>on_line = [1, 2, 3], in_flight = [4, 5, 6, 7]\<rparr>
        \<lparr>on_line = [1, 2, 3, 4, 5, 6, 7], in_flight = []\<rparr>"
proof -
  obtain r1 s1 where 1: "eager_run 1 reactor_new fresh_port = Some (Next, r1, s1)"
    "port_pipe queue line r1 s1 = Some \<lparr>on_line = [1, 2, 3], in_flight = [4, 5, 6, 7]\<rparr>"
  and "\<exists>r2 s2. eager_run 1 r1 s1 = Some (Next, r2, s2)
    \<and> port_pipe queue line r2 s2 = Some \<lparr>on_line = [1, 2, 3, 4, 5, 6, 7], in_flight = []\<rparr>"
    using eager_run_2 by blast
  then obtain r2 s2 where 2: "eager_run 1 r1 s1 = Some (Next, r2, s2)"
    "port_pipe queue line r2 s2 = Some \<lparr>on_line = [1, 2, 3, 4, 5, 6, 7], in_flight = []\<rparr>" by blast
  from port_refines_pipe [OF tty_device.device_wire_axioms tty_bounded fifo_quiet.quiet_channel_axioms
      eager_environment fresh_started, of Linux 96 1 1] 1 2
  show ?thesis by (auto simp del: One_nat_def run_open.simps)
qed

text \<open>
  C4: \<open>pendingOps\<close> counts exactly the commands in flight, those the channel holds and those the
  reactor holds, and the place the JavaScript thread may hold while it sends one; at most 64 commands
  are in flight. No command is counted twice or released twice, so the counter neither drifts nor
  wraps.
\<close>

theorem pending_counts_exact:
  assumes "device_wire io sent" and "bounded_stream io" and "quiet_channel rt contents"
    and "js_environment contents sent peer" and "started contents sent s"
  shows "\<exists>ph r s'. run_open os io (tracked rt) peer n Next reactor_new s = Some (ph, r, s')
    \<and> unat (pending_ops s') = length (commands r) + outstanding (contents (fst (outside s'))) + held_places s'
    \<and> length (commands r) + outstanding (contents (fst (outside s'))) \<le> MAX_PENDING_OPS"
  by (rule quiet_channel.run_system [OF assms(3,1,2,4,5), of os 0 n]) auto

theorem pending_counts_exact_witness:
  "\<exists>r s. eager_run 1 reactor_new fresh_port = Some (Next, r, s) \<and> pending_ops s = 1
    \<and> length (commands r) + outstanding (queue (fst (outside s))) = 1"
  using pending_counts_exact [OF tty_device.device_wire_axioms tty_bounded fifo_quiet.quiet_channel_axioms
      eager_environment fresh_started, of Linux 96 1] eager_run_2 by auto

text \<open>
  C6: every method of a port keeps to the accesses the pipe allows, even while the reactor runs
  between any two of its own: it never panics, an immediate write happens only when nothing is in
  flight, a command is sent only with a place in the counter, and no place is kept when the method
  returns. An accepted call has submitted exactly its data, a refused one a prefix of it.
\<close>

theorem js_calls_keep_to_accesses:
  assumes "wire io sent" and "bounded_stream io" and "command_channel rt contents"
    and "never_raises peer" and "place g = No_Place"
  shows "\<exists>ok s' xs. js_step io rt peer call s = Some (ok, s')
    \<and> js_path contents sent peer (g, s) (submits xs g, s')
    \<and> prefix xs (call_data call) \<and> (ok \<longrightarrow> xs = call_data call)"
proof -
  have "js_thread io sent rt contents peer"
    by (intro js_thread.intro js_thread_axioms.intro assms)
  from js_thread.path_js_step [OF this assms(2,5)] show ?thesis .
qed

theorem js_calls_keep_to_accesses_witness:
  "\<exists>s. js_step (unix_stream tty_fd) (fifo_runtime 96) no_peer (Js_Write 9 [1, 2, 3] True) slow_port = Some (True, s)
     \<and> js_path queue line no_peer (no_ghost, slow_port) (submits [1, 2, 3] no_ghost, s)"
proof -
  have n: "never_raises no_peer" "place no_ghost = No_Place" by (simp_all add: never_raises_def no_ghost_def)
  obtain s where "js_step (unix_stream tty_fd) (fifo_runtime 96) no_peer (Js_Write 9 [1, 2, 3] True) slow_port
      = Some (True, s)"
    by (simp add: write_eval)
  with js_calls_keep_to_accesses [OF tty_wire.wire_axioms tty_bounded fifo_channel.command_channel_axioms n,
      of 96 "Js_Write 9 [1, 2, 3] True" slow_port] show ?thesis by auto
qed

end
