(* ===== verification/Reactor_Progress.thy ===== *)
theory Reactor_Progress
  imports Reactor_Correct
begin

text \<open>
  Progress of the reactor: on a device that keeps accepting bytes, queued commands complete within
  a number of turns that the bytes still to be written bound, also while data is being received.
\<close>

subsection \<open>The surroundings of a reactor that makes progress\<close>

text \<open>
  A shared state that lets the reactor work: the port is not stopped, and its device is healthy with
  room for \<open>n\<close> more bytes.
\<close>

definition calm ::
  "('e \<Rightarrow> bool) \<Rightarrow> ('p \<Rightarrow> bool) \<Rightarrow> ('p \<Rightarrow> nat) \<Rightarrow> nat \<Rightarrow> ('p, 'e) control \<Rightarrow> bool" where
  "calm Q healthy room n s \<longleftrightarrow>
     \<not> stop s \<and> \<not> poisoned s \<and> Q (outside s)
     \<and> (\<exists>p. session s = Some p \<and> healthy p \<and> n \<le> room p)"

lemma calm_less: "calm Q healthy room n s \<Longrightarrow> m \<le> n \<Longrightarrow> calm Q healthy room m s"
  by (auto simp: calm_def)

lemma calmI:
  "\<not> stop s \<Longrightarrow> \<not> poisoned s \<Longrightarrow> Q (outside s) \<Longrightarrow> session s = Some p \<Longrightarrow> healthy p \<Longrightarrow> n \<le> room p \<Longrightarrow>
     calm Q healthy room n s"
  by (auto simp: calm_def)

text \<open>The bytes of the queued commands that have not been written yet.\<close>

definition owed :: "reactor \<Rightarrow> nat" where
  "owed r = length (payloads (commands r)) - written r"

text \<open>What a turn still has to do: bytes to write, and perhaps a read that comes first.\<close>

definition effort :: "reactor \<Rightarrow> nat" where
  "effort r = 2 * owed r + (if write_first (transfers r) then 0 else 1)"

text \<open>Reads have room to store something, so that none looks like the end of the device.\<close>

definition reads_some :: "reactor \<Rightarrow> bool" where
  "reads_some r \<longleftrightarrow> (\<forall>i len. read r = Some (i, len) \<longrightarrow> 0 < len)"

text \<open>Transfers leave the queue to the commands.\<close>

lemma handle_read_frame:
  assumes "handle_read io rt peer writing capacity len r s = Some (out, r', s')"
    and "wf_size (w_size (window r))"
  shows "commands r' = commands r \<and> dones (log r') = dones (log r)"
proof -
  have burst: "commands r2 = commands q \<and> dones (log r2) = dones (log q)"
    if "send_ready_reads io rt peer len q u = Some (x, r2, s2)" "wf_size (w_size (window q))" for q u x r2 s2
    using send_ready_reads_spec [OF that] by (auto simp: same_queue_def io_only_def)
  have wf: "wf_size (w_size w)"
    if "charge len ((window r)\<lparr>w_size := next_window_size f (w_size (window r)) len\<rparr>) = Some w" for f w
    using that next_window_size_wf [OF assms(2), of f len]
    by (auto simp: charge_def split: option.splits)
  show ?thesis
    using assms(1)
    by (auto simp: handle_read_def Let_def split: if_splits option.splits prod.splits sum.splits
        dest!: send_log send_read_log burst wf)
qed

lemma handle_transfer_frame:
  assumes "handle_transfer io rt peer wr capacity x r s = Some (out, r', s')" and "wf_size (w_size (window r))"
  shows "commands r' = commands r \<and> dones (log r') = dones (log r)"
  using assms
  by (auto simp: handle_transfer_def Let_def split: sum.splits transfer.splits if_splits
      dest!: handle_read_frame)

lemma transfer_branch_frame:
  assumes "transfer_branch io rt peer wr capacity r s = Some (out, r', s')" and "wf_size (w_size (window r))"
  shows "commands r' = commands r \<and> dones (log r') = dones (log r)"
  using assms
  by (auto simp: transfer_branch_def poll_transfers_def Let_def
      split: if_splits option.splits prod.splits sum.splits poll.splits dest!: handle_transfer_frame)

text \<open>
  What progress relies on. Between two accesses the other threads do not stop the port or send it a
  command, and take events in time, so that one can be published (\<open>ready\<close>); they may release
  places in the counter, grant no new credit, and the device may receive. A healthy device accepts
  at least one byte of a write while it has room, and a read of it finds data, waits, or is interrupted.
\<close>

locale steady_port =
  fixes os :: target_os and io :: "('p, 'z) serial_stream_scheme" and rt :: "'e runtime"
    and peer :: "('p, 'e) peer" and idle :: "'e \<Rightarrow> bool" and ready :: "'e \<Rightarrow> bool"
    and healthy :: "'p \<Rightarrow> bool" and room :: "'p \<Rightarrow> nat"
  assumes bounded: "bounded_stream io"
    and peer_calm: "calm idle healthy room n s \<Longrightarrow> calm ready healthy room n (peer s)"
    and ready_idle: "ready e \<Longrightarrow> idle e"
    and not_notified: "ready e \<Longrightarrow> \<exists>e'. notified rt e = (False, e') \<and> idle e'"
    and no_command: "ready e \<Longrightarrow> \<exists>e'. recv rt e = (Pending, e') \<and> idle e'"
    and accepts_event: "ready e \<Longrightarrow> \<exists>e'. call_nonblocking rt ev e = (Status_Ok, e') \<and> idle e'"
    and write_accepts: "healthy p \<Longrightarrow> 0 < room p \<Longrightarrow> xs \<noteq> [] \<Longrightarrow>
      \<exists>k p'. poll_write_io io xs p = (Ready (Inr k), p') \<and> 0 < k \<and> healthy p' \<and> room p \<le> room p' + k"
    and read_survives: "healthy p \<Longrightarrow> 0 < n \<Longrightarrow> poll_read_io io n p = (x, p') \<Longrightarrow>
      healthy p' \<and> room p \<le> room p'
      \<and> (case x of Pending \<Rightarrow> True | Ready (Inl e) \<Rightarrow> kind e = Interrupted | Ready (Inr bs) \<Rightarrow> bs \<noteq> [])"
    and operation_survives: "healthy p \<Longrightarrow> control_operation os io c p = (y, p') \<Longrightarrow>
      healthy p' \<and> room p \<le> room p'"
begin

abbreviation (input) calm_idle :: "nat \<Rightarrow> ('p, 'e) control \<Rightarrow> bool" where
  "calm_idle \<equiv> calm idle healthy room"

lemma calm_peer: "calm_idle n s \<Longrightarrow> calm_idle n (peer s)"
  using peer_calm [of n s] ready_idle by (auto simp: calm_def)

lemma load_stop_calm:
  "calm_idle n s \<Longrightarrow> load_stop peer s = (stopped, s') \<Longrightarrow> \<not> stopped \<and> calm_idle n s'"
  using calm_peer [of n s] by (auto simp: load_stop_def Let_def calm_def)

lemma publish_calm:
  assumes "calm_idle n s" and "publish rt peer ev r s = (ok, r', s')"
  shows "ok \<and> calm_idle n s'"
proof -
  have c: "calm ready healthy room n (peer s)" by (rule peer_calm [OF assms(1)])
  then obtain e' where "call_nonblocking rt ev (outside (peer s)) = (Status_Ok, e')" "idle e'"
    using accepts_event [of "outside (peer s)" ev] by (auto simp: calm_def)
  with assms(2) c show ?thesis by (auto simp: publish_def Let_def calm_def)
qed

lemma send_calm: "calm_idle n s \<Longrightarrow> send rt peer ev r s = (ok, r', s') \<Longrightarrow> ok \<and> calm_idle n s'"
  unfolding send_def by (rule publish_calm)

lemma fetch_sub_calm: "calm_idle n s \<Longrightarrow> calm_idle n (fetch_sub_pending peer s)"
  using calm_peer [of n s] by (simp add: calm_def)

lemma control_calm:
  assumes "calm_idle n s" and "with_port peer (control_operation os io c) s = (y, s')"
  shows "calm_idle n s'"
proof -
  obtain p where p: "\<not> stop (peer s)" "\<not> poisoned (peer s)" "idle (outside (peer s))"
    "session (peer s) = Some p" "healthy p" "n \<le> room p"
    using calm_peer [OF assms(1)] by (auto simp: calm_def)
  obtain y' p' where op: "control_operation os io c p = (y', p')" by fastforce
  from operation_survives [OF p(5) op] p op assms(2) show ?thesis
    by (auto simp: with_port_def locked_port_def Let_def intro!: calmI)
qed

subsection \<open>The ordered queue\<close>

text \<open>A command that is no drain completes, or is a write with bytes left.\<close>

lemma complete_front_calm:
  assumes "calm_idle n s" and "operation c \<noteq> Op_Drain"
    and "complete_front os io rt peer c r s = (f, r', s')"
  shows "calm_idle n s' \<and> (if \<exists>data. operation c = Op_Write data \<and> written r < length data
      then f = Front_Blocked else \<exists>ev. f = Front_Done ev)"
  using assms control_calm [OF assms(1), of c]
  by (cases "operation c")
    (auto simp: complete_front_def split: if_splits prod.splits sum.splits)

lemma drain_commands_calm:
  assumes "drain_commands os io rt peer cs r s = (res, r', s')"
    and "core_inv (r\<lparr>commands := cs\<rparr>)" and "live_inv r" and "calm_idle n s"
    and "\<forall>c \<in> set cs. operation c \<noteq> Op_Drain"
  shows "\<exists>cs1. res = Inr False \<and> calm_idle n s' \<and> cs = cs1 @ commands r'
    \<and> dones (log r') = dones (log r) @ cs1 \<and> transfers r' = transfers r \<and> read r' = read r
    \<and> owed r' = owed (r\<lparr>commands := cs\<rparr>)
    \<and> (\<forall>c cs2. commands r' = c # cs2 \<longrightarrow> (\<exists>data. operation c = Op_Write data \<and> written r' < length data))"
  using assms
proof (induction cs arbitrary: r s)
  case Nil
  then show ?case by (auto simp: owed_def)
next
  case (Cons c cs)
  have oc: "operation c \<noteq> Op_Drain" using Cons.prems(5) by simp
  from Cons.prems(1-3) show ?case
  proof (cases rule: drain_commands_step)
    case stopped
    with load_stop_calm [OF Cons.prems(4)] show ?thesis by blast
  next
    case (waiting f s1)
    have "calm_idle n s1" using load_stop_calm [OF Cons.prems(4) waiting(1)] by simp
    note calm = complete_front_calm [OF this oc waiting(2)]
    with waiting(4) have "f = Front_Blocked" by (cases f) (auto split: if_splits)
    moreover from this obtain data where "operation c = Op_Write data" "written r' < length data"
      using calm waiting(3) by (auto split: if_splits)
    ultimately show ?thesis using calm waiting by (simp add: owed_def)
  next
    case (completed s1 ev s2 ok r3 s3)
    have "calm_idle n s1" using load_stop_calm [OF Cons.prems(4) completed(1)] by simp
    note calm = complete_front_calm [OF this oc completed(2)]
    have s3: ok "calm_idle n s3"
      using send_calm [OF fetch_sub_calm [OF conjunct1 [OF calm]] completed(5)] by simp_all
    with completed(7-10) Cons.IH [of r3 s3] Cons.prems(5) obtain cs1 where
      "res = Inr False \<and> calm_idle n s' \<and> cs = cs1 @ commands r'
        \<and> dones (log r') = dones (log r3) @ cs1 \<and> transfers r' = transfers r3 \<and> read r' = read r3
        \<and> owed r' = owed (r3\<lparr>commands := cs\<rparr>)
        \<and> (\<forall>c cs2. commands r' = c # cs2 \<longrightarrow> (\<exists>data. operation c = Op_Write data \<and> written r' < length data))"
      by auto
    moreover have "owed (r3\<lparr>commands := cs\<rparr>) = owed (r\<lparr>commands := c # cs\<rparr>)"
      using completed(4,6) by (simp add: owed_def)
    ultimately show ?thesis
      using completed(6) by (intro exI [of _ "c # cs1"]) simp
  qed
qed

subsection \<open>One transfer\<close>

text \<open>A poll with bytes to write makes progress, or reads first and writes next.\<close>

lemma poll_progress:
  assumes "healthy p" and "0 < room p" and "xs \<noteq> []" and "rd \<noteq> Some []"
    and "poll io tp p w rd (Some xs) = (result, tp', p', w', rd')"
  shows "healthy p' \<and>
    ((\<exists>k. result = Ready (Inr (Tr_Write k)) \<and> 0 < k \<and> \<not> write_first tp' \<and> room p \<le> room p' + k)
     \<or> (\<exists>k. result = Ready (Inr (Tr_Read k)) \<and> 0 < k \<and> \<not> write_first tp \<and> write_first tp' \<and> room p \<le> room p'))"
proof -
  have wr: "\<exists>k q'. poll_write io q v (Some xs) = (Ready (Inr (Tr_Write k)), q', v) \<and> 0 < k
      \<and> healthy q' \<and> room q \<le> room q' + k" if q: "healthy q" "0 < room q" for q v
    using write_accepts [OF q assms(3)] by (auto simp: poll_write_Ready_Inr)
  obtain x q v rd2 where rdp: "poll_read io p w rd = (x, q, v, rd2)" by (metis prod_cases4)
  have q: "healthy q \<and> room p \<le> room q \<and> (x = Pending \<or> (\<exists>k. x = Ready (Inr (Tr_Read k)) \<and> 0 < k))"
  proof (cases rd)
    case None
    with rdp assms(1) show ?thesis by (auto simp: poll_read_def)
  next
    case (Some buf)
    with assms(4) have "0 < length buf" by simp
    obtain y p2 where y: "poll_read_io io (length buf) p = (y, p2)" by fastforce
    from read_survives [OF assms(1) \<open>0 < length buf\<close> y] rdp Some y show ?thesis
      by (auto simp: poll_read_def retry_interrupted_def split: poll.splits sum.splits if_splits)
  qed
  show ?thesis
  proof (cases "write_first tp")
    case True
    from wr [OF assms(1,2), of w] obtain k q' where
      "poll_write io p w (Some xs) = (Ready (Inr (Tr_Write k)), q', w)" "0 < k" "healthy q'" "room p \<le> room q' + k"
      by blast
    with True assms(5) show ?thesis by (auto simp: poll_def)
  next
    case False
    from q assms(2) wr [of q v] obtain k q' where
      "poll_write io q v (Some xs) = (Ready (Inr (Tr_Write k)), q', v)" "0 < k" "healthy q'" "room q \<le> room q' + k"
      by auto
    with False assms(5) rdp q show ?thesis by (auto simp: poll_def)
  qed
qed

text \<open>A completed read during a write is published, and the queue is left alone.\<close>

lemma send_read_calm:
  assumes "calm_idle n s" and "send_read rt peer len r s = Some (ok, r', s')"
  shows "ok \<and> calm_idle n s' \<and> commands r' = commands r \<and> written r' = written r
    \<and> transfers r' = transfers r \<and> dones (log r') = dones (log r) \<and> read r' = read r"
  using assms(2) send_read_log [OF assms(2)]
  by (auto simp: send_read_def split: option.splits dest: publish_calm [OF assms(1)])

lemma handle_read_calm:
  assumes "calm_idle n s" and "handle_read io rt peer True capacity len r s = Some (out, r', s')"
    and "streaming r \<or> read r \<noteq> None"
  shows "out = Next \<and> calm_idle n s' \<and> commands r' = commands r \<and> written r' = written r
    \<and> transfers r' = transfers r \<and> dones (log r') = dones (log r) \<and> (read r' = read r \<or> read r' = None)"
proof (cases "streaming r")
  case True
  with assms(2) show ?thesis
    by (auto simp: handle_read_def Let_def split: option.splits dest!: send_read_calm [OF assms(1)])
next
  case False
  with assms(3) obtain i k where rd: "read r = Some (i, k)" by auto
  define q where "q = r\<lparr>window := (window r)
    \<lparr>w_size := next_window_size (Some len = capacity) (w_size (window r)) len\<rparr>, read := None, read_buffer := []\<rparr>"
  define ev where "ev = (native_event_new i ''read'')\<lparr>ev_data := Some (take len (read_buffer r))\<rparr>"
  obtain ok r2 s2 where sent: "send rt peer ev q s = (ok, r2, s2)" by (metis prod_cases3)
  from assms(2) False rd sent have "out = (if ok then Next else Finished (Inr ()))" "r' = r2" "s' = s2"
    by (auto simp: handle_read_def Let_def q_def ev_def)
  with send_calm [OF assms(1) sent] send_log [OF sent] show ?thesis by (simp add: q_def)
qed

text \<open>The transfer branch with bytes to write: some are written, or a read is done first.\<close>

lemma transfer_branch_progress:
  assumes "calm_idle n s" and "xs \<noteq> []" and "length xs \<le> n"
    and "\<And>len. capacity = Some len \<Longrightarrow>
      0 < len \<and> len \<le> length (read_buffer r) \<and> (streaming r \<or> read r \<noteq> None)"
    and "transfer_branch io rt peer (Some xs) capacity r s = Some (out, r', s')"
  shows "\<exists>m. out = Some Next \<and> commands r' = commands r \<and> dones (log r') = dones (log r)
    \<and> (read r' = read r \<or> read r' = None) \<and> calm_idle (n - m) s' \<and> written r' = written r + m
    \<and> (0 < m \<or> \<not> write_first (transfers r) \<and> write_first (transfers r'))"
proof -
  define rd where "rd = map_option (\<lambda>len. take len (read_buffer r)) capacity"
  have rd: "(case capacity of None \<Rightarrow> Some None
      | Some len \<Rightarrow> map_option Some (slice_to (read_buffer r) len)) = Some rd" "rd \<noteq> Some []"
    using assms(4) by (cases capacity; force simp: rd_def slice_to_def)+
  obtain p where p: "\<not> stop (peer s)" "\<not> poisoned (peer s)" "idle (outside (peer s))"
    "session (peer s) = Some p" "healthy p" "n \<le> room p"
    using calm_peer [OF assms(1)] by (auto simp: calm_def)
  have "0 < room p" using p(6) assms(2,3) by (cases xs) auto
  obtain x tp p' w rd' where polled: "poll io (transfers r) p 0 rd (Some xs) = (x, tp, p', w, rd')"
    by (metis prod_cases5)
  define q where "q = (case (rd', capacity) of
      (Some bs, Some len) \<Rightarrow> r\<lparr>transfers := tp, read_buffer := bs @ drop len (read_buffer r)\<rparr>
    | _ \<Rightarrow> r\<lparr>transfers := tp\<rparr>)"
  have q: "commands q = commands r" "written q = written r" "read q = read r" "streaming q = streaming r"
    "transfers q = tp" "log q = log r"
    by (simp_all add: q_def split: option.split)
  define u where "u = (peer s)\<lparr>session := Some p'\<rparr>"
  note progress = poll_progress [OF p(5) \<open>0 < room p\<close> assms(2) rd(2) polled]
  have branch: "map_option (\<lambda>(out, r, s). (Some out, r, s))
      (handle_transfer io rt peer (Some xs) capacity t q u) = Some (out, r', s')" if "x = Ready t" for t
    using assms(5) that polled p rd(1)
    by (simp add: transfer_branch_def poll_transfers_def locked_port_def q_def u_def Let_def
        split: option.split_asm)
  from progress show ?thesis
  proof (elim conjE disjE exE)
    fix k assume k: "x = Ready (Inr (Tr_Write k))" "0 < k" "room p \<le> room p' + k" "healthy p'"
    have "calm_idle (n - k) u" using p k by (intro calmI [where p = p']) (simp_all add: u_def)
    with branch [OF k(1)] k(2) q show ?thesis by (intro exI [of _ k]) (auto simp: handle_transfer_def Let_def)
  next
    fix k assume k: "x = Ready (Inr (Tr_Read k))" "0 < k" "\<not> write_first (transfers r)" "write_first tp"
      "room p \<le> room p'" "healthy p'"
    have u: "calm_idle n u" using p k by (intro calmI [where p = p']) (simp_all add: u_def)
    have "rd \<noteq> None" using poll_Ready_Inr [OF polled [unfolded k(1)]] by auto
    then have "streaming r \<or> read r \<noteq> None" using assms(4) by (cases capacity) (auto simp: rd_def)
    with branch [OF k(1)] k(2) q obtain out2 where h: "out = Some out2"
      "handle_read io rt peer True capacity k
        (note_obs (Obs_Read (streaming q) (take k (read_buffer q))) q) u = Some (out2, r', s')"
      by (auto simp: handle_transfer_def)
    from handle_read_calm [OF u h(2)] \<open>streaming r \<or> read r \<noteq> None\<close> q h(1) k(3,4) show ?thesis
      by (intro exI [of _ 0]) auto
  qed
qed

subsection \<open>One turn\<close>

lemma select_calm:
  assumes "calm_idle n s" and "pending_write r = Some wr"
  obtains q u where "calm_idle n u" "q = (case read_capacity r of None \<Rightarrow> r | Some len \<Rightarrow> grow_buffer len r)"
    "select io rt peer draining r s =
      (case transfer_branch io rt peer wr (read_capacity r) q u of
         None \<Rightarrow> None
       | Some (Some out, r, s) \<Rightarrow> Some (out, r, s)
       | Some (None, r, s) \<Rightarrow> (let (out, s) = timer_branch rt peer draining s in Some (out, r, s)))"
proof -
  have c: "calm ready healthy room n (peer s)" by (rule peer_calm [OF assms(1)])
  then obtain e where e: "notified rt (outside (peer s)) = (False, e)" "idle e"
    using not_notified by (auto simp: calm_def)
  define v where "v = (peer s)\<lparr>outside := e\<rparr>"
  have "calm_idle n v" using c e(2) by (simp add: calm_def v_def)
  then have d: "calm ready healthy room n (peer v)" by (rule peer_calm)
  then obtain e2 where e2: "recv rt (outside (peer v)) = (Pending, e2)" "idle e2"
    using no_command by (auto simp: calm_def)
  define u where "u = (peer v)\<lparr>outside := e2\<rparr>"
  have "calm_idle n u" using d e2(2) by (simp add: calm_def u_def)
  then show thesis
    by (rule that [OF _ refl])
      (simp add: select_def assms(2) e(1) e2(1) v_def [symmetric] u_def [symmetric] Let_def)
qed

lemma select_progress:
  assumes "core_inv r" and "live_inv r" and "reads_some r" and "calm_idle n s" and "owed r \<le> n"
    and "commands r = c # cs" and "operation c = Op_Write data" and "written r < length data"
  shows "\<exists>r' s' m. select io rt peer draining r s = Some (Next, r', s') \<and> core_inv r' \<and> live_inv r'
    \<and> reads_some r' \<and> calm_idle (n - m) s' \<and> owed r' \<le> n - m \<and> effort r' < effort r
    \<and> commands r' = commands r \<and> dones (log r') = dones (log r)"
proof -
  let ?xs = "drop (written r) data"
  have wr: "pending_write r = Some (Some ?xs)" using assms(6-8) by (simp add: pending_write_def slice_from_def)
  from assms(4) wr obtain q u where u: "calm_idle n u"
    and q: "q = (case read_capacity r of None \<Rightarrow> r | Some len \<Rightarrow> grow_buffer len r)"
    and sel: "select io rt peer draining r s =
      (case transfer_branch io rt peer (Some ?xs) (read_capacity r) q u of
         None \<Rightarrow> None
       | Some (Some out, r, s) \<Rightarrow> Some (out, r, s)
       | Some (None, r, s) \<Rightarrow> (let (out, s) = timer_branch rt peer draining s in Some (out, r, s)))"
    by (rule select_calm)
  obtain out r' s' where res: "select io rt peer draining r s = Some (out, r', s')" "loop_inv out r'"
    using select_inv [OF bounded assms(1,2)] by blast
  have same: "commands q = commands r" "written q = written r" "read q = read r" "streaming q = streaming r"
    "transfers q = transfers r" "log q = log r" "\<And>len. read_capacity r = Some len \<Longrightarrow> len \<le> length (read_buffer q)"
    by (simp_all add: q split: option.split)
  have xs: "?xs \<noteq> []" "length ?xs \<le> n" using assms(5-8) by (simp_all add: owed_def)
  have cap: "0 < len \<and> len \<le> length (read_buffer q) \<and> (streaming q \<or> read q \<noteq> None)"
    if "read_capacity r = Some len" for len
    using that same assms(2,3)
    by (auto simp: read_capacity_def read_length_def live_inv_def wf_size_def reads_some_def
        split: option.splits if_splits)
  obtain o2 where "transfer_branch io rt peer (Some ?xs) (read_capacity r) q u = Some (o2, r', s')
      \<and> o2 = Some out \<or> (\<exists>r2 s2. transfer_branch io rt peer (Some ?xs) (read_capacity r) q u = Some (None, r2, s2))"
    using sel res(1) by (auto split: option.splits prod.splits)
  with transfer_branch_progress [OF u xs cap] obtain m where
    m: "out = Next" "commands r' = commands q" "dones (log r') = dones (log q)"
      "read r' = read q \<or> read r' = None" "calm_idle (n - m) s'" "written r' = written q + m"
      "0 < m \<or> \<not> write_first (transfers q) \<and> write_first (transfers r')" by blast
  have owes: "owed r' = owed r - m" "0 < owed r" using m same assms(6-8) by (simp_all add: owed_def)
  have "effort r' < effort r"
    using m(7) owes same unfolding effort_def by (cases "m = 0") auto
  moreover have "reads_some r'" using m(4) same assms(3) by (auto simp: reads_some_def)
  ultimately show ?thesis
    using res m same owes assms(5)
    by (intro exI [of _ r'] exI [of _ s'] exI [of _ m]) auto
qed

lemma turn_progress:
  assumes "core_inv r" and "live_inv r" and "reads_some r" and "calm_idle n s" and "owed r \<le> n"
    and "\<forall>c \<in> set (commands r). operation c \<noteq> Op_Drain"
  shows "\<exists>out r' s' cs. turn os io rt peer Next r s = Some (out, r', s') \<and> core_inv r'
    \<and> commands r = cs @ commands r' \<and> dones (log r') = dones (log r) @ cs
    \<and> (commands r' = [] \<or> out = Next \<and> live_inv r' \<and> reads_some r' \<and> effort r' < effort r
         \<and> (\<exists>m. calm_idle (n - m) s' \<and> owed r' \<le> n - m))"
proof -
  obtain stopped s1 where stop: "load_stop peer s = (stopped, s1)" by fastforce
  have s1: "\<not> stopped" "calm_idle n s1" using load_stop_calm [OF assms(4) stop] by simp_all
  obtain res r1 s2 where d: "drain_commands os io rt peer (commands r) r s1 = (res, r1, s2)"
    by (metis prod_cases3)
  have inv: "core_inv (r\<lparr>commands := commands r\<rparr>)" using assms(1) by simp
  from drain_commands_calm [OF d inv assms(2) s1(2) assms(6)] obtain cs where
    r1: "res = Inr False" "calm_idle n s2" "commands r = cs @ commands r1"
      "dones (log r1) = dones (log r) @ cs" "transfers r1 = transfers r" "read r1 = read r" "owed r1 = owed r"
    and front: "\<And>c cs2. commands r1 = c # cs2 \<Longrightarrow> \<exists>data. operation c = Op_Write data \<and> written r1 < length data"
    by auto
  have inv1: "core_inv r1" "live_inv r1"
    using drain_commands_inv [OF d inv assms(2)] r1(1) by blast+
  have turn: "turn os io rt peer Next r s = select io rt peer False r1 s2"
    using stop s1(1) d r1(1) by (simp add: turn_def)
  have e1: "effort r1 = effort r" "reads_some r1"
    using r1 assms(3) by (simp_all add: effort_def reads_some_def)
  show ?thesis
  proof (cases "commands r1")
    case Nil
    then have "pending_write r1 = Some None" by (simp add: pending_write_def)
    with r1(2) obtain q u where q: "q = (case read_capacity r1 of None \<Rightarrow> r1 | Some len \<Rightarrow> grow_buffer len r1)"
      and sel: "select io rt peer False r1 s2 =
        (case transfer_branch io rt peer None (read_capacity r1) q u of
           None \<Rightarrow> None
         | Some (Some out, r, s) \<Rightarrow> Some (out, r, s)
         | Some (None, r, s) \<Rightarrow> (let (out, s) = timer_branch rt peer False s in Some (out, r, s)))"
      by (rule select_calm)
    obtain out r' s' where res: "select io rt peer False r1 s2 = Some (out, r', s')" "loop_inv out r'"
      using select_inv [OF bounded inv1] by blast
    have "wf_size (w_size (window q))" "commands q = commands r1" "log q = log r1"
      using inv1(2) by (simp_all add: q live_inv_def split: option.split)
    with sel res(1) have "commands r' = [] \<and> dones (log r') = dones (log r1)"
      by (auto simp: Nil Let_def split: option.splits prod.splits dest!: transfer_branch_frame)
    with turn res r1 Nil show ?thesis
      by (intro exI [of _ out] exI [of _ r'] exI [of _ s'] exI [of _ cs]) (simp add: loop_inv_def)
  next
    case (Cons c cs2)
    with front obtain data where "operation c = Op_Write data" "written r1 < length data" by blast
    moreover have "owed r1 \<le> n" using r1(7) assms(5) by simp
    ultimately obtain r' s' m where "select io rt peer False r1 s2 = Some (Next, r', s') \<and> core_inv r' \<and> live_inv r'
        \<and> reads_some r' \<and> calm_idle (n - m) s' \<and> owed r' \<le> n - m \<and> effort r' < effort r1
        \<and> commands r' = commands r1 \<and> dones (log r') = dones (log r1)"
      using select_progress [OF inv1 e1(2) r1(2) _ Cons] by blast
    with turn e1 r1 show ?thesis
      by (intro exI [of _ Next] exI [of _ r'] exI [of _ s'] exI [of _ cs]) auto
  qed
qed

subsection \<open>The whole queue\<close>

lemma run_progress:
  assumes "core_inv r" and "live_inv r" and "reads_some r" and "calm_idle n s" and "owed r \<le> n"
    and "\<forall>c \<in> set (commands r). operation c \<noteq> Op_Drain"
  shows "\<exists>k out r' s'. k \<le> Suc (effort r) \<and> run_open os io rt peer k Next r s = Some (out, r', s')
    \<and> core_inv r' \<and> commands r' = [] \<and> dones (log r') = dones (log r) @ commands r"
  using assms
proof (induction "effort r" arbitrary: n r s rule: less_induct)
  case less
  from turn_progress [OF less.prems] obtain out r' s' cs where
    t: "turn os io rt peer Next r s = Some (out, r', s')" "core_inv r'" "commands r = cs @ commands r'"
      "dones (log r') = dones (log r) @ cs"
    and rest: "commands r' = [] \<or> out = Next \<and> live_inv r' \<and> reads_some r' \<and> effort r' < effort r
         \<and> (\<exists>m. calm_idle (n - m) s' \<and> owed r' \<le> n - m)"
    by blast
  show ?case
  proof (cases "commands r' = []")
    case True
    have "run_open os io rt peer (Suc 0) Next r s = Some (out, r', s')"
      using t(1) by (cases out) simp_all
    with True t show ?thesis
      by (intro exI [of _ "Suc 0"] exI [of _ out] exI [of _ r'] exI [of _ s']) simp
  next
    case False
    with rest obtain m where n: "out = Next" "live_inv r'" "reads_some r'" "effort r' < effort r"
      "calm_idle (n - m) s'" "owed r' \<le> n - m" by blast
    have "\<forall>c \<in> set (commands r'). operation c \<noteq> Op_Drain" using less.prems(6) t(3) by simp
    from less.hyps [OF n(4) t(2) n(2,3,5,6) this] obtain k out2 r2 s2 where
      "k \<le> Suc (effort r')" "run_open os io rt peer k Next r' s' = Some (out2, r2, s2)" "core_inv r2"
      "commands r2 = []" "dones (log r2) = dones (log r') @ commands r'"
      by blast
    with t n(1,4) show ?thesis
      by (intro exI [of _ "Suc k"] exI [of _ out2] exI [of _ r2] exI [of _ s2]) simp
  qed
qed

end

text \<open>
  A terminal whose chunks are not empty, with JavaScript taking the published events between any two
  accesses.
\<close>

definition sound_tty :: "tty \<Rightarrow> bool" where
  "sound_tty p \<longleftrightarrow> \<not> broken p \<and> stale p = 0 \<and> [] \<notin> set (arrived p)"

definition idle_fifo :: "fifo \<Rightarrow> bool" where
  "idle_fifo e \<longleftrightarrow> queue e = [] \<and> \<not> senders_gone e \<and> \<not> permit e \<and> \<not> closing e"

definition take_events :: "('p, fifo) peer" where
  "take_events s = s\<lparr>outside := (outside s)\<lparr>callbacks := []\<rparr>\<rparr>"

lemma sound_tty_read:
  assumes "sound_tty p" and "0 < n" and "poll_read_io (unix_stream tty_fd) n p = (x, p')"
  shows "sound_tty p' \<and> space p \<le> space p'
    \<and> (case x of Pending \<Rightarrow> True | Ready (Inl e) \<Rightarrow> kind e = Interrupted | Ready (Inr bs) \<Rightarrow> bs \<noteq> [])"
proof (cases "arrived p")
  case Nil
  with assms show ?thesis by (auto simp: sound_tty_def tty_poll_read(2))
next
  case (Cons c cs)
  with assms show ?thesis by (auto simp: sound_tty_def tty_poll_read(1) [OF _ Cons] split: if_splits dest: in_set_dropD)
qed

lemma sound_tty_operation:
  "sound_tty p \<Longrightarrow> control_operation os (unix_stream tty_fd) c p = (y, p') \<Longrightarrow>
     sound_tty p' \<and> space p \<le> space p'"
  by (auto simp: control_operation_def set_baud_rate_def get_baud_rate_def sound_tty_def tty_fd_def Let_def
      split: operation.splits prod.splits sum.splits if_splits bool.splits)

interpretation steady_tty: steady_port os "unix_stream tty_fd" "fifo_runtime n" take_events
    idle_fifo "\<lambda>e. idle_fifo e \<and> callbacks e = []" sound_tty space for os n
proof (unfold_locales, goal_cases)
  case 1
  show ?case by (rule tty_bounded)
next
  case (2 m s)
  then show ?case by (simp add: calm_def take_events_def idle_fifo_def)
next
  case (7 p xs)
  then show ?case by (auto simp: tty_poll_write sound_tty_def)
next
  case (8 p m x p')
  then show ?case by (rule sound_tty_read)
next
  case (9 p c y p')
  then show ?case by (rule sound_tty_operation)
qed (simp_all add: idle_fifo_def)

subsection \<open>Properties\<close>

text \<open>
  C13: queued commands complete. While the device accepts bytes and JavaScript takes the events, sends
  nothing further and does not close the port, the reactor works off its whole queue, drains apart, in
  at most two turns for each byte still to be written and two more, also while data keeps arriving: every
  command completes, in order, and the port has accepted every byte of them.
\<close>

theorem queued_commands_complete:
  assumes "steady_port os io rt peer idle ready healthy room"
    and "loop_inv Next r" and "reads_some r" and "\<forall>c \<in> set (commands r). operation c \<noteq> Op_Drain"
    and "calm idle healthy room (owed r) s"
  shows "\<exists>n out r' s'. n \<le> 2 * owed r + 2 \<and> run_open os io rt peer n Next r s = Some (out, r', s')
    \<and> commands r' = [] \<and> dones (log r') = dones (log r) @ commands r
    \<and> tx (log r') = payloads (dones (log r) @ commands r)"
proof -
  have inv: "core_inv r" "live_inv r" using assms(2) by simp_all
  from steady_port.run_progress [OF assms(1) inv assms(3,5) order_refl assms(4)] obtain k out r' s'
    where run: "k \<le> Suc (effort r)" "run_open os io rt peer k Next r s = Some (out, r', s')"
      "core_inv r'" "commands r' = []" "dones (log r') = dones (log r) @ commands r"
    by blast
  moreover have "Suc (effort r) \<le> 2 * owed r + 2" by (simp add: effort_def)
  moreover have "tx (log r') = payloads (dones (log r'))" using run(3,4) by (simp add: core_inv_def)
  ultimately show ?thesis
    by (intro exI [of _ k] exI [of _ out] exI [of _ r'] exI [of _ s']) simp
qed

definition busy_reactor :: reactor where
  "busy_reactor = reactor_new
     \<lparr>commands := [\<lparr>cmd_id = 1, operation = Op_Write [1, 2, 3]\<rparr>, \<lparr>cmd_id = 2, operation = Op_Set 1\<rparr>],
      log := [Obs_Recv \<lparr>cmd_id = 1, operation = Op_Write [1, 2, 3]\<rparr>,
              Obs_Recv \<lparr>cmd_id = 2, operation = Op_Set 1\<rparr>]\<rparr>"

theorem queued_commands_complete_witness:
  "\<exists>n out r s. n \<le> 8
     \<and> run_open Linux (unix_stream tty_fd) (fifo_runtime 96) take_events n Next busy_reactor (port_state tty_new [])
         = Some (out, r, s)
     \<and> commands r = [] \<and> length (dones (log r)) = 2 \<and> tx (log r) = [1, 2, 3]"
proof -
  have "done_ok (log busy_reactor)" by (simp add: busy_reactor_def done_ok_def Cons_eq_append_conv)
  then have "core_inv busy_reactor"
    by (simp add: core_inv_def busy_reactor_def reactor_new_def ordered_def)
  moreover have "live_inv busy_reactor"
    using live_inv_new by (simp add: live_inv_def busy_reactor_def reactor_new_def)
  ultimately have inv: "loop_inv Next busy_reactor" by simp
  have r: "reads_some busy_reactor" "\<forall>c \<in> set (commands busy_reactor). operation c \<noteq> Op_Drain"
    "owed busy_reactor = 3" "dones (log busy_reactor) = []" "length (commands busy_reactor) = 2"
    "payloads (commands busy_reactor) = [1, 2, 3]"
    by (simp_all add: busy_reactor_def reactor_new_def reads_some_def owed_def)
  have c: "calm idle_fifo sound_tty space (owed busy_reactor) (port_state tty_new [])"
    by (rule calmI [where p = tty_new])
      (simp_all add: r(3) port_state_def control_new_def empty_fifo_def idle_fifo_def sound_tty_def tty_new_def)
  from queued_commands_complete [OF steady_tty.steady_port_axioms inv r(1,2) c, of Linux 96] r
  show ?thesis by (auto simp del: run_open.simps)
qed

end
