(* ===== verification/Reactor_Protocol.thy ===== *)
theory Reactor_Protocol
  imports Reactor_Correct
begin

text \<open>
  The protocol a reactor keeps with JavaScript, as a machine that reads the reactor's log, and its
  consequence for the queue of the threadsafe function.
\<close>

subsection \<open>The protocol\<close>

text \<open>
  \<open>unanswered\<close> are the identifiers of requests received and not answered yet; \<open>undelivered\<close>
  counts the chunks read on credit and not published yet; \<open>bytes_left\<close> and \<open>slots_left\<close>
  are the credit granted and not spent yet.
\<close>

record protocol_state =
  unanswered :: "u32 multiset"
  undelivered :: nat
  bytes_left :: nat
  slots_left :: nat

definition protocol_start :: protocol_state where
  "protocol_start = \<lparr>unanswered = {#}, undelivered = 0, bytes_left = 0, slots_left = 0\<rparr>"

text \<open>
  A read on credit needs a slot and room for its bytes; an event answers a request that is open;
  data read on credit is published in events with at least one chunk, and none is published twice.
  The loop never drops the device itself.
\<close>

fun protocol_step :: "protocol_state \<Rightarrow> obs \<Rightarrow> protocol_state option" where
  "protocol_step st (Obs_Recv c) =
     Some (case operation c of
             Op_ReadCredit b n \<Rightarrow> st\<lparr>bytes_left := bytes_left st + b, slots_left := slots_left st + n\<rparr>
           | _ \<Rightarrow> st\<lparr>unanswered := add_mset (cmd_id c) (unanswered st)\<rparr>)"
| "protocol_step st (Obs_Read on_credit bs) =
     (if \<not> on_credit then Some st
      else if length bs \<le> bytes_left st \<and> 1 \<le> slots_left st
      then Some (st\<lparr>undelivered := Suc (undelivered st),
                    bytes_left := bytes_left st - length bs, slots_left := slots_left st - 1\<rparr>)
      else None)"
| "protocol_step st (Obs_Write bs) = Some st"
| "protocol_step st (Obs_Done c ev) = Some st"
| "protocol_step st Obs_Closed = None"
| "protocol_step st (Obs_Send (Event ev) ok) =
     (if ev_id ev \<in># unanswered st
      then Some (st\<lparr>unanswered := unanswered st - {#ev_id ev#}\<rparr>) else None)"
| "protocol_step st (Obs_Send ev ok) =
     (if event_chunks ev \<noteq> [] \<and> length (event_chunks ev) \<le> undelivered st
      then Some (st\<lparr>undelivered := undelivered st - length (event_chunks ev)\<rparr>) else None)"

fun follows :: "protocol_state \<Rightarrow> obs list \<Rightarrow> protocol_state option" where
  "follows st [] = Some st"
| "follows st (x # l) = Option.bind (protocol_step st x) (\<lambda>st. follows st l)"

lemma follows_append [simp]:
  "follows st (l @ m) = Option.bind (follows st l) (\<lambda>st. follows st m)"
  by (induction l arbitrary: st) (simp_all add: bind_assoc)

lemma follows_reads:
  assumes "length (concat cs) \<le> bytes_left st" and "length cs \<le> slots_left st"
  shows "follows st (map (Obs_Read True) cs) =
    Some (st\<lparr>undelivered := undelivered st + length cs, bytes_left := bytes_left st - length (concat cs),
             slots_left := slots_left st - length cs\<rparr>)"
  using assms by (induction cs arbitrary: st) simp_all

text \<open>The requests a reactor holds.\<close>

definition waiting :: "reactor \<Rightarrow> u32 multiset" where
  "waiting r = mset (map cmd_id (commands r)) + (case read r of None \<Rightarrow> {#} | Some (i, _) \<Rightarrow> {#i#})"

definition protocol_of :: "reactor \<Rightarrow> protocol_state" where
  "protocol_of r = \<lparr>unanswered = waiting r, undelivered = 0,
                     bytes_left = w_bytes (window r), slots_left = w_slots (window r)\<rparr>"

definition protocol_inv :: "reactor \<Rightarrow> bool" where
  "protocol_inv r \<longleftrightarrow> follows protocol_start (log r) = Some (protocol_of r)"

lemma protocol_inv_new: "protocol_inv reactor_new"
  by (simp add: protocol_inv_def protocol_of_def reactor_new_def waiting_def protocol_start_def)

text \<open>Steps that log \<open>d\<close> keep it when \<open>d\<close> answers what is no longer waiting.\<close>

lemma protocol_inv_step:
  assumes "protocol_inv r" and "log r' = log r @ d"
    and "follows (protocol_of r) d = Some (protocol_of r')"
  shows "protocol_inv r'"
  using assms by (simp add: protocol_inv_def)

subsection \<open>Commands\<close>

lemma handle_command_protocol:
  assumes "handle_command rt peer m r s = (out, r', s')" and "protocol_inv r"
  shows "protocol_inv r'"
proof (cases m)
  case None
  with assms show ?thesis by (simp add: handle_command_def)
next
  case (Some c)
  have keep: "protocol_inv q" if "log q = log r @ [Obs_Recv c]"
    "protocol_step (protocol_of r) (Obs_Recv c) = Some (protocol_of q)" for q
    using that by (intro protocol_inv_step [OF assms(2), of q "[Obs_Recv c]"]) simp_all
  have queued: ?thesis if "ordered c"
  proof (rule keep)
    show "log r' = log r @ [Obs_Recv c]"
      using assms(1) unfolding Some handle_command_ordered [OF that] by auto
    show "protocol_step (protocol_of r) (Obs_Recv c) = Some (protocol_of r')"
      using assms(1) that unfolding Some handle_command_ordered [OF that]
      by (auto simp: protocol_of_def waiting_def ordered_def split: operation.splits)
  qed
  show ?thesis
  proof (cases "operation c")
    case (Op_Read len)
    show ?thesis
    proof (cases "read r \<noteq> None \<or> streaming r")
      case True
      with assms(1) Some Op_Read obtain ok ev where
        "r' = note_obs (Obs_Send (Event ev) ok) (note_obs (Obs_Recv c) r)" "ev_id ev = cmd_id c"
        by (auto simp: handle_command_def split: prod.splits dest!: send_log)
      then show ?thesis using Op_Read
        by (intro protocol_inv_step [OF assms(2), of r' "[Obs_Recv c, Obs_Send (Event ev) ok]"])
          (simp_all add: protocol_of_def waiting_def)
    next
      case False
      then have "read r = None" "\<not> streaming r" by blast+
      with assms(1) Some Op_Read show ?thesis
        by (intro keep) (auto simp: handle_command_def protocol_of_def waiting_def)
    qed
  next
    case (Op_ReadCredit b n)
    with assms(1) Some show ?thesis
      by (intro keep) (auto simp: handle_command_def protocol_of_def waiting_def Let_def split: if_splits)
  qed (use queued in \<open>simp_all add: ordered_def\<close>)
qed

subsection \<open>The ordered queue\<close>

lemma drain_commands_protocol:
  assumes "drain_commands os io rt peer cs r s = (res, r', s')"
    and "core_inv (r\<lparr>commands := cs\<rparr>)" and "live_inv r" and "protocol_inv (r\<lparr>commands := cs\<rparr>)"
  shows "protocol_inv r'"
  using assms
proof (induction cs arbitrary: r s)
  case Nil
  then show ?case by auto
next
  case (Cons c cs)
  from Cons.prems(1-3) show ?case
  proof (cases rule: drain_commands_step)
    case (completed s1 ev s2 ok r3 s3)
    have "protocol_inv r3"
      using completed(3,6)
      by (intro protocol_inv_step [OF Cons.prems(4), of r3 "[Obs_Done c ev, Obs_Send (Event ev) ok]"])
        (simp_all add: answers_def protocol_of_def waiting_def)
    with completed(7-10) Cons.IH [of r3 s3] show ?thesis by (cases ok) auto
  qed (use Cons.prems in auto)
qed

subsection \<open>Completed reads\<close>

text \<open>Chunks read on credit leave in one event, or in the one of the burst and its followers.\<close>

lemma send_read_protocol:
  assumes "send_read rt peer len r s = Some (ok, r', s')"
  shows "\<exists>ev buffer. r' = note_obs (Obs_Send ev ok) (r\<lparr>read_buffer := buffer\<rparr>)
    \<and> (\<forall>st. 1 \<le> undelivered st \<longrightarrow>
          protocol_step st (Obs_Send ev ok) = Some (st\<lparr>undelivered := undelivered st - 1\<rparr>))"
proof -
  obtain ev buffer where "callback_event_read (read_buffer r) len = Some (ev, buffer)"
    "publish rt peer ev (r\<lparr>read_buffer := buffer\<rparr>) s = (ok, r', s')"
    using assms by (auto simp: send_read_def split: option.splits)
  then show ?thesis
    by (intro exI [of _ ev] exI [of _ buffer])
      (auto simp: callback_event_read_def split: if_splits option.splits dest: publish_log)
qed

lemma publish_followers_protocol:
  assumes "publish_followers rt peer first batch r s = (ok, r', s')"
  shows "\<exists>d. r' = r\<lparr>log := log r @ d\<rparr>
    \<and> (\<forall>st. undelivered st = length (followers first batch) \<longrightarrow>
          follows st d = Some (st\<lparr>undelivered := 0\<rparr>))"
proof (cases "first = None \<and> batch = []")
  case True
  with assms show ?thesis
    by (intro exI [of _ "[]"]) (simp add: publish_followers_def followers_def)
next
  case False
  define ev where "ev = (case first of Some data \<Rightarrow> ReadBuffer data | None \<Rightarrow> ReadBatch batch)"
  have "publish rt peer ev r s = (ok, r', s')"
    using assms False by (auto simp: publish_followers_def ev_def split: option.splits)
  then have "r' = r\<lparr>log := log r @ [Obs_Send ev ok]\<rparr>"
    using publish_log by (simp add: note_obs_def)
  with False show ?thesis
    by (intro exI [of _ "[Obs_Send ev ok]"]) (auto simp: ev_def followers_def split: option.splits)
qed

lemma send_ready_reads_protocol:
  assumes "send_ready_reads io rt peer len r s = Some (res, r', s')"
    and "wf_size (w_size (window r))"
  shows "\<exists>d. log r' = log r @ d \<and> same_queue r r'
    \<and> (\<forall>st. undelivered st = 1 \<and> bytes_left st = w_bytes (window r) \<and> slots_left st = w_slots (window r) \<longrightarrow>
          follows st d = Some (st\<lparr>undelivered := 0, bytes_left := w_bytes (window r'),
                                  slots_left := w_slots (window r')\<rparr>))"
  using assms
proof (cases rule: send_ready_reads_cases)
  case (single ok s1)
  from send_read_protocol [OF single(1)] obtain ev buffer where
    "r' = note_obs (Obs_Send ev ok) (r\<lparr>read_buffer := buffer\<rparr>)"
    "\<And>st. 1 \<le> undelivered st \<Longrightarrow>
          protocol_step st (Obs_Send ev ok) = Some (st\<lparr>undelivered := undelivered st - 1\<rparr>)"
    by blast
  then show ?thesis by (intro exI [of _ "[Obs_Send ev ok]"]) simp
next
  case (burst r1 s1 cs fst1 batch1 r2 s2 ok)
  from send_read_protocol [OF burst(1)] obtain ev buffer where
    r1: "r1 = note_obs (Obs_Send ev True) (r\<lparr>read_buffer := buffer\<rparr>)"
    and ev: "\<And>st. 1 \<le> undelivered st \<Longrightarrow>
          protocol_step st (Obs_Send ev True) = Some (st\<lparr>undelivered := undelivered st - 1\<rparr>)"
    by blast
  from publish_followers_protocol [OF burst(10)] burst(4) obtain d where d:
    "r' = r2\<lparr>log := log r2 @ d\<rparr>"
    "\<And>st. undelivered st = length cs \<Longrightarrow> follows st d = Some (st\<lparr>undelivered := 0\<rparr>)"
    by blast
  have "same_queue r r'" using burst(6) d(1) r1 by (auto simp: same_queue_def)
  with burst(2,8,9) d r1 ev show ?thesis
    by (intro exI [of _ "Obs_Send ev True # map (Obs_Read True) cs @ d"]) (simp add: follows_reads)
qed

lemma charged_protocol:
  assumes "protocol_inv r" and "charged r len q" and "len \<le> length (read_buffer r)"
    and "log r' = log q @ d" and "same_queue q r'"
    and "\<And>st. undelivered st = 1 \<Longrightarrow> bytes_left st = w_bytes (window q) \<Longrightarrow> slots_left st = w_slots (window q) \<Longrightarrow>
           follows st d = Some (st\<lparr>undelivered := 0, bytes_left := w_bytes (window r'),
                                   slots_left := w_slots (window r')\<rparr>)"
  shows "protocol_inv r'"
  using assms
  by (intro protocol_inv_step [OF assms(1), of r' "Obs_Read True (take len (read_buffer r)) # d"])
    (simp_all add: charged_def same_queue_def protocol_of_def waiting_def)

lemma handle_read_paid:
  "handle_read io rt peer writing capacity len (note_obs x r) s = Some y \<Longrightarrow> streaming r \<Longrightarrow>
     len \<le> w_bytes (window r) \<and> 1 \<le> w_slots (window r)"
  by (auto simp: handle_read_def Let_def charge_Some split: option.splits)

lemma direct_read_protocol:
  assumes "finish_direct (send_read rt peer len q t) = Some (out, r', s')"
    and "protocol_inv r" and "charged r len q" and "len \<le> length (read_buffer r)"
  shows "protocol_inv r'"
proof -
  obtain ok where "send_read rt peer len q t = Some (ok, r', s')"
    using assms(1) by (auto simp: finish_direct_def)
  from send_read_protocol [OF this] obtain ev b where
    "r' = note_obs (Obs_Send ev ok) (q\<lparr>read_buffer := b\<rparr>)"
    "\<And>st. 1 \<le> undelivered st \<Longrightarrow>
          protocol_step st (Obs_Send ev ok) = Some (st\<lparr>undelivered := undelivered st - 1\<rparr>)"
    by auto
  then show ?thesis
    by (intro charged_protocol [OF assms(2-4), of r' "[Obs_Send ev ok]"]) simp_all
qed

lemma burst_read_protocol:
  assumes "finish_burst (send_ready_reads io rt peer len q t) = Some (out, r', s')"
    and "protocol_inv r" and "charged r len q" and "len \<le> length (read_buffer r)"
  shows "protocol_inv r'"
proof -
  obtain res where "send_ready_reads io rt peer len q t = Some (res, r', s')"
    using assms(1) by (auto simp: finish_burst_def split: option.splits sum.splits)
  moreover have "wf_size (w_size (window q))" using assms(3) by (simp add: charged_def)
  ultimately show ?thesis
    using send_ready_reads_protocol [of io rt peer len q t res r' s'] charged_protocol [OF assms(2-4), of r']
    by blast
qed

lemma handle_read_protocol:
  assumes "handle_read io rt peer writing capacity len
             (note_obs (Obs_Read (streaming r) (take len (read_buffer r))) r) s = Some (out, r', s')"
    and "protocol_inv r" and "wf_size (w_size (window r))" and "len \<le> length (read_buffer r)"
  shows "protocol_inv r'"
proof (cases "streaming r")
  case True
  from handle_read_paid [OF assms(1) True] have
    "len \<le> w_bytes (window r)" "1 \<le> w_slots (window r)" by simp_all
  from handle_read_cases [OF True this assms(3), of io rt peer writing capacity s] obtain q t where
    "charged r len q" "finish_direct (send_read rt peer len q t) = Some (out, r', s')
       \<or> finish_burst (send_ready_reads io rt peer len q t) = Some (out, r', s')"
    unfolding assms(1) insert_iff empty_iff by metis
  then show ?thesis
    using direct_read_protocol burst_read_protocol assms(2,4) by blast
next
  case False
  show ?thesis
  proof (cases "read r")
    case None
    with False assms show ?thesis
      by (auto simp: handle_read_def Let_def protocol_inv_def protocol_of_def waiting_def)
  next
    case (Some x)
    define bs where "bs = take len (read_buffer r)"
    obtain i n where x: "read r = Some (i, n)" using Some by (cases x) auto
    with False assms(1) obtain ok ev where
      "log r' = log r @ [Obs_Read False bs, Obs_Send (Event ev) ok]" "ev_id ev = i"
      "w_bytes (window r') = w_bytes (window r)" "w_slots (window r') = w_slots (window r)"
      "commands r' = commands r" "read r' = None"
      by (auto simp: handle_read_def Let_def bs_def split: prod.splits dest!: send_log)
    with x show ?thesis
      by (intro protocol_inv_step [OF assms(2), of r' "[Obs_Read False bs, Obs_Send (Event ev) ok]"])
        (simp_all add: protocol_of_def waiting_def)
  qed
qed

subsection \<open>The loop\<close>

lemma protocol_inv_frame [simp]:
  "protocol_inv (r\<lparr>read_buffer := b\<rparr>) = protocol_inv r" "protocol_inv (r\<lparr>transfers := t\<rparr>) = protocol_inv r"
  "protocol_inv (grow_buffer n r) = protocol_inv r"
  by (simp_all add: protocol_inv_def protocol_of_def waiting_def)

lemma handle_transfer_protocol:
  assumes "handle_transfer io rt peer wr capacity ready r s = Some (out, r', s')"
    and "protocol_inv r" and "wf_size (w_size (window r))"
    and "\<And>n. ready = Inr (Tr_Read n) \<Longrightarrow> n \<le> length (read_buffer r)"
  shows "protocol_inv r'"
proof -
  have wrote: "protocol_inv ((note_obs (Obs_Write bs) r)\<lparr>written := n\<rparr>)" for bs n
    using assms(2) by (simp add: protocol_inv_def protocol_of_def waiting_def)
  show ?thesis
    using assms wrote
    by (auto simp: handle_transfer_def Let_def split: sum.splits transfer.splits if_splits prod.splits
        dest: handle_read_protocol)
qed

lemma poll_transfers_frame:
  assumes "poll_transfers io peer rd wr r s = (x, r', s')"
  shows "protocol_inv r' = protocol_inv r \<and> window r' = window r"
  using assms by (auto simp: poll_transfers_def Let_def split: sum.splits prod.splits)

lemma poll_transfers_read:
  assumes "bounded_stream io" and "poll_transfers io peer rd wr r s = ((Ready (Inr (Tr_Read n)), rd'), r', s')"
  shows "\<exists>buf bs. rd = Some buf \<and> rd' = Some bs \<and> n \<le> length bs"
  using assms by (cases rule: poll_transfers_cases) (auto simp: length_fill)

lemma transfer_branch_protocol:
  assumes "bounded_stream io" and "transfer_branch io rt peer wr capacity r s = Some (out, r', s')"
    and "protocol_inv r" and "wf_size (w_size (window r))"
  shows "protocol_inv r'"
  using assms(2-)
  by (auto simp: transfer_branch_def Let_def split: if_splits option.splits prod.splits poll.splits
      dest!: handle_transfer_protocol dest: poll_transfers_frame poll_transfers_read [OF assms(1)])

lemma select_protocol:
  assumes "bounded_stream io" and "select io rt peer draining r s = Some (out, r', s')"
    and "protocol_inv r" and "wf_size (w_size (window r))"
  shows "protocol_inv r'"
  using assms(2-)
  by (auto simp: select_def Let_def split: option.splits prod.splits if_splits poll.splits
      dest!: handle_command_protocol transfer_branch_protocol [OF assms(1)])

lemma turn_protocol:
  assumes "bounded_stream io" and "loop_inv ph r" and "protocol_inv r"
    and "turn os io rt peer ph r s = Some (out, r', s')"
  shows "protocol_inv r'"
proof (cases ph)
  case Next
  then have inv: "core_inv r" "live_inv r" using assms(2) by simp_all
  obtain stopped s1 where stop: "load_stop peer s = (stopped, s1)" by fastforce
  obtain res r1 s2 where d: "drain_commands os io rt peer (commands r) r s1 = (res, r1, s2)"
    by (metis prod_cases3)
  have "protocol_inv r1" using drain_commands_protocol [OF d] inv assms(3) by simp
  moreover have "wf_size (w_size (window r1))" if "res = Inr b" for b
    using drain_commands_inv [OF d] inv that by (simp add: live_inv_def)
  ultimately show ?thesis
    using assms(3,4) Next stop d
    by (auto simp: turn_def split: if_splits sum.splits dest: select_protocol [OF assms(1)])
qed (use assms in \<open>auto simp: turn_def live_inv_def dest: select_protocol\<close>)

lemma run_open_protocol:
  assumes "bounded_stream io" and "loop_inv ph r" and "protocol_inv r"
    and "run_open os io rt peer n ph r s = Some (out, r', s')"
  shows "protocol_inv r'"
  using assms(2-)
proof (induction n arbitrary: ph r s)
  case 0
  then show ?case by simp
next
  case (Suc n)
  obtain o1 r1 s1 where turn: "turn os io rt peer ph r s = Some (o1, r1, s1)" "loop_inv o1 r1"
    using turn_inv [OF assms(1) Suc.prems(1)] by blast
  have "protocol_inv r1" by (rule turn_protocol [OF assms(1) Suc.prems(1,2) turn(1)])
  with turn Suc.IH [of o1 r1 s1] Suc.prems(3) show ?case by (cases o1) auto
qed

text \<open>
  C7: a reactor keeps its protocol with JavaScript. In every execution each request received is
  answered exactly once, in an event that carries its id, or still waits in the reactor; no event
  answers what was not asked; every read on credit is within the bytes and slots granted before it;
  and every chunk read on credit is published, exactly once, by the end of the turn that read it.
\<close>

theorem reactor_follows_protocol:
  assumes "bounded_stream io" and "run_open os io rt peer n Next reactor_new s = Some (out, r', s')"
  shows "follows protocol_start (log r') =
    Some \<lparr>unanswered = waiting r', undelivered = 0,
          bytes_left = w_bytes (window r'), slots_left = w_slots (window r')\<rparr>"
proof -
  have "loop_inv Next reactor_new" by (simp add: core_inv_new live_inv_new)
  from run_open_protocol [OF assms(1) this protocol_inv_new assms(2)] show ?thesis
    by (simp add: protocol_inv_def protocol_of_def)
qed

theorem reactor_follows_protocol_witness:
  "\<exists>r s. sample_run 5 = Some (Next, r, s) \<and> length (log r) = 9
     \<and> follows protocol_start (log r) =
         Some \<lparr>unanswered = {#}, undelivered = 0, bytes_left = 5, slots_left = 0\<rparr>
     \<and> waiting r = {#}"
proof -
  obtain r s where run: "sample_run 5 = Some (Next, r, s)" and l: "log r = sample_log"
    "window r = \<lparr>w_bytes = 5, w_slots = 0, w_size = 64\<rparr>"
    using sample_run_5 by blast
  have "follows protocol_start sample_log =
      Some \<lparr>unanswered = {#}, undelivered = 0, bytes_left = 5, slots_left = 0\<rparr>"
    by (simp add: sample_log_def protocol_start_def)
  with run reactor_follows_protocol [OF tty_bounded run] l show ?thesis
    by (simp add: sample_log_def)
qed

subsection \<open>The queue of the threadsafe function\<close>

fun event_of :: "obs \<Rightarrow> callback_event list" where
  "event_of (Obs_Send ev _) = [ev]"
| "event_of _ = []"

definition events :: "obs list \<Rightarrow> callback_event list" where
  "events l = concat (map event_of l)"

fun request_of :: "obs \<Rightarrow> nat" where
  "request_of (Obs_Recv c) = (case operation c of Op_ReadCredit _ _ \<Rightarrow> 0 | _ \<Rightarrow> 1)"
| "request_of _ = 0"

definition requests :: "obs list \<Rightarrow> nat" where
  "requests l = sum_list (map request_of l)"

fun stream_chunks_of :: "callback_event \<Rightarrow> nat" where
  "stream_chunks_of (Event _) = 0"
| "stream_chunks_of ev = length (event_chunks ev)"

definition stream_chunks :: "callback_event list \<Rightarrow> nat" where
  "stream_chunks evs = sum_list (map stream_chunks_of evs)"

fun is_answer :: "callback_event \<Rightarrow> bool" where
  "is_answer (Event _) = True"
| "is_answer _ = False"

definition answered :: "callback_event list \<Rightarrow> nat" where
  "answered evs = length (filter is_answer evs)"

lemmas event_count_defs = events_def requests_def stream_chunks_def answered_def

lemma event_count_simps [simp]:
  "events [] = []" "events (x # l) = event_of x @ events l" "events (l @ m) = events l @ events m"
  "requests [] = 0" "requests (x # l) = request_of x + requests l" "requests (l @ m) = requests l + requests m"
  "stream_chunks [] = 0" "stream_chunks (ev # evs) = stream_chunks_of ev + stream_chunks evs"
  "stream_chunks (evs @ fs) = stream_chunks evs + stream_chunks fs"
  "answered [] = 0" "answered (ev # evs) = of_bool (is_answer ev) + answered evs"
  "answered (evs @ fs) = answered evs + answered fs"
  by (simp_all add: event_count_defs)

text \<open>What an execution of the protocol counts.\<close>

lemma protocol_step_counts:
  assumes "protocol_step st x = Some st'"
  shows "request_of x + size (unanswered st) = answered (event_of x) + size (unanswered st')
    \<and> snd (spent_of x) + undelivered st = stream_chunks (event_of x) + undelivered st'
    \<and> snd (credit_of x) + slots_left st = snd (spent_of x) + slots_left st'
    \<and> length (event_of x) \<le> answered (event_of x) + stream_chunks (event_of x)"
proof (cases x)
  case (Obs_Recv c)
  with assms show ?thesis by (cases "operation c") auto
next
  case (Obs_Read b bs)
  with assms show ?thesis by (cases b) (auto split: if_splits)
next
  case (Obs_Send ev ok)
  with assms show ?thesis
    by (cases ev) (auto simp: size_Diff_singleton Suc_le_eq split: if_splits dest: size_Suc_Diff1)
qed (use assms in auto)

lemma follows_counts:
  assumes "follows st l = Some st'"
  shows "requests l + size (unanswered st) = answered (events l) + size (unanswered st')
    \<and> spent_slots l + undelivered st = stream_chunks (events l) + undelivered st'
    \<and> credit_slots_in l + slots_left st = spent_slots l + slots_left st'"
  using assms
proof (induction l arbitrary: st)
  case Nil
  then show ?case by simp
next
  case (Cons x l)
  then obtain st1 where "protocol_step st x = Some st1" "follows st1 l = Some st'"
    by (auto simp: bind_eq_Some_conv)
  with protocol_step_counts Cons.IH show ?case by fastforce
qed

lemma follows_events:
  assumes "follows st l = Some st'" and "events l = evs @ fs"
  shows "length fs \<le> answered fs + stream_chunks fs"
proof -
  have "\<forall>ev \<in> set (events l). 1 \<le> of_bool (is_answer ev) + stream_chunks_of ev"
    using assms(1)
  proof (induction l arbitrary: st)
    case (Cons x l)
    then obtain st1 where "protocol_step st x = Some st1" "follows st1 l = Some st'"
      by (auto simp: bind_eq_Some_conv)
    with Cons.IH protocol_step_counts [of st x st1] show ?case by (cases x) auto
  qed simp
  then have "\<forall>ev \<in> set fs. 1 \<le> of_bool (is_answer ev) + stream_chunks_of ev"
    using assms(2) by simp
  then show ?thesis by (induction fs) auto
qed

text \<open>
  C10: the queue of the threadsafe function is never full. JavaScript keeps at most 64 requests
  open and grants at most 32 slots of credit, each of which returns when it has consumed the event
  that used it; then, whenever the reactor publishes, at most 64 answers and 32 data events wait in
  the queue, this one included, so its 128 places always suffice and no event is dropped for want
  of room.
\<close>

theorem event_queue_never_full:
  assumes "bounded_stream io" and "run_open os io rt peer n Next reactor_new s = Some (out, r', s')"
    and "log r' = p @ Obs_Send ev ok # q" and "events p = consumed @ queued"
    and "requests p \<le> MAX_PENDING_OPS + answered consumed"
    and "credit_slots_in p \<le> READ_SLOTS + stream_chunks consumed"
  shows "length (queued @ [ev]) \<le> MAX_PENDING_OPS + READ_SLOTS"
proof -
  have "loop_inv Next reactor_new" by (simp add: core_inv_new live_inv_new)
  from run_open_protocol [OF assms(1) this protocol_inv_new assms(2)]
  have "follows protocol_start (p @ Obs_Send ev ok # q) = Some (protocol_of r')"
    using assms(3) by (simp add: protocol_inv_def)
  then obtain st0 st where
    "follows protocol_start p = Some st0" "protocol_step st0 (Obs_Send ev ok) = Some st"
    unfolding follows_append follows.simps bind_eq_Some_conv by blast
  then have st: "follows protocol_start (p @ [Obs_Send ev ok]) = Some st" by simp
  have ev: "events (p @ [Obs_Send ev ok]) = consumed @ (queued @ [ev])" using assms(4) by simp
  from follows_counts [OF st] follows_events [OF st ev] ev assms(4-6) show ?thesis
    by (simp add: protocol_start_def)
qed

theorem event_queue_never_full_witness:
  "\<exists>r s q. sample_run 5 = Some (Next, r, s)
     \<and> log r = take 8 sample_log @ Obs_Send (InlineRead (9 # replicate 95 0) 1) True # q
     \<and> length ([Event (native_event_new 1 ''ok'')] @ [InlineRead (9 # replicate 95 0) 1]) \<le> 96"
proof -
  obtain r s where run: "sample_run 5 = Some (Next, r, s)" and l: "log r = sample_log"
    using sample_run_5 by blast
  let ?ev = "InlineRead (9 # replicate 95 0) 1" and ?fst = "InlineRead (7 # 8 # replicate 94 0) 2"
  have split: "log r = take 8 sample_log @ Obs_Send ?ev True # []"
    unfolding l by (simp add: sample_log_def)
  have "events (take 8 sample_log) = [?fst] @ [Event (native_event_new 1 ''ok'')]"
    "requests (take 8 sample_log) = 1" "credit_slots_in (take 8 sample_log) = 2"
    by (simp_all add: sample_log_def)
  with event_queue_never_full [OF tty_bounded run split, of "[?fst]" "[Event (native_event_new 1 ''ok'')]"]
    run split show ?thesis
    by (intro exI [of _ r] exI [of _ s] exI [of _ "[]"]) simp
qed

end
