(* ===== verification/Settings_Correct.thy ===== *)
theory Settings_Correct
  imports Unix_Stream
begin

text \<open>
  What opening and configuring a device guarantees: options are checked before a device is
  touched and reach it unchanged, and the line settings are exactly the requested ones and leave
  everything else alone.
\<close>

subsection \<open>Validation\<close>

text \<open>The options each platform supports.\<close>

definition valid_options :: "target_os \<Rightarrow> native_options \<Rightarrow> bool" where
  "valid_options os opts \<longleftrightarrow>
     data_bits opts \<in> {5, 6, 7, 8}
     \<and> stop_bits opts \<in> (if os = Windows then {F64 1, F64 (3/2), F64 2} else {F64 1, F64 2})
     \<and> parity opts \<in> {''none'', ''odd'', ''even''}
         \<union> (if os = Linux \<or> os = Android \<or> os = Windows then {''mark'', ''space''} else {})
     \<and> (os = Windows \<longrightarrow> lock opts)
     \<and> path opts \<noteq> [] \<and> CHR 0x00 \<notin> set (path opts)
     \<and> baud_rate opts \<noteq> 0"

lemma validate_Inl_kind:
  "validate os opts = Inl e \<Longrightarrow> kind e = InvalidInput \<or> kind e = Unsupported"
  by (auto simp: validate_def split: option.splits if_splits)

lemma validate_Inr_iff:
  "(\<exists>b. validate os opts = Inr b) \<longleftrightarrow>
     data_bits_of (data_bits opts) \<noteq> None \<and> stop_bits_of (stop_bits opts) \<noteq> None
     \<and> parity_of (parity opts) \<noteq> None
     \<and> \<not> (unix os \<and> stop_bits opts = F64 (3/2))
     \<and> \<not> (unix os \<and> \<not> (os = Linux \<or> os = Android) \<and> (parity opts = ''mark'' \<or> parity opts = ''space''))
     \<and> \<not> (os = Windows \<and> \<not> lock opts) \<and> \<not> (path opts = [] \<or> CHR 0x00 \<in> set (path opts))
     \<and> baud_rate opts \<noteq> 0"
  unfolding validate_def by (cases "data_bits_of (data_bits opts)";
      cases "stop_bits_of (stop_bits opts)"; cases "parity_of (parity opts)") (simp_all, blast)

lemma parse_iff:
  "data_bits_of n \<noteq> None \<longleftrightarrow> n \<in> {5, 6, 7, 8}"
  "stop_bits_of x \<noteq> None \<longleftrightarrow> x \<in> {F64 1, F64 (3/2), F64 2}"
  "parity_of y \<noteq> None \<longleftrightarrow> y \<in> {''none'', ''mark'', ''space'', ''odd'', ''even''}"
  by (simp_all add: data_bits_of_def stop_bits_of_def parity_of_def)

lemma validate_Inr: "(\<exists>b. validate os opts = Inr b) \<longleftrightarrow> valid_options os opts"
proof -
  have stop: "x \<in> {F64 1, F64 (3/2), F64 2} \<and> \<not> (c \<and> x = F64 (3/2)) \<longleftrightarrow>
      x \<in> (if \<not> c then {F64 1, F64 (3/2), F64 2} else {F64 1, F64 2})" for x c
    by auto
  have par: "y \<in> {''none'', ''mark'', ''space'', ''odd'', ''even''} \<and> \<not> (c \<and> (y = ''mark'' \<or> y = ''space'')) \<longleftrightarrow>
      y \<in> {''none'', ''odd'', ''even''} \<union> (if \<not> c then {''mark'', ''space''} else {})" for y :: string and c
    by auto
  have os: "\<not> unix os \<longleftrightarrow> os = Windows"
    "\<not> (unix os \<and> \<not> (os = Linux \<or> os = Android)) \<longleftrightarrow> os = Linux \<or> os = Android \<or> os = Windows"
    by (cases os; simp)+
  show ?thesis
    unfolding validate_Inr_iff parse_iff valid_options_def
    using stop [of "stop_bits opts" "unix os"] par [of "parity opts" "unix os \<and> \<not> (os = Linux \<or> os = Android)"]
    unfolding os by blast
qed

text \<open>What a validated builder asks the operating system for.\<close>

fun bits_number :: "data_bits_setting \<Rightarrow> u32" where
  "bits_number Five = 5"
| "bits_number Six = 6"
| "bits_number Seven = 7"
| "bits_number Eight = 8"

definition requests :: "target_os \<Rightarrow> native_options \<Rightarrow> builder \<Rightarrow> bool" where
  "requests os opts b \<longleftrightarrow>
     b_path b = path opts \<and> b_baud_rate b = baud_rate opts
     \<and> bits_number (b_data_bits b) = data_bits opts
     \<and> (b_stop_bits b = Two \<longleftrightarrow> stop_bits opts = F64 2)
     \<and> (b_parity b = Parity_Odd \<longleftrightarrow> parity opts = ''odd'')
     \<and> (b_parity b = Parity_Even \<longleftrightarrow> parity opts = ''even'')
     \<and> b_flow b = (if rtscts opts then Flow_Hardware else if xon opts then Flow_Software else Flow_None)
     \<and> b_exclusive b = (if os = Windows then None else Some (lock opts))"

lemma data_bits_of_number: "data_bits_of n = Some d \<Longrightarrow> bits_number d = n"
  by (auto simp: data_bits_of_def split: if_splits)

lemma stop_bits_of_Two: "stop_bits_of x = Some d \<Longrightarrow> d = Two \<longleftrightarrow> x = F64 2"
  by (auto simp: stop_bits_of_def split: if_splits)

lemma parity_of_sense:
  "parity_of x = Some d \<Longrightarrow> (d = Parity_Odd \<longleftrightarrow> x = ''odd'') \<and> (d = Parity_Even \<longleftrightarrow> x = ''even'')"
  by (auto simp: parity_of_def split: if_splits)

lemma validate_requests: "validate os opts = Inr b \<Longrightarrow> requests os opts b"
  by (cases os) (auto simp: validate_def requests_def data_bits_of_number stop_bits_of_Two
      dest: parity_of_sense split: option.splits if_splits)

lemma settings_open_platform:
  assumes "validate os opts = Inr b"
  shows "snd (settings_open os io dev opts w) = snd (platform_open os dev b w)"
    and "fst (platform_open os dev b w) = Inl e \<Longrightarrow> fst (settings_open os io dev opts w) = Inl e"
  using assms by (auto simp: settings_open_def Let_def split: prod.split sum.split)


subsection \<open>Line settings\<close>

text \<open>
  Configuring a Unix terminal sets exactly the requested flags. IXON, IXOFF, IXANY and HUPCL
  follow the options; on Linux and Android, CMSPAR is set exactly for mark and space parity, which
  also enable parity and choose its sense. Every other flag and the speed stay as they were.
\<close>

lemma unix_settings_exact:
  "(f \<in> input_flags (unix_settings os opts t) \<longleftrightarrow>
      (case f of IXON \<Rightarrow> xon opts | IXOFF \<Rightarrow> xoff opts | IXANY \<Rightarrow> xany opts
       | Other_Input _ \<Rightarrow> f \<in> input_flags t)) \<and>
   (g \<in> control_flags (unix_settings os opts t) \<longleftrightarrow>
      (let linux = os \<in> {Linux, Android}; sticky = parity opts \<in> {''mark'', ''space''} in
       case g of HUPCL \<Rightarrow> hupcl opts
       | CMSPAR \<Rightarrow> if linux then sticky else CMSPAR \<in> control_flags t
       | PARENB \<Rightarrow> linux \<and> sticky \<or> PARENB \<in> control_flags t
       | PARODD \<Rightarrow> if linux \<and> sticky then parity opts = ''mark'' else PARODD \<in> control_flags t
       | Other_Control _ \<Rightarrow> g \<in> control_flags t)) \<and>
   line_speed (unix_settings os opts t) = line_speed t"
  by (cases f; cases g) (auto simp: unix_settings_def Let_def)

lemma bit_put_bit:
  "fst bv < 32 \<Longrightarrow> bit (put_bit bv x) n = (if n = fst bv then snd bv else bit x n)"
  by (auto simp: put_bit_def bit_simps dest: bit_imp_le_length)

text \<open>
  C36: configuring a Windows port writes exactly the requested fields of the DCB. Of the flag
  bits, 1 (parity checking), 2 (CTS flow control), 4 and 5 (DTR control), 8 and 9 (XON/XOFF) are
  set from the options and all others keep their value.
\<close>

theorem windows_settings_exact:
  "bit (dcb_bitfield (windows_settings opts d)) n =
     (if n = 1 then parity opts \<in> {''odd'', ''even'', ''mark'', ''space''}
      else if n = 2 then rtscts opts else if n = 4 then hupcl opts else if n = 5 then False
      else if n = 8 then xon opts else if n = 9 then xoff opts
      else bit (dcb_bitfield d) n)
   \<and> dcb_baud_rate (windows_settings opts d) = baud_rate opts
   \<and> dcb_byte_size (windows_settings opts d) = ucast (data_bits opts)
   \<and> dcb_parity (windows_settings opts d) =
       (if parity opts = ''odd'' then 1 else if parity opts = ''even'' then 2
        else if parity opts = ''mark'' then 3 else if parity opts = ''space'' then 4 else 0)
   \<and> dcb_stop_bits (windows_settings opts d) =
       (if stop_bits opts = F64 (3/2) then 1 else if stop_bits opts = F64 2 then 2 else 0)"
  by (simp add: windows_settings_def Let_def bit_put_bit)

end
