(* ===== verification/Workers.thy ===== *)
theory Workers
  imports Errors
begin

text \<open>
  \<open>src/src/workers.rs\<close>: the pool of I/O threads the ports share. A worker lives while a
  strong reference to it exists: each lease holds one, and \<open>acquire\<close> holds one for every worker
  it looks at. The pool itself holds weak references. When the last strong reference goes, the
  worker's thread is told to stop.

  Leases are dropped by other threads at any time, also while \<open>acquire\<close> runs under the pool's
  mutex: every atomic access is preceded by a call of \<open>peer\<close>.
\<close>

definition MAX_WORKERS :: nat where "MAX_WORKERS = 4"

lemma MAX_WORKERS_simp [simp]: "MAX_WORKERS = 4"
  by (simp add: MAX_WORKERS_def)

type_synonym worker = nat

text \<open>
  \<open>ports w\<close> is the atomic counter of worker \<open>w\<close>, \<open>leases w\<close> the strong references held by
  its leases, dropped ones included until their reference is gone, \<open>borrowed\<close> the workers a
  running \<open>acquire\<close> holds a reference to; \<open>fresh\<close> numbers new workers, and \<open>signalled\<close>
  are those whose \<open>stopped\<close> was notified, which ends their thread.
\<close>

record pool =
  weak :: "worker list"
  ports :: "worker \<Rightarrow> nat"
  leases :: "worker \<Rightarrow> nat"
  borrowed :: "worker set"
  signalled :: "worker set"
  fresh :: worker
  pool_poisoned :: bool

type_synonym drops = "pool \<Rightarrow> pool"

definition pool_new :: pool where
  "pool_new = \<lparr>weak = [], ports = (\<lambda>w. 0), leases = (\<lambda>w. 0), borrowed = {}, signalled = {}, fresh = 0,
               pool_poisoned = False\<rparr>"

text \<open>\<open>available_parallelism().map_or(1, usize::from).clamp(1, MAX_WORKERS)\<close>\<close>

definition worker_limit :: "nat option \<Rightarrow> nat" where
  "worker_limit parallelism = clamp 1 MAX_WORKERS (case parallelism of None \<Rightarrow> 1 | Some n \<Rightarrow> n)"

subsection \<open>Leases\<close>

text \<open>\<open>Drop for Worker\<close> runs when a reference was given up and none is left.\<close>

definition worker_drop :: "worker \<Rightarrow> pool \<Rightarrow> pool" where
  "worker_drop w s =
     (if leases s w = 0 \<and> w \<notin> borrowed s then s\<lparr>signalled := insert w (signalled s)\<rparr> else s)"

text \<open>
  \<open>Drop for Lease\<close>: the counter first, the reference after it. The \<open>fetch_sub\<close> on the 64-bit
  counter wraps below zero.
\<close>

definition lease_uncount :: "worker \<Rightarrow> pool \<Rightarrow> pool" where
  "lease_uncount w s =
     s\<lparr>ports := (ports s)(w := (if ports s w = 0 then 2 ^ 64 - 1 else ports s w - 1))\<rparr>"

definition lease_release :: "worker \<Rightarrow> pool \<Rightarrow> pool" where
  "lease_release w s = worker_drop w (s\<lparr>leases := (leases s)(w := leases s w - 1)\<rparr>)"

text \<open>The end of the task that holds a lease.\<close>

definition lease_drop :: "worker \<Rightarrow> pool \<Rightarrow> pool" where
  "lease_drop w s = lease_release w (lease_uncount w s)"

subsection \<open>Acquiring a worker\<close>

text \<open>
  The \<open>retain\<close>: a worker whose last reference is gone is removed, every other is upgraded and
  stored in the array \<open>active\<close>. The result is \<open>None\<close> when the array overflows.
\<close>

fun upgrade_all :: "drops \<Rightarrow> worker list \<Rightarrow> worker list \<Rightarrow> worker list \<Rightarrow> pool
     \<Rightarrow> (worker list \<times> worker list \<times> pool) option" where
  "upgrade_all peer [] kept active s = Some (kept, active, s)"
| "upgrade_all peer (w # ws) kept active s =
     (let s = peer s in
      if leases s w > 0 \<or> w \<in> borrowed s then
        if length active < MAX_WORKERS
        then upgrade_all peer ws (kept @ [w]) (active @ [w]) (s\<lparr>borrowed := insert w (borrowed s)\<rparr>)
        else None
      else upgrade_all peer ws kept active s)"

text \<open>\<open>min_by_key\<close>: each counter is loaded once, and of equal ones the first wins.\<close>

fun least_busy :: "drops \<Rightarrow> worker list \<Rightarrow> (nat \<times> worker) option \<Rightarrow> pool \<Rightarrow> (nat \<times> worker) option \<times> pool"
where
  "least_busy peer [] best s = (best, s)"
| "least_busy peer (w # ws) best s =
     (let s = peer s; n = ports s w in
      least_busy peer ws
        (case best of None \<Rightarrow> Some (n, w) | Some (m, v) \<Rightarrow> if n < m then Some (n, w) else best) s)"

definition reusable :: "drops \<Rightarrow> nat \<Rightarrow> nat \<Rightarrow> (nat \<times> worker) option \<Rightarrow> pool \<Rightarrow> worker option \<times> pool" where
  "reusable peer limit active_count best s =
     (case best of
        None \<Rightarrow> (None, s)
      | Some (_, w) \<Rightarrow>
          (let s = peer s in (if ports s w = 0 \<or> active_count \<ge> limit then Some w else None, s)))"

text \<open>\<open>Worker::start\<close>: building a runtime and starting its thread, either of which can fail.\<close>

definition worker_start :: "(io_error + unit) \<Rightarrow> (io_error + unit) \<Rightarrow> io_error + unit" where
  "worker_start build thread = (case build of Inl e \<Rightarrow> Inl e | Inr _ \<Rightarrow> thread)"

text \<open>The reference taken out of \<open>active\<close>, or made with the worker, becomes the lease.\<close>

definition take_lease :: "worker \<Rightarrow> pool \<Rightarrow> pool" where
  "take_lease w s =
     s\<lparr>ports := (ports s)(w := ports s w + 1), leases := (leases s)(w := leases s w + 1),
       borrowed := borrowed s - {w}\<rparr>"

text \<open>The references left in \<open>active\<close> go at the end of \<open>acquire\<close>.\<close>

definition drop_active :: "worker list \<Rightarrow> pool \<Rightarrow> pool" where
  "drop_active ws = fold (\<lambda>w s. worker_drop w (s\<lparr>borrowed := borrowed s - {w}\<rparr>)) ws"

definition acquire :: "drops \<Rightarrow> nat \<Rightarrow> (io_error + unit) \<Rightarrow> pool \<Rightarrow> (worker io_result \<times> pool) option" where
  "acquire peer limit start s =
     (if pool_poisoned s then Some (Inl (io_error_other ''I/O worker pool poisoned''), s)
      else
        case upgrade_all peer (weak s) [] [] s of
          None \<Rightarrow> None
        | Some (kept, active, s) \<Rightarrow>
            (let s = s\<lparr>weak := kept\<rparr>;
                 (best, s) = least_busy peer active None s;
                 (again, s) = reusable peer limit (length active) best s
             in case again of
                  Some w \<Rightarrow> Some (Inr w, drop_active (remove1 w active) (take_lease w (peer s)))
                | None \<Rightarrow>
                    (case start of
                       Inl e \<Rightarrow> Some (Inl e, drop_active active s)
                     | Inr _ \<Rightarrow>
                         (let w = fresh s;
                              s = s\<lparr>weak := weak s @ [w], fresh := Suc w, borrowed := insert w (borrowed s)\<rparr>
                          in Some (Inr w, drop_active active (take_lease w (peer s)))))))"

text \<open>\<open>spawn\<close>: the lease of the worker is the task's, until it ends.\<close>

definition spawn ::
  "drops \<Rightarrow> nat \<Rightarrow> (io_error + unit) \<Rightarrow> (io_error + unit) \<Rightarrow> pool \<Rightarrow> (worker io_result \<times> pool) option" where
  "spawn peer limit build thread s = acquire peer limit (worker_start build thread) s"

subsection \<open>The invariant\<close>

definition alive :: "pool \<Rightarrow> worker set" where
  "alive s = {w. leases s w > 0}"

text \<open>Every counted port holds a reference.\<close>

definition counted :: "pool \<Rightarrow> bool" where
  "counted s \<longleftrightarrow> (\<forall>w. ports s w \<le> leases s w)"

text \<open>The threads that run are those of the workers some reference is held to.\<close>

definition running :: "pool \<Rightarrow> worker set" where
  "running s = {..<fresh s} - signalled s"

definition threads_ok :: "pool \<Rightarrow> bool" where
  "threads_ok s \<longleftrightarrow> signalled s \<subseteq> {..<fresh s} \<and> running s = alive s \<union> borrowed s"

definition pool_inv :: "nat \<Rightarrow> pool \<Rightarrow> bool" where
  "pool_inv limit s \<longleftrightarrow>
     distinct (weak s) \<and> alive s \<subseteq> set (weak s) \<and> (\<forall>w \<in> set (weak s). w < fresh s)
     \<and> card (alive s) \<le> limit \<and> counted s \<and> threads_ok s \<and> borrowed s = {}"

text \<open>
  What may happen to the pool while an acquisition holds its mutex: references go, none is added.
  \<open>later\<close> is what the other threads can do.
\<close>

definition shrinks :: "pool \<Rightarrow> pool \<Rightarrow> bool" where
  "shrinks s t \<longleftrightarrow> weak t = weak s \<and> fresh t = fresh s \<and> (\<forall>w. leases t w \<le> leases s w)
     \<and> (counted s \<longrightarrow> counted t) \<and> (threads_ok s \<longrightarrow> threads_ok t)"

definition later :: "pool \<Rightarrow> pool \<Rightarrow> bool" where
  "later s t \<longleftrightarrow> shrinks s t \<and> borrowed t = borrowed s"

definition only_drops :: "drops \<Rightarrow> bool" where
  "only_drops peer \<longleftrightarrow> (\<forall>s. later s (peer s))"

lemma shrinks_refl [simp]: "shrinks s s" and later_refl [simp]: "later s s"
  by (simp_all add: shrinks_def later_def)

lemma shrinks_trans: "shrinks s t \<Longrightarrow> shrinks t u \<Longrightarrow> shrinks s u"
  unfolding shrinks_def by (auto intro: le_trans)

lemma later_trans: "later s t \<Longrightarrow> later t u \<Longrightarrow> later s u"
  unfolding later_def using shrinks_trans by auto

lemma later_shrinks: "later s t \<Longrightarrow> shrinks s t"
  by (simp add: later_def)

lemma later_peer: "only_drops peer \<Longrightarrow> later s (peer s)"
  by (simp add: only_drops_def)

lemma shrinks_alive: "shrinks s t \<Longrightarrow> alive t \<subseteq> alive s"
  unfolding shrinks_def alive_def by (auto intro: less_le_trans)

lemmas later_alive = shrinks_alive [OF later_shrinks]

lemma shrinks_dead: "shrinks s t \<Longrightarrow> leases s w = 0 \<Longrightarrow> leases t w = 0"
  unfolding shrinks_def by (metis le_zero_eq)

lemmas thread_defs = threads_ok_def running_def alive_def

text \<open>The two steps of a dropped lease are among them, if they are taken in order.\<close>

lemma lease_uncount_later: "0 < ports s w \<Longrightarrow> later s (lease_uncount w s)"
  by (auto simp: later_def shrinks_def lease_uncount_def counted_def thread_defs
      intro: le_trans [OF diff_le_self])

lemma worker_drop_frame [simp]:
  "weak (worker_drop w s) = weak s" "fresh (worker_drop w s) = fresh s"
  "leases (worker_drop w s) = leases s" "ports (worker_drop w s) = ports s"
  "borrowed (worker_drop w s) = borrowed s"
  by (simp_all add: worker_drop_def)

lemma lease_release_later:
  assumes "ports s w < leases s w"
  shows "later s (lease_release w s)"
proof -
  let ?s = "s\<lparr>leases := (leases s)(w := leases s w - 1)\<rparr>"
  have a: "alive ?s = (if leases s w = 1 then alive s - {w} else alive s)"
    using assms by (auto simp: alive_def)
  have "threads_ok (lease_release w s)" if "threads_ok s"
  proof (cases "leases s w = 1 \<and> w \<notin> borrowed s")
    case True
    then have "lease_release w s = ?s\<lparr>signalled := insert w (signalled s)\<rparr>"
      by (simp add: lease_release_def worker_drop_def)
    moreover have "w \<in> running s" using that assms by (auto simp: threads_ok_def alive_def)
    ultimately show ?thesis using that a True by (auto simp: threads_ok_def running_def alive_def)
  next
    case False
    then have "lease_release w s = ?s" using assms by (auto simp: lease_release_def worker_drop_def)
    moreover have "alive ?s \<union> borrowed s = alive s \<union> borrowed s" using a False by auto
    ultimately show ?thesis using that by (simp add: threads_ok_def running_def)
  qed
  with assms show ?thesis
    by (auto simp: later_def shrinks_def lease_release_def counted_def)
qed

text \<open>An upgraded worker had a reference, so borrowing it changes no thread.\<close>

lemma borrow_shrinks:
  assumes "leases s w > 0 \<or> w \<in> borrowed s"
  shows "shrinks s (s\<lparr>borrowed := insert w (borrowed s)\<rparr>)"
proof -
  have "alive s \<union> insert w (borrowed s) = alive s \<union> borrowed s" using assms by (auto simp: alive_def)
  then have "threads_ok (s\<lparr>borrowed := insert w (borrowed s)\<rparr>) = threads_ok s"
    by (simp add: threads_ok_def running_def alive_def)
  then show ?thesis by (simp add: shrinks_def counted_def)
qed

lemma upgrade_all_later:
  assumes "only_drops peer" and "upgrade_all peer ws kept active s = Some (kept', active', t)"
    and "borrowed s = set active"
  shows "shrinks s t \<and> borrowed t = set active' \<and> (\<exists>us. kept' = kept @ us \<and> active' = active @ us \<and> set us \<subseteq> set ws
     \<and> (distinct ws \<longrightarrow> distinct us) \<and> (\<forall>w \<in> set ws. leases t w > 0 \<longrightarrow> w \<in> set us)
     \<and> (distinct (active @ ws) \<longrightarrow> set us \<subseteq> alive s))"
  using assms(2,3)
proof (induction ws arbitrary: kept active s)
  case Nil
  then show ?case by auto
next
  case (Cons w ws)
  have p: "shrinks s (peer s)" "borrowed (peer s) = set active"
    using later_peer [OF assms(1), of s] Cons.prems(2) by (simp_all add: later_def)
  show ?case
  proof (cases "leases (peer s) w > 0 \<or> w \<in> borrowed (peer s)")
    case True
    let ?s = "peer s\<lparr>borrowed := insert w (borrowed (peer s))\<rparr>"
    have q: "shrinks s ?s" by (rule shrinks_trans [OF p(1) borrow_shrinks [OF True]])
    have "upgrade_all peer ws (kept @ [w]) (active @ [w]) ?s = Some (kept', active', t)"
      using Cons.prems(1) True by (simp add: Let_def split: if_splits)
    from Cons.IH [OF this] p(2) obtain us where us: "shrinks ?s t" "borrowed t = set active'"
      "kept' = kept @ w # us" "active' = active @ w # us" "set us \<subseteq> set ws" "distinct ws \<longrightarrow> distinct us"
      "\<forall>v \<in> set ws. leases t v > 0 \<longrightarrow> v \<in> set us"
      "distinct (active @ w # ws) \<longrightarrow> set us \<subseteq> alive ?s" by auto
    have "distinct (active @ w # ws) \<longrightarrow> set (w # us) \<subseteq> alive s"
      using True us(8) p(2) shrinks_alive [OF q] shrinks_alive [OF p(1)] by (auto simp: alive_def)
    with us shrinks_trans [OF q us(1)] show ?thesis by (intro conjI exI [of _ "w # us"]) auto
  next
    case False
    with Cons.prems have "upgrade_all peer ws kept active (peer s) = Some (kept', active', t)"
      by (simp add: Let_def)
    from Cons.IH [OF this p(2)] obtain us where us: "shrinks (peer s) t" "borrowed t = set active'"
      "kept' = kept @ us" "active' = active @ us" "set us \<subseteq> set ws" "distinct ws \<longrightarrow> distinct us"
      "\<forall>v \<in> set ws. leases t v > 0 \<longrightarrow> v \<in> set us"
      "distinct (active @ ws) \<longrightarrow> set us \<subseteq> alive (peer s)" by auto
    moreover have "distinct (active @ w # ws) \<longrightarrow> set us \<subseteq> alive s"
      using us(8) shrinks_alive [OF p(1)] by auto
    moreover have "leases t w = 0" using False shrinks_dead [OF us(1)] by simp
    ultimately show ?thesis using shrinks_trans [OF p(1) us(1)] by (intro conjI exI [of _ us]) auto
  qed
qed

lemma upgrade_all_no_panic:
  assumes "only_drops peer" and "distinct (active @ ws)" and "card (set active \<union> (alive s \<inter> set ws)) \<le> MAX_WORKERS"
    and "borrowed s = set active"
  shows "upgrade_all peer ws kept active s \<noteq> None"
  using assms(2-)
proof (induction ws arbitrary: kept active s)
  case Nil
  then show ?case by simp
next
  case (Cons w ws)
  have p: "alive (peer s) \<subseteq> alive s" by (rule later_alive [OF later_peer [OF assms(1)]])
  have b: "borrowed (peer s) = set active" using later_peer [OF assms(1), of s] Cons.prems(3) by (simp add: later_def)
  have fin: "finite (set active \<union> (alive s \<inter> set (w # ws)))" by simp
  show ?case
  proof (cases "leases (peer s) w > 0")
    case True
    let ?s = "peer s\<lparr>borrowed := insert w (borrowed (peer s))\<rparr>"
    have a: "alive ?s = alive (peer s)" by (simp add: alive_def)
    have w: "w \<in> alive s" using True p by (auto simp: alive_def)
    have sub: "set (active @ [w]) \<union> (alive ?s \<inter> set ws) \<subseteq> set active \<union> (alive s \<inter> set (w # ws))"
      using p w by (auto simp: a)
    then have "card (set (active @ [w]) \<union> (alive ?s \<inter> set ws)) \<le> MAX_WORKERS"
      using card_mono [OF fin sub] Cons.prems(2) by linarith
    moreover have "card (set (active @ [w])) \<le> MAX_WORKERS"
      using card_mono [OF fin, of "set (active @ [w])"] sub Cons.prems(2) by auto
    then have "length active < MAX_WORKERS"
      using Cons.prems(1) distinct_card [of "active @ [w]"] by simp
    ultimately show ?thesis
      using Cons.IH [of "active @ [w]" ?s "kept @ [w]"] Cons.prems(1) True b by (simp add: Let_def)
  next
    case False
    have sub: "set active \<union> (alive (peer s) \<inter> set ws) \<subseteq> set active \<union> (alive s \<inter> set (w # ws))"
      using p by auto
    then have "card (set active \<union> (alive (peer s) \<inter> set ws)) \<le> MAX_WORKERS"
      using card_mono [OF fin sub] Cons.prems(2) by linarith
    with Cons.IH [of active "peer s" kept] Cons.prems(1) False b show ?thesis by (auto simp: Let_def)
  qed
qed

lemma least_busy_later:
  assumes "only_drops peer" and "least_busy peer ws best s = (best', t)"
  shows "later s t \<and> (\<forall>n w. best' = Some (n, w) \<longrightarrow> w \<in> set ws \<or> best = Some (n, w))
    \<and> (best' = None \<longrightarrow> ws = [] \<and> best = None)"
  using assms(2)
proof (induction ws arbitrary: best s)
  case Nil
  then show ?case by simp
next
  case (Cons w ws)
  have p: "later s (peer s)" by (rule later_peer [OF assms(1)])
  obtain b where b: "b = (case best of None \<Rightarrow> Some (ports (peer s) w, w)
      | Some (m, v) \<Rightarrow> if ports (peer s) w < m then Some (ports (peer s) w, w) else best)" by simp
  have rec: "least_busy peer ws b (peer s) = (best', t)" using Cons.prems by (simp add: Let_def b)
  have "b \<noteq> None" "\<And>n v. b = Some (n, v) \<Longrightarrow> v = w \<or> best = Some (n, v)"
    by (auto simp: b split: option.splits if_splits)
  with Cons.IH [OF rec] later_trans [OF p] show ?case by auto
qed

lemma reusable_later:
  assumes "only_drops peer" and "reusable peer limit k best s = (again, t)"
  shows "later s t \<and> (\<forall>w. again = Some w \<longrightarrow> (\<exists>n. best = Some (n, w)))
    \<and> (again = None \<longrightarrow> best = None \<or> k < limit)"
  using assms(2) later_peer [OF assms(1)]
  by (auto simp: reusable_def Let_def split: option.splits if_splits)

subsection \<open>The end of an acquisition\<close>

text \<open>Giving up a borrowed reference stops the thread exactly when it was the last one.\<close>

lemma threads_ok_unborrow:
  assumes "threads_ok s" and "w \<in> borrowed s"
  shows "threads_ok (worker_drop w (s\<lparr>borrowed := borrowed s - {w}\<rparr>))"
proof (cases "leases s w = 0")
  case True
  then have "alive s \<union> (borrowed s - {w}) = running s - {w}" "w \<in> running s"
    using assms by (auto simp: threads_ok_def alive_def)
  with True assms show ?thesis by (auto simp: threads_ok_def running_def alive_def worker_drop_def)
next
  case False
  then have "alive s \<union> (borrowed s - {w}) = alive s \<union> borrowed s" by (auto simp: alive_def)
  with False assms show ?thesis by (simp add: threads_ok_def running_def alive_def worker_drop_def)
qed

lemma drop_active_spec:
  "threads_ok s \<Longrightarrow> set ws \<subseteq> borrowed s \<Longrightarrow> distinct ws \<Longrightarrow>
     let t = drop_active ws s in threads_ok t \<and> borrowed t = borrowed s - set ws
     \<and> weak t = weak s \<and> fresh t = fresh s \<and> leases t = leases s \<and> ports t = ports s"
proof (induction ws arbitrary: s)
  case Nil
  then show ?case by (simp add: drop_active_def)
next
  case (Cons w ws)
  from Cons.prems have "threads_ok (worker_drop w (s\<lparr>borrowed := borrowed s - {w}\<rparr>))"
    by (intro threads_ok_unborrow) simp_all
  from Cons.IH [OF this] Cons.prems show ?case
    by (auto simp: drop_active_def Let_def)
qed

lemma drop_active_frame [simp]:
  "ports (drop_active ws s) = ports s" "leases (drop_active ws s) = leases s"
  by (induction ws arbitrary: s) (simp_all add: drop_active_def)

lemma take_lease_frame [simp]:
  "weak (take_lease w s) = weak s" "fresh (take_lease w s) = fresh s"
  "leases (take_lease w s) = (leases s)(w := leases s w + 1)"
  "ports (take_lease w s) = (ports s)(w := ports s w + 1)" "borrowed (take_lease w s) = borrowed s - {w}"
  "alive (take_lease w s) = insert w (alive s)" "counted s \<Longrightarrow> counted (take_lease w s)"
  by (auto simp: take_lease_def alive_def counted_def)

lemma threads_ok_take: "threads_ok s \<Longrightarrow> w \<in> borrowed s \<Longrightarrow> threads_ok (take_lease w s)"
  by (auto simp: threads_ok_def running_def alive_def take_lease_def)

text \<open>The last part of \<open>acquire\<close>, from a state in which it borrows its worker.\<close>

definition handed_out :: "nat \<Rightarrow> worker \<Rightarrow> pool \<Rightarrow> bool" where
  "handed_out limit w t \<longleftrightarrow> pool_inv limit t \<and> w \<in> alive t \<and> w \<in> set (weak t) \<and> 0 < ports t w"

lemma finish_spec:
  assumes "only_drops peer" and t: "counted t" "threads_ok t" "alive t \<subseteq> set (weak t)" "w \<in> set (weak t)"
    "distinct (weak t)" "length (weak t) \<le> limit" "\<forall>w \<in> set (weak t). w < fresh t"
    and b: "borrowed t = insert w (set ws)" "distinct ws" "w \<notin> set ws"
  shows "handed_out limit w (drop_active ws (take_lease w (peer t)))"
proof -
  let ?p = "peer t"
  have p: "weak ?p = weak t" "fresh ?p = fresh t" "borrowed ?p = borrowed t" "counted ?p" "threads_ok ?p"
    using later_peer [OF assms(1), of t] t(1,2) by (simp_all add: later_def shrinks_def)
  have sub: "insert w (alive ?p) \<subseteq> set (weak t)" using later_alive [OF later_peer [OF assms(1)], of t] t(3,4) by blast
  have c: "card (insert w (alive ?p)) \<le> limit"
    using card_mono [OF _ sub] distinct_card [OF t(5)] t(6) by simp
  have "threads_ok (take_lease w ?p)" using p b by (intro threads_ok_take) simp_all
  from drop_active_spec [OF this, of ws] p(3) b have d: "threads_ok (drop_active ws (take_lease w ?p))"
    "borrowed (drop_active ws (take_lease w ?p)) = {}" "weak (drop_active ws (take_lease w ?p)) = weak t"
    "fresh (drop_active ws (take_lease w ?p)) = fresh t"
    "leases (drop_active ws (take_lease w ?p)) = leases (take_lease w ?p)"
    "ports (drop_active ws (take_lease w ?p)) = ports (take_lease w ?p)"
    using p(1,2) by (auto simp: Let_def)
  have "alive (drop_active ws (take_lease w ?p)) = insert w (alive ?p)"
    using d(5) take_lease_frame(6) [of w ?p] by (simp add: alive_def)
  moreover have "counted (drop_active ws (take_lease w ?p))"
    using d(5,6) take_lease_frame(7) [OF p(4), of w] by (simp add: counted_def)
  ultimately show ?thesis
    using d sub c t by (auto simp: handed_out_def pool_inv_def)
qed

text \<open>
  The state in which an acquisition has chosen between its workers: those still alive are the
  borrowed ones, and each of them is listed once.
\<close>

definition choosing :: "nat \<Rightarrow> nat list \<Rightarrow> pool \<Rightarrow> bool" where
  "choosing limit active t \<longleftrightarrow>
     weak t = active \<and> borrowed t = set active \<and> counted t \<and> threads_ok t \<and> alive t \<subseteq> set active
     \<and> distinct active \<and> length active \<le> limit \<and> (\<forall>w \<in> set active. w < fresh t)"

lemma reused_worker_spec:
  assumes "only_drops peer" and "choosing limit active t" and "w \<in> set active"
  shows "handed_out limit w (drop_active (remove1 w active) (take_lease w (peer t)))"
proof -
  have "borrowed t = insert w (set (remove1 w active))" "distinct (remove1 w active)" "w \<notin> set (remove1 w active)"
    using assms(2,3) by (auto simp: choosing_def)
  from finish_spec [OF assms(1) _ _ _ _ _ _ _ this, of limit] assms(2,3) show ?thesis
    by (simp add: choosing_def)
qed

lemma failed_start_spec:
  assumes "choosing limit active t"
  shows "pool_inv limit (drop_active active t)"
proof -
  have t: "threads_ok t" "borrowed t = set active" "distinct active" using assms by (auto simp: choosing_def)
  from drop_active_spec [OF t(1), of active] t have d: "threads_ok (drop_active active t)"
    "borrowed (drop_active active t) = {}" "weak (drop_active active t) = weak t"
    "fresh (drop_active active t) = fresh t" "alive (drop_active active t) = alive t"
    "counted (drop_active active t) = counted t"
    by (auto simp: Let_def alive_def counted_def)
  have "card (alive t) \<le> limit"
    using card_mono [of "set active" "alive t"] assms by (simp add: choosing_def distinct_card)
  with d assms show ?thesis by (simp add: choosing_def pool_inv_def)
qed

lemma new_worker_spec:
  assumes "only_drops peer" and "choosing limit active t" and "length active < limit"
  shows "handed_out limit (fresh t) (drop_active active (take_lease (fresh t)
    (peer (t\<lparr>weak := weak t @ [fresh t], fresh := Suc (fresh t), borrowed := insert (fresh t) (borrowed t)\<rparr>))))"
proof -
  let ?new = "t\<lparr>weak := weak t @ [fresh t], fresh := Suc (fresh t), borrowed := insert (fresh t) (borrowed t)\<rparr>"
  note t = assms(2) [unfolded choosing_def]
  have "{..<Suc (fresh t)} - signalled t = insert (fresh t) ({..<fresh t} - signalled t)"
    using t by (auto simp: threads_ok_def lessThan_Suc)
  then have "counted ?new" "threads_ok ?new" "alive ?new \<subseteq> set (weak ?new)"
    using t by (auto simp: counted_def threads_ok_def running_def alive_def)
  moreover have "borrowed ?new = insert (fresh t) (set active)" "fresh t \<notin> set active"
    using t by auto
  ultimately show ?thesis
    using t assms(3) by (intro finish_spec [OF assms(1)]) (auto simp: less_Suc_eq)
qed

text \<open>Everything an acquisition guarantees.\<close>

lemma acquire_spec:
  assumes drops: "only_drops peer" and inv: "pool_inv limit s" and limit: "1 \<le> limit" "limit \<le> MAX_WORKERS"
  shows "\<exists>r t. acquire peer limit start s = Some (r, t) \<and> pool_inv limit t
    \<and> (\<forall>w. r = Inr w \<longrightarrow> handed_out limit w t)"
proof (cases "pool_poisoned s")
  case True
  with inv show ?thesis by (simp add: acquire_def)
next
  case ok: False
  have fin: "finite (alive s)" and none: "borrowed s = set []"
    using inv by (auto simp: pool_inv_def intro: finite_subset)
  have "card (set [] \<union> (alive s \<inter> set (weak s))) \<le> MAX_WORKERS"
    using inv limit card_mono [OF fin, of "alive s \<inter> set (weak s)"] by (auto simp: pool_inv_def)
  then have "upgrade_all peer (weak s) [] [] s \<noteq> None"
    using upgrade_all_no_panic [OF drops, of "[]" "weak s" s] none inv by (simp add: pool_inv_def)
  then obtain kept active t1 where u: "upgrade_all peer (weak s) [] [] s = Some (kept, active, t1)" by auto
  from upgrade_all_later [OF drops u none] inv have t1: "shrinks s t1" "kept = active" "set active \<subseteq> set (weak s)"
    "distinct active" "\<forall>w \<in> set (weak s). leases t1 w > 0 \<longrightarrow> w \<in> set active"
    "set active \<subseteq> alive s" "borrowed t1 = set active"
    by (auto simp: pool_inv_def)
  define t2 where "t2 = t1\<lparr>weak := active\<rparr>"
  obtain best t3 where lb: "least_busy peer active None t2 = (best, t3)" by fastforce
  obtain again t4 where re: "reusable peer limit (length active) best t3 = (again, t4)" by fastforce
  note l3 = least_busy_later [OF drops lb] and l4 = reusable_later [OF drops re]
  have later24: "later t2 t4" using l3 l4 later_trans by blast
  have "counted t2" "threads_ok t2"
    using t1(1) inv by (auto simp: shrinks_def t2_def pool_inv_def counted_def threads_ok_def running_def alive_def)
  then have t4: "weak t4 = active" "fresh t4 = fresh s" "borrowed t4 = set active" "counted t4" "threads_ok t4"
    using later24 t1(1,7) by (simp_all add: later_def shrinks_def t2_def)
  have "alive t1 \<subseteq> set active"
    using t1(1,5) shrinks_alive [OF t1(1)] inv by (auto simp: pool_inv_def alive_def)
  moreover have "alive t2 = alive t1" by (simp add: t2_def alive_def)
  ultimately have alive4: "alive t4 \<subseteq> set active" using later_alive [OF later24] by blast
  have active: "\<forall>w \<in> set active. w < fresh s" using inv t1(3) by (auto simp: pool_inv_def)
  have len: "length active \<le> limit"
    using distinct_card [OF t1(4)] card_mono [OF fin t1(6)] inv by (simp add: pool_inv_def)
  have choosing: "choosing limit active t4"
    using t4 alive4 active len t1(4) by (simp add: choosing_def)
  let ?new = "t4\<lparr>weak := weak t4 @ [fresh t4], fresh := Suc (fresh t4), borrowed := insert (fresh t4) (borrowed t4)\<rparr>"
  have eq: "acquire peer limit start s = (case again of
      Some w \<Rightarrow> Some (Inr w, drop_active (remove1 w active) (take_lease w (peer t4)))
    | None \<Rightarrow> (case start of Inl e \<Rightarrow> Some (Inl e, drop_active active t4)
       | Inr _ \<Rightarrow> Some (Inr (fresh t4), drop_active active (take_lease (fresh t4) (peer ?new)))))"
    using ok u lb re t1(2) unfolding acquire_def
    by (simp add: t2_def Let_def split: option.split sum.split)
  show ?thesis
  proof (cases again)
    case (Some w)
    then have "w \<in> set active" using l3 l4 by auto
    from reused_worker_spec [OF drops choosing this] show ?thesis
      unfolding eq unfolding Some by (simp add: handed_out_def)
  next
    case None
    have room: "length active < limit" using None l3 l4 limit by auto
    show ?thesis
      unfolding eq unfolding None
      using failed_start_spec [OF choosing] new_worker_spec [OF drops choosing room]
      by (auto simp: handed_out_def split: sum.split)
  qed
qed

text \<open>No acquisition adds a lease, but for the one it returns.\<close>

lemma acquire_leases:
  assumes drops: "only_drops peer" and none: "borrowed s = {}" and "acquire peer limit start s = Some (r, t)"
  shows "leases t v \<le> leases s v + (if r = Inr v then 1 else 0)"
proof (cases "pool_poisoned s")
  case True
  with assms(3) show ?thesis by (simp add: acquire_def)
next
  case ok: False
  have le: "leases (peer q) w \<le> leases q w" for q w
    using later_peer [OF drops, of q] by (simp add: later_def shrinks_def)
  from ok assms(3) obtain kept active t1 where u: "upgrade_all peer (weak s) [] [] s = Some (kept, active, t1)"
    by (auto simp: acquire_def split: option.splits)
  define t2 where "t2 = t1\<lparr>weak := kept\<rparr>"
  obtain best t3 where lb: "least_busy peer active None t2 = (best, t3)" by fastforce
  obtain again t4 where re: "reusable peer limit (length active) best t3 = (again, t4)" by fastforce
  have "later t2 t4" using least_busy_later [OF drops lb] reusable_later [OF drops re] later_trans by blast
  moreover have "shrinks s t1" using upgrade_all_later [OF drops u] none by simp
  ultimately have t4: "leases t4 w \<le> leases s w" for w
    by (auto simp: later_def shrinks_def t2_def intro: le_trans)
  have added: "leases (peer (t4\<lparr>weak := a, fresh := b, borrowed := c\<rparr>)) w \<le> leases s w" for a b c w
    using le [of "t4\<lparr>weak := a, fresh := b, borrowed := c\<rparr>" w] t4 [of w] by simp
  have "leases (peer t4) w \<le> leases s w" for w using le [of t4 w] t4 [of w] by simp
  with assms(3) ok u lb re t4 added show ?thesis unfolding acquire_def
    by (auto simp: t2_def Let_def split: option.splits sum.splits if_splits)
qed

subsection \<open>Properties\<close>

lemma worker_limit_bounds: "1 \<le> worker_limit n \<and> worker_limit n \<le> MAX_WORKERS"
  unfolding worker_limit_def using clamp_bounds [of 1 MAX_WORKERS] by simp

text \<open>The states the pool can reach: acquisitions, with drops in between and during them.\<close>

inductive reachable :: "nat \<Rightarrow> pool \<Rightarrow> bool" for limit where
  new: "reachable limit pool_new"
| acquired: "reachable limit s \<Longrightarrow> only_drops peer \<Longrightarrow> spawn peer limit build thread s = Some (r, t) \<Longrightarrow>
    reachable limit t"
| uncounted: "reachable limit s \<Longrightarrow> 0 < ports s w \<Longrightarrow> reachable limit (lease_uncount w s)"
| released: "reachable limit s \<Longrightarrow> ports s w < leases s w \<Longrightarrow> reachable limit (lease_release w s)"

inductive_cases reachableE: "reachable limit s"

lemma pool_inv_later: "pool_inv limit s \<Longrightarrow> later s t \<Longrightarrow> pool_inv limit t"
proof -
  assume inv: "pool_inv limit s" and l: "later s t"
  have sub: "alive t \<subseteq> alive s" by (rule later_alive [OF l])
  have "finite (alive s)" using inv by (auto simp: pool_inv_def intro: finite_subset)
  from card_mono [OF this sub] inv l sub show ?thesis by (auto simp: pool_inv_def later_def shrinks_def)
qed

lemma pool_inv_new: "pool_inv limit pool_new"
  by (simp add: pool_inv_def pool_new_def alive_def counted_def threads_ok_def running_def)

lemma reachable_inv:
  assumes "reachable (worker_limit n) s"
  shows "pool_inv (worker_limit n) s"
  using assms
proof induction
  case new
  then show ?case by (rule pool_inv_new)
next
  case (acquired s peer build thread r t)
  with acquire_spec [of peer "worker_limit n" s "worker_start build thread"] worker_limit_bounds show ?case
    by (auto simp: spawn_def)
next
  case (uncounted s w)
  then show ?case using lease_uncount_later [of s w] pool_inv_later by blast
next
  case (released s w)
  then show ?case using lease_release_later pool_inv_later by blast
qed

lemma pool_inv_running: "pool_inv limit s \<Longrightarrow> running s = alive s"
  by (simp add: pool_inv_def threads_ok_def)

text \<open>
  C16: the pool stays small and leaks no thread. However ports open and close, also while a worker is
  being chosen, the threads that run are exactly those of workers with a lease, at most
  \<open>worker_limit\<close> and so at most four: each is stopped when its last lease goes and none before.
  Spawning never overflows the fixed array, and the worker it chooses runs and counts its new port.
\<close>

theorem workers_bounded:
  assumes "reachable (worker_limit n) s" and "only_drops peer"
  shows "running s = alive s \<and> card (running s) \<le> worker_limit n \<and> worker_limit n \<le> 4 \<and>
    (\<exists>r t. spawn peer (worker_limit n) build thread s = Some (r, t)
      \<and> running t = alive t \<and> card (running t) \<le> worker_limit n
      \<and> (\<forall>w. r = Inr w \<longrightarrow> w \<in> running t \<and> w \<in> set (weak t) \<and> 0 < ports t w))"
proof -
  have inv: "pool_inv (worker_limit n) s" by (rule reachable_inv [OF assms(1)])
  have "1 \<le> worker_limit n" "worker_limit n \<le> MAX_WORKERS" using worker_limit_bounds by simp_all
  from acquire_spec [OF assms(2) inv this, of "worker_start build thread"] obtain r t where
    t: "spawn peer (worker_limit n) build thread s = Some (r, t)" "pool_inv (worker_limit n) t"
      "\<forall>w. r = Inr w \<longrightarrow> handed_out (worker_limit n) w t"
    unfolding spawn_def by blast
  from t(3) pool_inv_running [OF t(2)] have "\<forall>w. r = Inr w \<longrightarrow> w \<in> running t \<and> w \<in> set (weak t) \<and> 0 < ports t w"
    by (simp add: handed_out_def)
  with t(1,2) inv pool_inv_running [OF inv] pool_inv_running [OF t(2)] \<open>worker_limit n \<le> MAX_WORKERS\<close>
  show ?thesis by (simp add: pool_inv_def)
qed

definition no_drops :: drops where "no_drops s = s"

lemma no_drops_apply [simp]: "no_drops s = s"
  by (simp add: no_drops_def)

lemma spawn_first:
  "\<exists>t. spawn no_drops (worker_limit (Some 2)) (Inr ()) (Inr ()) pool_new = Some (Inr 0, t) \<and> \<not> pool_poisoned t
     \<and> weak t = [0] \<and> ports t = (\<lambda>w. 0)(0 := 1) \<and> leases t = (\<lambda>w. 0)(0 := 1) \<and> borrowed t = {} \<and> fresh t = 1"
  by (simp add: spawn_def worker_start_def acquire_def pool_new_def reusable_def take_lease_def
      drop_active_def Let_def)

theorem workers_bounded_witness:
  "\<exists>t. spawn no_drops (worker_limit (Some 2)) (Inr ()) (Inr ()) pool_new = Some (Inr 0, t)
     \<and> reachable (worker_limit (Some 2)) t \<and> running t = {0} \<and> card (running t) \<le> 2
     \<and> running (lease_drop 0 t) = {}"
proof -
  have d: "only_drops no_drops" by (simp add: only_drops_def no_drops_def)
  have l: "worker_limit (Some 2) = 2" by (simp add: worker_limit_def clamp_def)
  obtain t where a: "spawn no_drops (worker_limit (Some 2)) (Inr ()) (Inr ()) pool_new = Some (Inr 0, t)"
    and t: "leases t = (\<lambda>w. 0)(0 := 1)" "borrowed t = {}" "fresh t = 1" "ports t = (\<lambda>w. 0)(0 := 1)"
    using spawn_first by blast
  have r: "reachable (worker_limit (Some 2)) t" by (rule acquired [OF new d a])
  have q: "reachable (worker_limit (Some 2)) (lease_drop 0 t)"
    unfolding lease_drop_def using t by (intro released uncounted r) (simp_all add: lease_uncount_def)
  have "alive t = {0}" "alive (lease_drop 0 t) = {}"
    using t by (auto simp: alive_def lease_drop_def lease_release_def lease_uncount_def)
  with workers_bounded [OF r d] workers_bounded [OF q d] a r l show ?thesis by simp
qed

lemma least_busy_min:
  "least_busy no_drops ws best s = (b, t) \<Longrightarrow>
     t = s \<and> (\<forall>w \<in> set ws. \<exists>n v. b = Some (n, v) \<and> n \<le> ports s w) \<and>
     (\<forall>m v. best = Some (m, v) \<longrightarrow> (\<exists>n u. b = Some (n, u) \<and> n \<le> m)) \<and>
     (\<forall>n v. b = Some (n, v) \<longrightarrow> best = Some (n, v) \<or> (v \<in> set ws \<and> n = ports s v))"
proof (induction ws arbitrary: best)
  case Nil
  then show ?case by auto
next
  case (Cons w ws)
  define c where "c = (case best of None \<Rightarrow> Some (ports s w, w)
      | Some (m, v) \<Rightarrow> if ports s w < m then Some (ports s w, w) else best)"
  have c: "\<exists>n v. c = Some (n, v) \<and> n \<le> ports s w" "\<forall>m v. best = Some (m, v) \<longrightarrow> (\<exists>n u. c = Some (n, u) \<and> n \<le> m)"
    "\<forall>n v. c = Some (n, v) \<longrightarrow> best = Some (n, v) \<or> (v = w \<and> n = ports s w)"
    by (auto simp: c_def split: option.split)
  have "least_busy no_drops ws c s = (b, t)" using Cons.prems unfolding least_busy.simps Let_def no_drops_apply c_def .
  from Cons.IH [OF this] c show ?case by (fastforce intro: le_trans)
qed

lemma upgrade_all_still: "upgrade_all no_drops ws kept active s = Some (k, a, t) \<Longrightarrow>
    weak t = weak s \<and> ports t = ports s \<and> leases t = leases s \<and> fresh t = fresh s"
  by (induction ws arbitrary: kept active s) (fastforce simp: Let_def split: if_splits)+

text \<open>Without drops the leases are exactly those before and the new one.\<close>

lemma acquire_leases_exact:
  assumes "acquire no_drops limit start s = Some (r, t)"
  shows "leases t v = leases s v + (if r = Inr v then 1 else 0)"
proof (cases "pool_poisoned s")
  case True
  with assms show ?thesis by (auto simp: acquire_def)
next
  case ok: False
  with assms obtain kept active t1 where u: "upgrade_all no_drops (weak s) [] [] s = Some (kept, active, t1)"
    by (auto simp: acquire_def split: option.splits)
  define t2 where "t2 = t1\<lparr>weak := kept\<rparr>"
  obtain best t3 where lb: "least_busy no_drops active None t2 = (best, t3)" by fastforce
  obtain again t4 where re: "reusable no_drops limit (length active) best t3 = (again, t4)" by fastforce
  have "t4 = t3" using re by (auto simp: reusable_def split: option.splits)
  then have t4: "leases t4 = leases s" using least_busy_min [OF lb] upgrade_all_still [OF u] by (simp add: t2_def)
  with assms ok u lb re show ?thesis unfolding acquire_def
    by (auto simp: t2_def Let_def split: option.splits sum.splits if_splits)
qed

text \<open>
  C27: ports are spread over the workers. When no lease is dropped meanwhile, a port goes to an idle
  worker if there is one; otherwise to a new worker while fewer than the limit run; and otherwise to
  a worker with the fewest ports.
\<close>

theorem ports_spread:
  assumes "reachable (worker_limit n) s" and "\<not> pool_poisoned s"
    and "spawn no_drops (worker_limit n) (Inr ()) (Inr ()) s = Some (Inr w, t)"
  shows "(if \<exists>v \<in> alive s. ports s v = 0 then w \<in> alive s \<and> ports s w = 0
      else if card (alive s) < worker_limit n then w = fresh s \<and> w \<notin> alive s
      else w \<in> alive s \<and> (\<forall>v \<in> alive s. ports s w \<le> ports s v))
    \<and> ports t = (ports s)(w := ports s w + 1)"
proof -
  let ?limit = "worker_limit n"
  have acq: "acquire no_drops ?limit (Inr ()) s = Some (Inr w, t)"
    using assms(3) by (simp add: spawn_def worker_start_def)
  have drops: "only_drops no_drops" by (simp add: only_drops_def)
  have inv: "pool_inv ?limit s" by (rule reachable_inv [OF assms(1)])
  obtain kept active t1 where u: "upgrade_all no_drops (weak s) [] [] s = Some (kept, active, t1)"
    using assms(2) acq by (auto simp: acquire_def split: option.splits)
  note t1 = upgrade_all_still [OF u]
  have none: "borrowed s = set []" using inv by (simp add: pool_inv_def)
  from upgrade_all_later [OF drops u none] t1 inv have "set active = alive s" and d: "distinct active"
    by (auto simp: pool_inv_def alive_def)
  then have act: "\<And>v. v \<in> alive s \<longleftrightarrow> v \<in> set active" and len: "card (alive s) = length active"
    using distinct_card [OF d] by auto
  obtain best t3 where lb: "least_busy no_drops active None (t1\<lparr>weak := kept\<rparr>) = (best, t3)" by fastforce
  note min = least_busy_min [OF lb]
  define again where "again = (case best of None \<Rightarrow> None
      | Some (m, v) \<Rightarrow> if ports s v = 0 \<or> length active \<ge> ?limit then Some v else None)"
  have re: "reusable no_drops ?limit (length active) best t3 = (again, t3)"
    using min t1 by (auto simp: reusable_def again_def Let_def split: option.split)
  have result: "w = (case again of Some v \<Rightarrow> v | None \<Rightarrow> fresh s) \<and> ports t = (ports s)(w := ports s w + 1)"
    using assms(2) acq u lb re t1 min unfolding acquire_def
    by (auto simp: Let_def split: option.splits)
  have fresh: "fresh s \<notin> alive s" using inv by (auto simp: pool_inv_def)
  show ?thesis
  proof (cases best)
    case None
    then have "active = []" using min by (cases active) auto
    moreover have "w = fresh s" using None result by (simp add: again_def)
    ultimately show ?thesis using result fresh act len worker_limit_bounds [of n] by auto
  next
    case (Some b)
    then obtain m v where b: "best = Some (m, v)" by (cases b) auto
    with min have v: "v \<in> alive s" "m = ports s v" "\<forall>x \<in> alive s. ports s v \<le> ports s x"
      using t1 by (auto simp: act)
    show ?thesis
    proof (cases "ports s v = 0 \<or> length active \<ge> ?limit")
      case True
      then have "w = v" using result b by (simp add: again_def)
      with True result v len show ?thesis by auto
    next
      case False
      then have "w = fresh s" using result b by (simp add: again_def)
      moreover have "\<not> (\<exists>x \<in> alive s. ports s x = 0)" using False v by force
      ultimately show ?thesis using False result fresh len by simp
    qed
  qed
qed

theorem ports_spread_witness:
  "\<exists>s t. spawn no_drops (worker_limit (Some 2)) (Inr ()) (Inr ()) pool_new = Some (Inr 0, s)
     \<and> spawn no_drops (worker_limit (Some 2)) (Inr ()) (Inr ()) s = Some (Inr 1, t)
     \<and> ports t = (ports s)(1 := ports s 1 + 1)"
proof -
  have d: "only_drops no_drops" by (simp add: only_drops_def)
  obtain s where a: "spawn no_drops (worker_limit (Some 2)) (Inr ()) (Inr ()) pool_new = Some (Inr 0, s)"
    and s: "weak s = [0]" "ports s = (\<lambda>w. 0)(0 := 1)" "leases s = (\<lambda>w. 0)(0 := 1)" "borrowed s = {}"
      "fresh s = 1" "\<not> pool_poisoned s"
    using spawn_first by blast
  have r: "reachable (worker_limit (Some 2)) s" by (rule acquired [OF new d a])
  obtain t where b: "spawn no_drops (worker_limit (Some 2)) (Inr ()) (Inr ()) s = Some (Inr 1, t)"
    by (simp add: spawn_def worker_start_def acquire_def s reusable_def worker_limit_def clamp_def Let_def)
  from ports_spread [OF r s(6) b] a b show ?thesis by blast
qed

end
