(* ===== verification/Registry.thy ===== *)
theory Registry
  imports Control Workers
begin

text \<open>
  The sessions of each Node environment (\<open>register_cleanup\<close> in \<open>src/src/lib.rs\<close>) and the
  construction of a port, which registers its session and leases a worker. A control block is known
  by a number; it lives while its port or its reactor holds a reference to it.
\<close>

type_synonym session_id = nat
type_synonym env_key = nat

text \<open>
  \<open>environments\<close> is \<open>ENVIRONMENTS\<close>: for each environment the weak references its
  registry holds. \<open>live\<close> are the control blocks with a strong reference, \<open>stopped\<close> those
  whose \<open>stop\<close> was called, \<open>hooks\<close> the environments whose cleanup hook is installed.
\<close>

record env_state =
  environments :: "env_key \<Rightarrow> session_id list option"
  live :: "session_id set"
  stopped :: "session_id set"
  hooks :: "env_key list"
  environments_poisoned :: bool
  registry_poisoned :: "env_key set"

definition env_new :: env_state where
  "env_new = \<lparr>environments = (\<lambda>k. None), live = {}, stopped = {}, hooks = [],
              environments_poisoned = False, registry_poisoned = {}\<rparr>"

text \<open>\<open>hook\<close> is the outcome of \<open>add_env_cleanup_hook\<close>, called for a new environment only.\<close>

definition register_cleanup ::
  "env_key \<Rightarrow> (napi_error + unit) \<Rightarrow> session_id \<Rightarrow> env_state \<Rightarrow> (napi_error + unit) \<times> env_state" where
  "register_cleanup key hook c s =
     (if environments_poisoned s then (Inl (from_reason ''Session registry poisoned''), s)
      else
        case (case environments s key of
                Some sessions \<Rightarrow> (Inr (), s)
              | None \<Rightarrow>
                  (case hook of
                     Inl e \<Rightarrow> (Inl e, s)
                   | Inr _ \<Rightarrow> (Inr (), s\<lparr>environments := (environments s)(key \<mapsto> []),
                                         hooks := hooks s @ [key]\<rparr>))) of
          (Inl e, s) \<Rightarrow> (Inl e, s)
        | (Inr _, s) \<Rightarrow>
            if key \<in> registry_poisoned s then (Inl (from_reason ''Session registry poisoned''), s)
            else
              let sessions = (case environments s key of None \<Rightarrow> [] | Some l \<Rightarrow> l);
                  sessions = filter (\<lambda>x. x \<in> live s) sessions
              in (Inr (), s\<lparr>environments := (environments s)(key \<mapsto> sessions @ [c])\<rparr>))"

definition registered :: "env_key \<Rightarrow> env_state \<Rightarrow> session_id set" where
  "registered k s = set (case environments s k of None \<Rightarrow> [] | Some l \<Rightarrow> l)"

text \<open>The sessions the hook of an environment upgrades: none behind a poisoned mutex.\<close>

definition hook_sessions :: "env_key \<Rightarrow> env_state \<Rightarrow> session_id set" where
  "hook_sessions key s =
     (if key \<in> registry_poisoned s then {} else {c \<in> registered key s. c \<in> live s})"

text \<open>The hook: stop every session that is still alive and forget the environment.\<close>

definition cleanup_hook :: "env_key \<Rightarrow> env_state \<Rightarrow> env_state" where
  "cleanup_hook key s =
     (let s = s\<lparr>stopped := stopped s \<union> hook_sessions key s\<rparr>
      in if environments_poisoned s then s
         else s\<lparr>environments := (environments s)(key := None)\<rparr>)"

definition drop_session :: "session_id \<Rightarrow> env_state \<Rightarrow> env_state" where
  "drop_session c s = s\<lparr>live := live s - {c}\<rparr>"

subsection \<open>Constructing a port\<close>

text \<open>
  \<open>NativePort::new\<close>: \<open>allocator\<close> is the outcome of making the allocator reference, \<open>callback\<close> that
  of building the threadsafe function, whose closure is \<open>build_callback\<close> of \<open>Events\<close>, and \<open>c\<close> the new
  control block. When a later step fails, dropping the control
  block leaves only a dead weak reference.
\<close>

definition native_port_new ::
  "drops \<Rightarrow> nat \<Rightarrow> (io_error + unit) \<Rightarrow> (io_error + unit) \<Rightarrow> env_key \<Rightarrow> (napi_error + unit) \<Rightarrow> (napi_error + unit)
     \<Rightarrow> (napi_error + unit) \<Rightarrow> session_id \<Rightarrow> env_state \<Rightarrow> pool
     \<Rightarrow> ((napi_error + worker) \<times> env_state \<times> pool) option" where
  "native_port_new peer limit build thread key allocator callback hook c s p =
     (case allocator of
        Inl e \<Rightarrow> Some (Inl e, s, p)
      | Inr _ \<Rightarrow>
     (case callback of
        Inl e \<Rightarrow> Some (Inl e, s, p)
      | Inr _ \<Rightarrow>
          (let s = s\<lparr>live := insert c (live s)\<rparr> in
           case register_cleanup key hook c s of
             (Inl e, s) \<Rightarrow> Some (Inl e, drop_session c s, p)
           | (Inr _, s) \<Rightarrow>
               (case spawn peer limit build thread p of
                  None \<Rightarrow> None
                | Some (Inl e, p) \<Rightarrow> Some (Inl (from_reason (to_string e)), drop_session c s, p)
                | Some (Inr w, p) \<Rightarrow> Some (Inr w, s, p)))))"

subsection \<open>Sessions and their cleanup\<close>

datatype env_event =
    Env_Register env_key "napi_error + unit" session_id
  | Env_Drop session_id
  | Env_Teardown env_key

fun env_step :: "env_event \<Rightarrow> env_state \<Rightarrow> env_state" where
  "env_step (Env_Register k hook c) s = snd (register_cleanup k hook c s)"
| "env_step (Env_Drop c) s = drop_session c s"
| "env_step (Env_Teardown k) s = cleanup_hook k s"

definition unpoisoned :: "env_state \<Rightarrow> bool" where
  "unpoisoned s \<longleftrightarrow> \<not> environments_poisoned s \<and> registry_poisoned s = {}"

lemma register_cleanup_spec:
  assumes "register_cleanup k hook c s = (r, t)" and "unpoisoned s"
  shows "unpoisoned t \<and> live t = live s \<and> stopped t = stopped s \<and>
    (case r of Inl _ \<Rightarrow> environments t = environments s \<and> environments s k = None
     | Inr _ \<Rightarrow> registered k t = insert c (registered k s \<inter> live s)
         \<and> (\<forall>j. j \<noteq> k \<longrightarrow> environments t j = environments s j))"
  using assms
  by (auto simp: register_cleanup_def unpoisoned_def registered_def Let_def
      split: option.splits sum.splits)

lemma env_step_unpoisoned: "unpoisoned s \<Longrightarrow> unpoisoned (env_step ev s)"
proof (cases ev)
  case (Env_Register k hook c)
  assume "unpoisoned s"
  then show ?thesis
    using register_cleanup_spec [of k hook c s "fst (register_cleanup k hook c s)"] Env_Register by simp
qed (auto simp: unpoisoned_def drop_session_def cleanup_hook_def Let_def)

lemma env_step_keeps:
  assumes "unpoisoned s" and "c \<in> registered k s" and "c \<in> live s"
    and "ev \<noteq> Env_Drop c" and "ev \<noteq> Env_Teardown k"
  shows "c \<in> registered k (env_step ev s) \<and> c \<in> live (env_step ev s)"
proof (cases ev)
  case (Env_Register j hook d)
  obtain r t where r: "register_cleanup j hook d s = (r, t)" by fastforce
  from register_cleanup_spec [OF this assms(1)] assms(2,3) show ?thesis
    using Env_Register r by (cases r; cases "j = k") (auto simp: registered_def)
next
  case (Env_Drop d)
  with assms show ?thesis by (auto simp: drop_session_def registered_def)
next
  case (Env_Teardown j)
  with assms show ?thesis by (auto simp: cleanup_hook_def registered_def unpoisoned_def Let_def)
qed

lemma env_run_keeps:
  assumes "unpoisoned s" and "c \<in> registered k s" and "c \<in> live s"
    and "Env_Drop c \<notin> set evs" and "Env_Teardown k \<notin> set evs"
  shows "unpoisoned (fold env_step evs s) \<and> c \<in> registered k (fold env_step evs s)
    \<and> c \<in> live (fold env_step evs s)"
  using assms
proof (induction evs arbitrary: s)
  case Nil
  then show ?case by simp
next
  case (Cons ev evs)
  with env_step_keeps [of s c k ev] env_step_unpoisoned [of s ev] Cons.IH [of "env_step ev s"]
  show ?case by auto
qed

text \<open>Only registering a session in an environment adds it there.\<close>

lemma env_step_registered:
  "unpoisoned s \<Longrightarrow> registered k (env_step ev s) \<subseteq> registered k s \<union> {x. \<exists>h. ev = Env_Register k h x}"
proof (cases ev)
  case (Env_Register j hook d)
  assume "unpoisoned s"
  obtain r t where r: "register_cleanup j hook d s = (r, t)" by fastforce
  from register_cleanup_spec [OF this \<open>unpoisoned s\<close>] show ?thesis
    using Env_Register r by (cases r; cases "j = k") (auto simp: registered_def)
qed (auto simp: cleanup_hook_def drop_session_def registered_def Let_def)

lemma env_run_registered:
  "unpoisoned s \<Longrightarrow> registered k (fold env_step evs s) \<subseteq>
     registered k s \<union> {x. \<exists>h. Env_Register k h x \<in> set evs}"
proof (induction evs arbitrary: s)
  case (Cons ev evs)
  from Cons.IH [OF env_step_unpoisoned [OF Cons.prems, of ev]] env_step_registered [OF Cons.prems, of k ev]
  show ?case by auto
qed simp

text \<open>
  Tearing down an environment stops every session of it. A session that was registered stays
  registered through any later registrations, drops of other sessions and teardowns of other
  environments; the hook of its environment then stops it, and stops only sessions registered
  there, so no port outlives its environment unstopped and none of another environment is touched.
\<close>

lemma teardown_stops_sessions:
  assumes "unpoisoned s" and "register_cleanup k hook c s = (Inr (), t)" and "c \<in> live s"
    and "Env_Drop c \<notin> set evs" and "Env_Teardown k \<notin> set evs"
  shows "let u = fold env_step evs t in
    c \<in> stopped (cleanup_hook k u) \<and> environments (cleanup_hook k u) k = None
    \<and> stopped (cleanup_hook k u) = stopped u \<union> (registered k u \<inter> live u)"
proof -
  have t: "unpoisoned t" "c \<in> registered k t" "c \<in> live t"
    using register_cleanup_spec [OF assms(2,1)] assms(3) by auto
  from env_run_keeps [OF t assms(4,5)] show ?thesis
    by (auto simp: cleanup_hook_def hook_sessions_def unpoisoned_def Let_def)
qed

lemma teardown_stops_sessions_witness:
  "\<exists>t. register_cleanup 7 (Inr ()) 1 (env_new\<lparr>live := {1, 2}\<rparr>) = (Inr (), t)
     \<and> 1 \<in> stopped (cleanup_hook 7 (fold env_step [Env_Register 7 (Inr ()) 2, Env_Drop 2, Env_Teardown 8] t))"
proof -
  have s: "unpoisoned (env_new\<lparr>live := {1, 2}\<rparr>)" by (simp add: unpoisoned_def env_new_def)
  obtain t where t: "register_cleanup 7 (Inr ()) 1 (env_new\<lparr>live := {1, 2}\<rparr>) = (Inr (), t)"
    by (simp add: register_cleanup_def env_new_def Let_def)
  let ?evs = "[Env_Register 7 (Inr ()) 2, Env_Drop 2, Env_Teardown 8]"
  have l: "1 \<in> live (env_new\<lparr>live := {1, 2}\<rparr>)" by simp
  have e: "Env_Drop 1 \<notin> set ?evs" "Env_Teardown 7 \<notin> set ?evs" by simp_all
  from teardown_stops_sessions [OF s t l e, unfolded Let_def, THEN conjunct1] t show ?thesis by blast
qed

text \<open>
  C17: a port that could not be constructed leaves nothing behind: no live session, so a later
  teardown has nothing of it to stop, and no lease of any worker. A constructed one is registered
  in its environment, holds one more lease of its worker and of no other, and is counted by that
  worker. Leases may be dropped by other threads meanwhile, but none is added; when none is
  dropped, the leases afterwards are exactly those before and that one.
\<close>

theorem construction_all_or_nothing:
  assumes "unpoisoned s" and "c \<notin> live s" and "only_drops peer"
    and "pool_inv limit p" and "1 \<le> limit" and "limit \<le> MAX_WORKERS"
  shows "\<exists>r t q. native_port_new peer limit build thread key allocator callback hook c s p = Some (r, t, q) \<and>
    (case r of
       Inl _ \<Rightarrow> live t = live s \<and> stopped t = stopped s \<and> (\<forall>v. leases q v \<le> leases p v)
     | Inr w \<Rightarrow> live t = insert c (live s) \<and> stopped t = stopped s \<and> c \<in> registered key t
         \<and> 0 < ports q w \<and> 0 < leases q w
         \<and> (\<forall>v. leases q v \<le> leases p v + (if v = w then 1 else 0)))
    \<and> (peer = no_drops \<longrightarrow> (\<forall>v. leases q v = leases p v + (if r = Inr v then 1 else 0)))
    \<and> pool_inv limit q"
proof (cases "\<exists>v. callback = Inr v \<and> (\<exists>w. allocator = Inr w)")
  case False
  with assms(4) show ?thesis by (cases allocator; cases callback) (auto simp: native_port_new_def)
next
  case True
  then obtain u1 u2 where built: "callback = Inr u1" "allocator = Inr u2" by blast
  let ?s = "s\<lparr>live := insert c (live s)\<rparr>"
  obtain r t where r: "register_cleanup key hook c ?s = (r, t)" by fastforce
  have "unpoisoned ?s" using assms(1) by (simp add: unpoisoned_def)
  note spec = register_cleanup_spec [OF r this]
  obtain a q where a: "spawn peer limit build thread p = Some (a, q)" and q: "pool_inv limit q"
    "\<forall>w. a = Inr w \<longrightarrow> 0 < ports q w \<and> 0 < leases q w"
    using acquire_spec [OF assms(3-6), of "worker_start build thread"]
    by (auto simp: spawn_def handed_out_def alive_def)
  have leases: "leases q v \<le> leases p v + (if a = Inr v then 1 else 0)" for v
    using acquire_leases [OF assms(3) _ a [unfolded spawn_def]] assms(4) by (simp add: pool_inv_def)
  have exact: "leases q v = leases p v + (if a = Inr v then 1 else 0)" if "peer = no_drops" for v
    using acquire_leases_exact a that unfolding spawn_def by blast
  show ?thesis
  proof (cases r)
    case (Inl e)
    with built r spec assms(2,4) show ?thesis
      by (simp add: native_port_new_def drop_session_def Let_def)
  next
    case reg: (Inr v)
    show ?thesis
    proof (cases a)
      case (Inl e)
      with built r reg a q spec assms(2) leases exact show ?thesis
        by (simp add: native_port_new_def drop_session_def Let_def)
    next
      case (Inr w)
      with leases have "leases q v \<le> leases p v + (if v = w then 1 else 0)" for v
        by (metis sum.inject(2))
      with built r reg a q spec Inr exact show ?thesis
        by (simp add: native_port_new_def Let_def)
    qed
  qed
qed

theorem construction_all_or_nothing_witness:
  "\<exists>t q. native_port_new no_drops 2 (Inr ()) (Inl (io_error_other ''thread'')) 7 (Inr ()) (Inr ()) (Inr ()) 1 env_new pool_new
       = Some (Inl (from_reason ''thread''), t, q) \<and> live t = {} \<and> leases q = (\<lambda>w. 0)"
proof -
  have h: "unpoisoned env_new" "1 \<notin> live env_new" by (simp_all add: unpoisoned_def env_new_def)
  have d: "only_drops no_drops" by (simp add: only_drops_def)
  obtain t q where n: "native_port_new no_drops 2 (Inr ()) (Inl (io_error_other ''thread'')) 7 (Inr ()) (Inr ()) (Inr ()) 1
      env_new pool_new = Some (Inl (from_reason ''thread''), t, q)"
    by (simp add: native_port_new_def register_cleanup_def acquire_def env_new_def pool_new_def
        reusable_def drop_session_def spawn_def worker_start_def drop_active_def Let_def)
  from construction_all_or_nothing [OF h d pool_inv_new [of 2], of "Inr ()" "Inl (io_error_other ''thread'')" 7
      "Inr ()" "Inr ()" "Inr ()"] n show ?thesis
    by (simp add: env_new_def pool_new_def fun_eq_iff)
qed

end
