(* ===== verification/Environment.thy ===== *)
theory Environment
  imports Registry Reactor_Correct
begin

text \<open>
  A Node environment and the ports in it: the cleanup hook of \<open>Registry\<close> stops the control blocks
  of \<open>Control\<close>, and the reactors of \<open>Reactor\<close> that run on them end.
\<close>

text \<open>\<open>session.stop()\<close> for each session the hook of environment \<open>k\<close> can upgrade.\<close>

definition hook_controls ::
  "'e runtime \<Rightarrow> ('p, 'e) peer \<Rightarrow> env_key \<Rightarrow> env_state \<Rightarrow> (session_id \<Rightarrow> ('p, 'e) control)
     \<Rightarrow> session_id \<Rightarrow> ('p, 'e) control" where
  "hook_controls rt peer k s controls =
     (\<lambda>c. if c \<in> hook_sessions k s then control_stop rt peer (controls c) else controls c)"

lemma hook_controls_stopped:
  "unpoisoned s \<Longrightarrow> stopped (cleanup_hook k s) = stopped s \<union> hook_sessions k s
     \<and> hook_sessions k s = registered k s \<inter> live s
     \<and> (\<forall>j. environments (cleanup_hook k s) j = (if j = k then None else environments s j))"
  by (auto simp: cleanup_hook_def hook_sessions_def unpoisoned_def Let_def)

text \<open>
  C15: tearing down an environment ends its ports. However many ports were opened and dropped and other
  environments torn down since a port was created, when its environment goes its reactor returns
  within two turns, without error and without any further read, write, completion or event, whether it
  was at the top of its loop or suspended. A session that was never registered in this environment
  is neither stopped nor changed, and the registries of other environments stay as they are.
\<close>

theorem teardown_ends_reactors:
  assumes "unpoisoned s" and "register_cleanup k hook c s = (Inr (), t)" and "c \<in> live s"
    and "Env_Drop c \<notin> set evs" and "Env_Teardown k \<notin> set evs"
    and "loop_inv ph r" and "ph = Next \<or> ph = Select d"
    and "\<And>s. stop s \<Longrightarrow> stop (peer s)" and "\<And>s. N (outside s) \<Longrightarrow> N (outside (peer s))"
    and "\<And>e. N (notify_one rt e)" and "\<And>e. N e \<Longrightarrow> fst (notified rt e)"
  shows "let u = fold env_step evs t; after = hook_controls rt peer k u controls in
    c \<in> stopped (cleanup_hook k u)
    \<and> (\<exists>r' s'. run_open os io rt peer 2 ph r (after c) = Some (Finished (Inr ()), r', s')
         \<and> log r' = log r \<and> commands r' = commands r)
    \<and> (\<forall>x. x \<notin> insert c (registered k s) \<and> (\<forall>h. Env_Register k h x \<notin> set evs) \<longrightarrow>
         after x = controls x \<and> (x \<in> stopped (cleanup_hook k u) \<longleftrightarrow> x \<in> stopped u))
    \<and> (\<forall>j. j \<noteq> k \<longrightarrow> environments (cleanup_hook k u) j = environments u j)"
proof -
  define u where "u = fold env_step evs t"
  have t: "unpoisoned t" "c \<in> registered k t" "c \<in> live t"
    using register_cleanup_spec [OF assms(2,1)] assms(3) by auto
  from env_run_keeps [OF t assms(4,5)] have u: "unpoisoned u" "c \<in> registered k u" "c \<in> live u"
    by (simp_all add: u_def)
  have "hook_controls rt peer k u controls c = control_stop rt peer (controls c)"
    using u by (simp add: hook_controls_def hook_sessions_def unpoisoned_def)
  moreover have "registered k u \<subseteq> insert c (registered k s) \<union> {x. \<exists>h. Env_Register k h x \<in> set evs}"
    using env_run_registered [OF t(1), of k evs] register_cleanup_spec [OF assms(2,1)] by (auto simp: u_def)
  ultimately show ?thesis
    using stopped_reactor_ends [OF assms(6-11), where os = os and io = io and s = "controls c"]
      hook_controls_stopped [OF u(1), of k] u
    unfolding u_def [symmetric] Let_def by (auto simp: hook_controls_def)
qed

theorem teardown_ends_reactors_witness:
  "\<exists>t r s. register_cleanup 7 (Inr ()) 1 (env_new\<lparr>live := {1, 2}\<rparr>) = (Inr (), t)
     \<and> run_open Linux (unix_stream tty_fd) (fifo_runtime 96) no_peer 2 (Select False) reactor_new
         (hook_controls (fifo_runtime 96) no_peer 7
            (fold env_step [Env_Register 7 (Inr ()) 2, Env_Drop 2, Env_Teardown 8] t) (\<lambda>c. sample) 1)
         = Some (Finished (Inr ()), r, s) \<and> log r = []"
proof -
  have s: "unpoisoned (env_new\<lparr>live := {1, 2}\<rparr>)" by (simp add: unpoisoned_def env_new_def)
  obtain t where t: "register_cleanup 7 (Inr ()) 1 (env_new\<lparr>live := {1, 2}\<rparr>) = (Inr (), t)"
    by (simp add: register_cleanup_def env_new_def Let_def)
  let ?evs = "[Env_Register 7 (Inr ()) 2, Env_Drop 2, Env_Teardown 8]"
  have l: "1 \<in> live (env_new\<lparr>live := {1, 2}\<rparr>)" by simp
  have e: "Env_Drop 1 \<notin> set ?evs" "Env_Teardown 7 \<notin> set ?evs" by simp_all
  have r: "loop_inv (Select False) reactor_new" "Select False = Next \<or> Select False = Select False"
    by (simp_all add: core_inv_new live_inv_new)
  obtain q u where q: "run_open Linux (unix_stream tty_fd) (fifo_runtime 96) no_peer 2 (Select False) reactor_new
      (hook_controls (fifo_runtime 96) no_peer 7 (fold env_step ?evs t) (\<lambda>c. sample) 1)
         = Some (Finished (Inr ()), q, u)" "log q = log reactor_new"
    using teardown_ends_reactors [OF s t l e r, where peer = no_peer and N = permit
      and rt = "fifo_runtime 96" and os = Linux and io = "unix_stream tty_fd" and controls = "\<lambda>c. sample"]
    unfolding Let_def by auto
  have "log q = []" using q(2) by (simp add: reactor_new_def)
  with t q(1) show ?thesis by blast
qed

end
