(* ===== verification/Text.thy ===== *)
theory Text
  imports Prelude "HOL-Library.Char_ord" "HOL-Library.List_Lexorder"
begin

text \<open>
  The string operations of the standard library that the port listing uses. A \<open>str\<close> is the
  list of its UTF-8 bytes, as characters; a code point is a natural number.
\<close>

subsection \<open>Splitting and matching\<close>

fun split_once :: "char \<Rightarrow> string \<Rightarrow> (string \<times> string) option" where
  "split_once c [] = None"
| "split_once c (x # xs) =
     (if x = c then Some ([], xs) else map_option (\<lambda>(a, b). (x # a, b)) (split_once c xs))"

fun split_on :: "char list \<Rightarrow> string \<Rightarrow> string list" where
  "split_on cs [] = [[]]"
| "split_on cs (x # xs) =
     (if x \<in> set cs then [] # split_on cs xs
      else case split_on cs xs of [] \<Rightarrow> [[x]] | y # ys \<Rightarrow> (x # y) # ys)"

definition strip_prefix :: "string \<Rightarrow> string \<Rightarrow> string option" where
  "strip_prefix p s = (if take (length p) s = p then Some (drop (length p) s) else None)"

definition strip_suffix :: "string \<Rightarrow> string \<Rightarrow> string option" where
  "strip_suffix p s =
     (if length p \<le> length s \<and> drop (length s - length p) s = p
      then Some (take (length s - length p) s) else None)"

lemma split_once_Some: "split_once c s = Some (a, b) \<longleftrightarrow> s = a @ c # b \<and> c \<notin> set a"
  by (induction s arbitrary: a b) (auto simp: Cons_eq_append_conv)

lemma split_once_None: "split_once c s = None \<longleftrightarrow> c \<notin> set s"
  by (induction s) auto

lemma split_on_ne: "split_on cs s \<noteq> []"
  by (induction s) (auto split: list.split)

lemma split_on_elems: "x \<in> set (split_on cs s) \<Longrightarrow> set x \<inter> set cs = {}"
proof (induction s arbitrary: x)
  case Nil
  then show ?case by simp
next
  case (Cons c s)
  show ?case
  proof (cases "c \<in> set cs")
    case True
    with Cons show ?thesis by auto
  next
    case False
    obtain y ys where s: "split_on cs s = y # ys" using split_on_ne [of cs s] by (cases "split_on cs s") auto
    with Cons.IH [of y] have "set y \<inter> set cs = {}" by simp
    with s Cons.prems Cons.IH [of x] False show ?thesis by auto
  qed
qed

lemma split_on_plain: "set f \<inter> set cs = {} \<Longrightarrow> split_on cs f = [f]"
  by (induction f) auto

lemma split_on_field: "set f \<inter> set cs = {} \<Longrightarrow> c \<in> set cs \<Longrightarrow> split_on cs (f @ c # r) = f # split_on cs r"
  by (induction f) auto

lemma split_on_Cons:
  "split_on cs s = f # fs \<longleftrightarrow> set f \<inter> set cs = {} \<and>
     (if fs = [] then s = f else \<exists>c r. c \<in> set cs \<and> s = f @ c # r \<and> split_on cs r = fs)"
  (is "?L s f fs \<longleftrightarrow> ?R s f fs")
proof
  show "?L s f fs \<Longrightarrow> ?R s f fs"
  proof (induction s arbitrary: f)
    case Nil
    then show ?case by simp
  next
    case (Cons x s)
    show ?case
    proof (cases "x \<in> set cs")
      case True
      with Cons.prems split_on_ne [of cs s] show ?thesis by auto
    next
      case False
      obtain g gs where g: "split_on cs s = g # gs" using split_on_ne [of cs s] by (cases "split_on cs s") auto
      with Cons.prems False have "f = x # g" "fs = gs" by auto
      with Cons.IH [of g] g False show ?thesis by (auto split: if_splits)
    qed
  qed
  show "?R s f fs \<Longrightarrow> ?L s f fs"
    by (auto simp: split_on_plain split_on_field split: if_splits)
qed

lemma split_on_two:
  assumes "set a \<inter> set cs = {}" and "set b \<inter> set cs = {}"
  shows "split_on cs device = a # b # fs \<longleftrightarrow>
    (\<exists>sep ext. device = a @ sep # b @ ext \<and> sep \<in> set cs \<and> (ext = [] \<or> hd ext \<in> set cs)
       \<and> fs = tl (split_on cs ext))"
  (is "?L \<longleftrightarrow> ?R")
proof
  assume ?L
  then obtain c r where c: "c \<in> set cs" "device = a @ c # r" "split_on cs r = b # fs"
    by (auto simp: split_on_Cons)
  show ?R
  proof (cases "fs = []")
    case True
    with c show ?thesis by (intro exI [of _ c] exI [of _ "[]"]) (simp add: split_on_Cons)
  next
    case False
    with c(3) obtain d q where d: "d \<in> set cs" "r = b @ d # q" "split_on cs q = fs"
      by (auto simp: split_on_Cons)
    with c show ?thesis by (intro exI [of _ c] exI [of _ "d # q"]) simp
  qed
next
  assume ?R
  then obtain sep ext where m: "device = a @ sep # b @ ext" "sep \<in> set cs" "ext = [] \<or> hd ext \<in> set cs"
    "fs = tl (split_on cs ext)" by blast
  have "split_on cs (b @ ext) = b # fs"
  proof (cases ext)
    case Nil
    with m(4) split_on_plain [OF assms(2)] show ?thesis by simp
  next
    case (Cons d q)
    with m(3,4) split_on_field [OF assms(2), of d q] show ?thesis by simp
  qed
  with split_on_field [OF assms(1) m(2), of "b @ ext"] m(1) show ?L by simp
qed

lemma strip_prefix_Some: "strip_prefix p s = Some r \<longleftrightarrow> s = p @ r"
  by (auto simp: strip_prefix_def) (metis append_take_drop_id)

text \<open>\<open>Iterator::position\<close> and \<open>find\<close>: the index of the first match.\<close>

fun position :: "('a \<Rightarrow> bool) \<Rightarrow> 'a list \<Rightarrow> nat option" where
  "position P [] = None"
| "position P (x # xs) = (if P x then Some 0 else map_option Suc (position P xs))"

lemma position_Some:
  "position P xs = Some i \<longleftrightarrow> i < length xs \<and> P (xs ! i) \<and> (\<forall>j < i. \<not> P (xs ! j))"
proof (induction xs arbitrary: i)
  case Nil
  then show ?case by simp
next
  case (Cons x xs)
  show ?case
    by (cases i) (auto simp: Cons.IH All_less_Suc2 split: if_splits)
qed

lemma position_None: "position P xs = None \<longleftrightarrow> (\<forall>x \<in> set xs. \<not> P x)"
  by (induction xs) auto

lemma position_append_hit:
  "(\<forall>x \<in> set xs. \<not> P x) \<Longrightarrow> P y \<Longrightarrow> position P (xs @ y # ys) = Some (length xs)"
  by (induction xs) auto

text \<open>Data written at the start of a buffer whose length does not change.\<close>

definition fill_buffer :: "'a list \<Rightarrow> 'a list \<Rightarrow> 'a list" where
  "fill_buffer buffer data = take (length buffer) data @ drop (length data) buffer"

lemma length_fill_buffer [simp]: "length (fill_buffer buffer data) = length buffer"
  by (simp add: fill_buffer_def)

lemma fill_buffer_exact [simp]: "length data = length buffer \<Longrightarrow> fill_buffer buffer data = data"
  by (simp add: fill_buffer_def)

subsection \<open>ASCII\<close>

definition ascii_upper :: "char \<Rightarrow> char" where
  "ascii_upper c =
     (let n = of_char c :: nat in if 97 \<le> n \<and> n \<le> 122 then char_of (n - 32) else c)"

definition ascii_lower :: "char \<Rightarrow> char" where
  "ascii_lower c =
     (let n = of_char c :: nat in if 65 \<le> n \<and> n \<le> 90 then char_of (n + 32) else c)"

definition eq_ignore_ascii_case :: "string \<Rightarrow> string \<Rightarrow> bool" where
  "eq_ignore_ascii_case a b \<longleftrightarrow> map ascii_lower a = map ascii_lower b"

definition is_ascii_hexdigit :: "char \<Rightarrow> bool" where
  "is_ascii_hexdigit c \<longleftrightarrow>
     (let n = of_char c :: nat in (48 \<le> n \<and> n \<le> 57) \<or> (65 \<le> n \<and> n \<le> 70) \<or> (97 \<le> n \<and> n \<le> 102))"

lemma ascii_upper_idem [simp]: "ascii_upper (ascii_upper c) = ascii_upper c"
  by (auto simp: ascii_upper_def Let_def)

lemma map_upper_idem [simp]: "map ascii_upper (map ascii_upper s) = map ascii_upper s"
  by simp

subsection \<open>Numbers\<close>

definition hex_digit :: "nat \<Rightarrow> char" where
  "hex_digit n = char_of (if n < 10 then 48 + n else 87 + n)"

definition digit_value :: "char \<Rightarrow> nat" where
  "digit_value c = (let n = of_char c :: nat in if n < 58 then n - 48 else n - 87)"

lemma digit_value_hex: "n < 16 \<Longrightarrow> digit_value (hex_digit n) = n"
  by (auto simp: digit_value_def hex_digit_def Let_def)

text \<open>\<open>{:0wx}\<close>, for numbers that fit the width: the digits from the highest.\<close>

definition hex_format :: "nat \<Rightarrow> nat \<Rightarrow> string" where
  "hex_format w n = map (\<lambda>i. hex_digit (n div 16 ^ (w - 1 - i) mod 16)) [0..<w]"

definition hex_parse :: "string \<Rightarrow> nat" where
  "hex_parse s = foldl (\<lambda>n c. 16 * n + digit_value c) 0 s"

lemma hex_format_Suc: "hex_format (Suc w) n = hex_format w (n div 16) @ [hex_digit (n mod 16)]"
proof -
  have "n div 16 ^ (w - i) = n div 16 div 16 ^ (w - Suc i)" if "i < w" for i
  proof -
    have "w - i = Suc (w - Suc i)" using that by simp
    then show ?thesis by (simp add: div_mult2_eq)
  qed
  then show ?thesis by (auto simp: hex_format_def)
qed

lemma hex_parse_format: "n < 16 ^ w \<Longrightarrow> hex_parse (hex_format w n) = n"
proof (induction w arbitrary: n)
  case 0
  then show ?case by (simp add: hex_format_def hex_parse_def)
next
  case (Suc w)
  have "n div 16 < 16 ^ w" using Suc.prems by (simp add: div_less_iff_less_mult mult.commute)
  from Suc.IH [OF this] show ?case
    by (simp add: hex_format_Suc hex_parse_def digit_value_hex)
qed

text \<open>\<open>str::parse::<u8>\<close>: an optional plus sign and decimal digits, at most 255.\<close>

fun parse_digits :: "nat \<Rightarrow> string \<Rightarrow> nat option" where
  "parse_digits n [] = Some n"
| "parse_digits n (c # cs) =
     (let d = of_char c :: nat in
      if 48 \<le> d \<and> d \<le> 57 \<and> 10 * n + (d - 48) \<le> 255 then parse_digits (10 * n + (d - 48)) cs
      else None)"

definition parse_u8 :: "string \<Rightarrow> nat option" where
  "parse_u8 s =
     (case s of
        [] \<Rightarrow> None
      | c # cs \<Rightarrow>
          if cs = [] \<and> (c = CHR ''+'' \<or> c = CHR ''-'') then None
          else parse_digits 0 (if c = CHR ''+'' then cs else s))"

lemma parse_digits_le: "parse_digits n s = Some m \<Longrightarrow> n \<le> 255 \<Longrightarrow> m \<le> 255"
  by (induction n s rule: parse_digits.induct) (auto simp: Let_def split: if_splits)

lemma parse_u8_le: "parse_u8 s = Some n \<Longrightarrow> n \<le> 255"
  by (auto simp: parse_u8_def simp del: parse_digits.simps split: list.splits if_splits
      dest: parse_digits_le)

subsection \<open>UTF-16 and UTF-8\<close>

fun decode_utf16 :: "u16 list \<Rightarrow> nat list" where
  "decode_utf16 [] = []"
| "decode_utf16 (u # us) =
     (if u < 0xD800 \<or> 0xDFFF < u then unat u # decode_utf16 us
      else if 0xDC00 \<le> u then 0xFFFD # decode_utf16 us
      else case us of
             [] \<Rightarrow> [0xFFFD]
           | v # vs \<Rightarrow>
               if v < 0xDC00 \<or> 0xDFFF < v then 0xFFFD # decode_utf16 us
               else (0x10000 + (unat u - 0xD800) * 0x400 + (unat v - 0xDC00)) # decode_utf16 vs)"

definition utf8_char :: "nat \<Rightarrow> string" where
  "utf8_char n =
     map char_of
       (if n < 0x80 then [n]
        else if n < 0x800 then [0xC0 + n div 0x40, 0x80 + n mod 0x40]
        else if n < 0x10000 then [0xE0 + n div 0x1000, 0x80 + n div 0x40 mod 0x40, 0x80 + n mod 0x40]
        else [0xF0 + n div 0x40000, 0x80 + n div 0x1000 mod 0x40, 0x80 + n div 0x40 mod 0x40,
              0x80 + n mod 0x40])"

definition from_utf16_lossy :: "u16 list \<Rightarrow> string" where
  "from_utf16_lossy us = concat (map utf8_char (decode_utf16 us))"

definition encode_utf16 :: "nat list \<Rightarrow> u16 list" where
  "encode_utf16 ns =
     concat (map (\<lambda>n. if n < 0x10000 then [word_of_nat n]
                      else [word_of_nat (0xD800 + (n - 0x10000) div 0x400),
                            word_of_nat (0xDC00 + (n - 0x10000) mod 0x400)]) ns)"

text \<open>A Unicode scalar value: what a \<open>char\<close> of Rust can be.\<close>

definition scalar :: "nat \<Rightarrow> bool" where
  "scalar n \<longleftrightarrow> n < 0x110000 \<and> \<not> (0xD800 \<le> n \<and> n < 0xE000)"

lemma u16_less: "m < 65536 \<Longrightarrow> (word_of_nat m :: u16) < numeral k \<longleftrightarrow> m < unat (numeral k :: u16)"
  "m < 65536 \<Longrightarrow> numeral k < (word_of_nat m :: u16) \<longleftrightarrow> unat (numeral k :: u16) < m"
  "m < 65536 \<Longrightarrow> numeral k \<le> (word_of_nat m :: u16) \<longleftrightarrow> unat (numeral k :: u16) \<le> m"
  by (simp_all add: word_less_nat_alt word_le_nat_alt unat_of_nat)

lemma decode_encode_utf16:
  assumes "\<forall>n \<in> set ns. scalar n"
  shows "decode_utf16 (encode_utf16 ns) = ns"
  using assms
proof (induction ns)
  case Nil
  then show ?case by (simp add: encode_utf16_def)
next
  case (Cons n ns)
  have rest: "decode_utf16 (encode_utf16 ns) = ns" using Cons by simp
  show ?case
  proof (cases "n < 0x10000")
    case True
    then have u: "unat (word_of_nat n :: u16) = n" by (simp add: unat_of_nat)
    have "word_of_nat n < (0xD800 :: u16) \<or> 0xDFFF < (word_of_nat n :: u16)"
      using Cons.prems True by (auto simp: u16_less scalar_def)
    with True u rest show ?thesis by (simp add: encode_utf16_def)
  next
    case False
    define h l where "h = 0xD800 + (n - 0x10000) div 0x400" and "l = 0xDC00 + (n - 0x10000) mod 0x400"
    have n: "n < 0x110000" using Cons.prems by (simp add: scalar_def)
    have hl: "0xD800 \<le> h" "h < 0xDC00" "0xDC00 \<le> l" "l < 0xE000"
      using n by (auto simp: h_def l_def)
    have "0x10000 + (h - 0xD800) * 0x400 + (l - 0xDC00) = n"
      using False by (simp add: h_def l_def)
    moreover have "unat (word_of_nat h :: u16) = h" "unat (word_of_nat l :: u16) = l"
      using hl by (simp_all add: unat_of_nat)
    moreover have "\<not> (word_of_nat h < (0xD800 :: u16) \<or> 0xDFFF < (word_of_nat h :: u16))"
      "\<not> (0xDC00 :: u16) \<le> word_of_nat h" "\<not> (word_of_nat l < (0xDC00 :: u16) \<or> 0xDFFF < (word_of_nat l :: u16))"
      using hl by (simp_all add: u16_less)
    ultimately show ?thesis
      using False rest by (simp add: encode_utf16_def h_def [symmetric] l_def [symmetric])
  qed
qed

text \<open>
  \<open>String::from_utf8_lossy\<close>: each maximal part of a sequence that is not valid becomes the
  replacement character. \<open>utf8_second\<close> is the range of the second byte that the first allows,
  \<open>utf8_len\<close> the length of the sequence.
\<close>

definition byte :: "char \<Rightarrow> nat" where
  "byte c = of_char c"

definition continuation :: "char \<Rightarrow> bool" where
  "continuation c \<longleftrightarrow> 0x80 \<le> byte c \<and> byte c \<le> 0xBF"

definition utf8_len :: "char \<Rightarrow> nat" where
  "utf8_len c =
     (let b = byte c in
      if b < 0x80 then 1 else if 0xC2 \<le> b \<and> b \<le> 0xDF then 2
      else if 0xE0 \<le> b \<and> b \<le> 0xEF then 3 else if 0xF0 \<le> b \<and> b \<le> 0xF4 then 4 else 0)"

definition utf8_second :: "char \<Rightarrow> char \<Rightarrow> bool" where
  "utf8_second c d \<longleftrightarrow>
     (let b = byte c; x = byte d in
      (if b = 0xE0 then 0xA0 else if b = 0xF0 then 0x90 else 0x80) \<le> x
      \<and> x \<le> (if b = 0xED then 0x9F else if b = 0xF4 then 0x8F else 0xBF))"

definition replacement :: string where
  "replacement = [CHR 0xEF, CHR 0xBF, CHR 0xBD]"

fun utf8_chunk :: "char \<Rightarrow> string \<Rightarrow> bool \<times> nat" where
  "utf8_chunk c rest =
     (let n = utf8_len c in
      if n = 0 then (False, 0) else if n = 1 then (True, 0)
      else case rest of
        [] \<Rightarrow> (False, 0)
      | d # ds \<Rightarrow>
          if \<not> utf8_second c d then (False, 0) else if n = 2 then (True, 1)
          else case ds of
            [] \<Rightarrow> (False, 1)
          | e # es \<Rightarrow>
              if \<not> continuation e then (False, 1) else if n = 3 then (True, 2)
              else case es of
                [] \<Rightarrow> (False, 2)
              | f # fs \<Rightarrow> if continuation f then (True, 3) else (False, 2))"

function to_string_lossy :: "string \<Rightarrow> string" where
  "to_string_lossy [] = []"
| "to_string_lossy (c # rest) =
     (let (valid, k) = utf8_chunk c rest
      in (if valid then c # take k rest else replacement) @ to_string_lossy (drop k rest))"
  by pat_completeness auto
termination
  by (relation "measure length") auto

declare to_string_lossy.simps [simp del]

lemma byte_char [simp]: "(m::nat) < 256 \<Longrightarrow> byte (char_of m) = m"
  by (simp add: byte_def)

lemma utf8_len_char:
  "(m::nat) < 256 \<Longrightarrow> utf8_len (char_of m) =
     (if m < 0x80 then 1 else if 0xC2 \<le> m \<and> m \<le> 0xDF then 2
      else if 0xE0 \<le> m \<and> m \<le> 0xEF then 3 else if 0xF0 \<le> m \<and> m \<le> 0xF4 then 4 else 0)"
  by (simp add: utf8_len_def Let_def)

lemma continuation_char: "(m::nat) < 64 \<Longrightarrow> continuation (char_of (128 + m))"
  by (simp add: continuation_def)

lemma utf8_chunk_1: "utf8_len c = 1 \<Longrightarrow> utf8_chunk c rest = (True, 0)"
  by simp

lemma utf8_chunk_2: "utf8_len c = 2 \<Longrightarrow> utf8_second c d \<Longrightarrow> utf8_chunk c (d # rest) = (True, 1)"
  by simp

lemma utf8_chunk_3:
  "utf8_len c = 3 \<Longrightarrow> utf8_second c d \<Longrightarrow> continuation e \<Longrightarrow> utf8_chunk c (d # e # rest) = (True, 2)"
  by simp

lemma utf8_chunk_4:
  "utf8_len c = 4 \<Longrightarrow> utf8_second c d \<Longrightarrow> continuation e \<Longrightarrow> continuation f \<Longrightarrow>
     utf8_chunk c (d # e # f # rest) = (True, 3)"
  by simp

declare utf8_chunk.simps [simp del]

lemma second_char:
  "(b::nat) < 256 \<Longrightarrow> (m::nat) < 64 \<Longrightarrow> (b = 0xE0 \<Longrightarrow> 32 \<le> m) \<Longrightarrow> (b = 0xF0 \<Longrightarrow> 16 \<le> m) \<Longrightarrow> (b = 0xED \<Longrightarrow> m < 32) \<Longrightarrow>
     (b = 0xF4 \<Longrightarrow> m < 16) \<Longrightarrow> utf8_second (char_of b) (char_of (128 + m))"
  by (auto simp: utf8_second_def Let_def)

lemma utf8_chunk_encoded:
  assumes "scalar n" and "utf8_char n = c # cs"
  shows "utf8_chunk c (cs @ rest) = (True, length cs)"
proof -
  have n: "n < 0x110000" "n < 0xD800 \<or> 0xE000 \<le> n" using assms(1) by (auto simp: scalar_def)
  have m: "n mod 64 < 64" "n div 64 mod 64 < 64" "n div 4096 mod 64 < 64" by simp_all
  have d: "n = 64 * (n div 64) + n mod 64" "n div 64 = 64 * (n div 4096) + n div 64 mod 64"
    "n div 4096 = 64 * (n div 262144) + n div 4096 mod 64"
    using div_mult2_eq [of n 64 64] div_mult2_eq [of n 4096 64] by simp_all
  consider "n < 0x80" | "0x80 \<le> n" "n < 0x800" | "0x800 \<le> n" "n < 0x10000" | "0x10000 \<le> n" by linarith
  then show ?thesis
  proof cases
    case 1
    then have "c = char_of n" "cs = []" using assms(2) by (simp_all add: utf8_char_def)
    with 1 show ?thesis by (simp add: utf8_chunk_1 utf8_len_char)
  next
    case 2
    then have q: "n div 64 < 32" "2 \<le> n div 64" using d(1) m(1) by linarith+
    have "c = char_of (192 + n div 64)" "cs = [char_of (128 + n mod 64)]"
      using 2 assms(2) by (simp_all add: utf8_char_def)
    moreover have "utf8_len (char_of (192 + n div 64)) = 2" using q by (simp add: utf8_len_char)
    moreover have "utf8_second (char_of (192 + n div 64)) (char_of (128 + n mod 64))"
      by (rule second_char) (use q m in linarith)+
    ultimately show ?thesis by (simp add: utf8_chunk_2)
  next
    case 3
    then have q: "n div 4096 < 16" using d(1,2) m(1,2) by linarith
    have "c = char_of (224 + n div 4096)" "cs = [char_of (128 + n div 64 mod 64), char_of (128 + n mod 64)]"
      using 3 assms(2) by (simp_all add: utf8_char_def)
    moreover have "utf8_len (char_of (224 + n div 4096)) = 3" using q by (simp add: utf8_len_char)
    moreover have "utf8_second (char_of (224 + n div 4096)) (char_of (128 + n div 64 mod 64))"
      by (rule second_char) (use q m n d 3 in linarith)+
    ultimately show ?thesis by (simp add: utf8_chunk_3 continuation_char)
  next
    case 4
    then have q: "n div 262144 < 5" using n(1) d m by linarith
    have "c = char_of (240 + n div 262144)"
      "cs = [char_of (128 + n div 4096 mod 64), char_of (128 + n div 64 mod 64), char_of (128 + n mod 64)]"
      using 4 assms(2) by (simp_all add: utf8_char_def)
    moreover have "utf8_len (char_of (240 + n div 262144)) = 4" using q by (simp add: utf8_len_char)
    moreover have "utf8_second (char_of (240 + n div 262144)) (char_of (128 + n div 4096 mod 64))"
      by (rule second_char) (use q m n d 4 in linarith)+
    ultimately show ?thesis by (simp add: utf8_chunk_4 continuation_char)
  qed
qed

text \<open>Valid UTF-8 is unchanged.\<close>

lemma to_string_lossy_valid:
  "\<forall>n \<in> set ns. scalar n \<Longrightarrow> to_string_lossy (concat (map utf8_char ns)) = concat (map utf8_char ns)"
proof (induction ns)
  case Nil
  then show ?case by (simp add: to_string_lossy.simps)
next
  case (Cons n ns)
  obtain c cs where c: "utf8_char n = c # cs"
    by (cases "utf8_char n") (auto simp: utf8_char_def split: if_splits)
  have "utf8_chunk c (cs @ concat (map utf8_char ns)) = (True, length cs)"
    using Cons.prems by (intro utf8_chunk_encoded [OF _ c]) simp
  with Cons show ?case by (simp add: c to_string_lossy.simps)
qed

subsection \<open>Paths\<close>

text \<open>
  Unix paths are compared by their components: repeated and trailing separators and inner \<open>.\<close>
  components do not count.
\<close>

definition path_key :: "string \<Rightarrow> bool \<times> string list" where
  "path_key s =
     (let root = (take 1 s = ''/''); parts = split_on ''/'' s
      in (root,
          (if \<not> root \<and> hd parts = ''.'' then [''.''] else [])
          @ filter (\<lambda>c. c \<noteq> [] \<and> c \<noteq> ''.'') parts))"

end
