(* ===== verification/Metadata.thy ===== *)
theory Metadata
  imports Text "HOL-Library.Monad_Syntax"
begin

text \<open>
  \<open>src/src/platform/windows_list.rs\<close>: the metadata Windows keeps for a port, how it is merged
  into a listed port, the parser of device instance identifiers and the reader of registry strings.
\<close>

subsection \<open>Ports and metadata\<close>

record port_info =
  port_path :: string
  manufacturer :: "string option"
  serial_number :: "string option"
  vendor_id :: "string option"
  product_id :: "string option"
  pnp_id :: "string option"
  location_id :: "string option"
  friendly_name :: "string option"

definition port_info_default :: port_info where
  "port_info_default =
     \<lparr>port_path = [], manufacturer = None, serial_number = None, vendor_id = None, product_id = None,
      pnp_id = None, location_id = None, friendly_name = None\<rparr>"

record metadata =
  md_pnp_id :: "string option"
  md_parent_id :: "string option"
  md_manufacturer :: "string option"
  md_location_id :: "string option"
  md_friendly_name :: "string option"

definition metadata_default :: metadata where
  "metadata_default =
     \<lparr>md_pnp_id = None, md_parent_id = None, md_manufacturer = None, md_location_id = None,
      md_friendly_name = None\<rparr>"

record usb_identity =
  usb_vendor :: string
  usb_product :: string
  usb_serial :: string
  use_parent :: bool

subsection \<open>Device instance identifiers\<close>

abbreviation backslash :: char where
  "backslash \<equiv> CHR 0x5C"

definition four_hex :: "string \<Rightarrow> bool" where
  "four_hex v \<longleftrightarrow> length v = 4 \<and> list_all is_ascii_hexdigit v"

text \<open>The serial number of an FTDI device, without the channel suffix.\<close>

definition ftdi_serial :: "string \<Rightarrow> string" where
  "ftdi_serial v =
     (case strip_suffix ''A'' v of None \<Rightarrow> v | Some w \<Rightarrow> if w \<noteq> [] then w else v)"

text \<open>\<open>Iterator::next\<close> on the fields that are left.\<close>

fun next_field :: "string list \<Rightarrow> (string \<times> string list) option" where
  "next_field [] = None"
| "next_field (f # fs) = Some (f, fs)"

definition usb_identity_of :: "string \<Rightarrow> usb_identity option" where
  "usb_identity_of s =
     do {
       (bus, rest) \<leftarrow> split_once backslash s;
       (device, inst) \<leftarrow> split_once backslash rest;
       let ftdi = eq_ignore_ascii_case bus ''FTDIBUS'';
       if (\<not> ftdi \<and> \<not> eq_ignore_ascii_case bus ''USB'') \<or> backslash \<in> set inst then None
       else do {
         (f, fields) \<leftarrow> next_field (split_on ''&+'' device);
         vendor \<leftarrow> strip_prefix ''VID_'' f;
         (f, fields) \<leftarrow> next_field fields;
         pid \<leftarrow> strip_prefix ''PID_'' f;
         if \<not> four_hex vendor \<or> \<not> four_hex pid then None
         else do {
           (serial, fields) \<leftarrow>
             (if ftdi then map_option (apfst ftdi_serial) (next_field fields) else Some (inst, fields));
           if serial = [] then None
           else Some \<lparr>usb_vendor = vendor, usb_product = pid, usb_serial = serial,
                      use_parent = (ftdi \<or> list_ex (\<lambda>f. take 3 f = ''MI_'') fields)\<rparr>
         }
       }
     }"

subsection \<open>Merging metadata into a port\<close>

definition or_else :: "'a option \<Rightarrow> 'a option \<Rightarrow> 'a option" where
  "or_else new old = (case new of None \<Rightarrow> old | Some v \<Rightarrow> Some v)"

text \<open>A matching USB parent's serial number is preferred.\<close>

definition serial_of :: "metadata \<Rightarrow> usb_identity \<Rightarrow> string" where
  "serial_of m usb =
     (case Option.bind (md_parent_id m) usb_identity_of of
        None \<Rightarrow> usb_serial usb
      | Some parent \<Rightarrow>
          if use_parent usb \<and> eq_ignore_ascii_case (usb_vendor parent) (usb_vendor usb)
             \<and> eq_ignore_ascii_case (usb_product parent) (usb_product usb)
          then usb_serial parent else usb_serial usb)"

definition uppercase_ids :: "port_info \<Rightarrow> port_info" where
  "uppercase_ids p =
     p\<lparr>vendor_id := map_option (map ascii_upper) (vendor_id p),
       product_id := map_option (map ascii_upper) (product_id p)\<rparr>"

definition metadata_apply :: "metadata \<Rightarrow> port_info \<Rightarrow> port_info" where
  "metadata_apply m p =
     (let p = p\<lparr>manufacturer := or_else (md_manufacturer m) (manufacturer p)\<rparr>;
          p = p\<lparr>location_id := or_else (md_location_id m) (location_id p)\<rparr>;
          p = p\<lparr>friendly_name := or_else (md_friendly_name m) (friendly_name p)\<rparr>;
          p = (case md_pnp_id m of
                 None \<Rightarrow> p
               | Some pnp \<Rightarrow>
                   (let p = (case usb_identity_of pnp of
                               None \<Rightarrow> p
                             | Some usb \<Rightarrow>
                                 p\<lparr>vendor_id := Some (usb_vendor usb), product_id := Some (usb_product usb),
                                   serial_number := Some (serial_of m usb)\<rparr>)
                    in p\<lparr>pnp_id := Some pnp\<rparr>))
      in uppercase_ids p)"

subsection \<open>Registry strings\<close>

definition wide_string :: "u16 list \<Rightarrow> string option" where
  "wide_string buffer =
     (let end = (case position (\<lambda>u. u = 0) buffer of None \<Rightarrow> length buffer | Some i \<Rightarrow> i)
      in if end \<noteq> 0 then Some (from_utf16_lossy (take end buffer)) else None)"

text \<open>
  A query is given a buffer, the type and the size in bytes; it returns whether it succeeded, the
  contents of the buffer, and the type and size it stored.
\<close>

type_synonym 'w query = "u16 list \<Rightarrow> u32 \<Rightarrow> u32 \<Rightarrow> 'w \<Rightarrow> (bool \<times> u16 list \<times> u32 \<times> u32) \<times> 'w"

definition registry_string :: "'w query \<Rightarrow> 'w \<Rightarrow> string option \<times> 'w" where
  "registry_string query w =
     (let ((_, _, kind, size), w) = query [] 0 0 w in
      if size = 0 then (None, w)
      else if size > 64 * 1024 \<or> size mod 2 \<noteq> 0 then (None, w)
      else
        let ((ok, buffer, kind, size), w) = query (replicate (unat size div 2) 0) kind size w in
        if \<not> ok then (None, w)
        else if kind \<noteq> 1 \<or> size mod 2 \<noteq> 0 then (None, w)
        else case slice_to buffer (unat size div 2) of
               None \<Rightarrow> (None, w)
             | Some b \<Rightarrow> (wide_string b, w))"

subsection \<open>The identifier grammar\<close>

lemma hexdigit_plain: "is_ascii_hexdigit c \<Longrightarrow> c \<noteq> backslash \<and> c \<notin> set ''&+''"
  by (auto simp: is_ascii_hexdigit_def Let_def)

lemma four_hex_plain: "four_hex v \<Longrightarrow> backslash \<notin> set v \<and> set v \<inter> set ''&+'' = {}"
  unfolding four_hex_def list_all_iff using hexdigit_plain by blast

lemma next_field_Some [simp]: "next_field fs = Some (f, gs) \<longleftrightarrow> fs = f # gs"
  by (cases fs) auto

text \<open>The serial number and parent flag the fields after the product give.\<close>

definition serial_fields :: "string \<Rightarrow> string list \<Rightarrow> string \<Rightarrow> usb_identity \<Rightarrow> bool" where
  "serial_fields bus fs inst u \<longleftrightarrow>
     (if eq_ignore_ascii_case bus ''FTDIBUS''
      then fs \<noteq> [] \<and> usb_serial u = ftdi_serial (hd fs) \<and> use_parent u
      else eq_ignore_ascii_case bus ''USB'' \<and> usb_serial u = inst
         \<and> use_parent u = list_ex (\<lambda>f. take 3 f = ''MI_'') fs)"

lemma serial_fields_simps [simp]:
  "eq_ignore_ascii_case bus ''FTDIBUS'' \<Longrightarrow> serial_fields bus fs inst u \<longleftrightarrow>
     fs \<noteq> [] \<and> usb_serial u = ftdi_serial (hd fs) \<and> use_parent u"
  "\<not> eq_ignore_ascii_case bus ''FTDIBUS'' \<Longrightarrow> serial_fields bus fs inst u \<longleftrightarrow>
     eq_ignore_ascii_case bus ''USB'' \<and> usb_serial u = inst
       \<and> use_parent u = list_ex (\<lambda>f. take 3 f = ''MI_'') fs"
  by (simp_all add: serial_fields_def)

lemma usb_identity_Some:
  "usb_identity_of s = Some u \<longleftrightarrow>
     four_hex (usb_vendor u) \<and> four_hex (usb_product u) \<and> usb_serial u \<noteq> [] \<and>
     (\<exists>bus device inst fs. s = bus @ backslash # device @ backslash # inst
        \<and> backslash \<notin> set bus \<and> backslash \<notin> set device \<and> backslash \<notin> set inst
        \<and> split_on ''&+'' device = (''VID_'' @ usb_vendor u) # (''PID_'' @ usb_product u) # fs
        \<and> serial_fields bus fs inst u)"
  (is "?L \<longleftrightarrow> ?R")
proof
  assume ?L
  then obtain bus rest device inst f fs where
    s: "split_once backslash s = Some (bus, rest)" "split_once backslash rest = Some (device, inst)"
      "backslash \<notin> set inst" and
    r: "(let ftdi = eq_ignore_ascii_case bus ''FTDIBUS'' in
       if \<not> ftdi \<and> \<not> eq_ignore_ascii_case bus ''USB'' then None else
       do {
         (f, fields) \<leftarrow> next_field (split_on ''&+'' device);
         vendor \<leftarrow> strip_prefix ''VID_'' f;
         (f, fields) \<leftarrow> next_field fields;
         pid \<leftarrow> strip_prefix ''PID_'' f;
         if \<not> four_hex vendor \<or> \<not> four_hex pid then None
         else do {
           (serial, fields) \<leftarrow>
             (if ftdi then map_option (apfst ftdi_serial) (next_field fields) else Some (inst, fields));
           if serial = [] then None
           else Some \<lparr>usb_vendor = vendor, usb_product = pid, usb_serial = serial,
                      use_parent = (ftdi \<or> list_ex (\<lambda>f. take 3 f = ''MI_'') fields)\<rparr>
         }
       }) = Some u"
    by (auto simp: usb_identity_of_def Let_def bind_eq_Some_conv split: if_splits)
  from r have "four_hex (usb_vendor u) \<and> four_hex (usb_product u) \<and> usb_serial u \<noteq> [] \<and>
      (\<exists>fs. split_on ''&+'' device = (''VID_'' @ usb_vendor u) # (''PID_'' @ usb_product u) # fs
        \<and> serial_fields bus fs inst u)"
    by (cases "eq_ignore_ascii_case bus ''FTDIBUS''")
      (auto simp: Let_def bind_eq_Some_conv strip_prefix_Some split: if_splits)
  moreover have "s = bus @ backslash # device @ backslash # inst" "backslash \<notin> set bus" "backslash \<notin> set device"
    using s by (auto simp: split_once_Some)
  ultimately show ?R using s(3) by blast
next
  assume ?R
  then obtain bus device inst fs where r: "s = bus @ backslash # device @ backslash # inst"
    "backslash \<notin> set bus" "backslash \<notin> set device" "backslash \<notin> set inst"
    "split_on ''&+'' device = (''VID_'' @ usb_vendor u) # (''PID_'' @ usb_product u) # fs"
    "serial_fields bus fs inst u" "four_hex (usb_vendor u)" "four_hex (usb_product u)" "usb_serial u \<noteq> []"
    by blast
  have "split_once backslash s = Some (bus, device @ backslash # inst)"
    "split_once backslash (device @ backslash # inst) = Some (device, inst)"
    using r by (simp_all add: split_once_Some)
  moreover have "strip_prefix ''VID_'' (''VID_'' @ v) = Some v" "strip_prefix ''PID_'' (''PID_'' @ v) = Some v" for v
    by (simp_all only: strip_prefix_Some)
  ultimately show ?L using r
    by (cases fs; cases u) (auto simp: usb_identity_of_def Let_def serial_fields_def split: if_splits)
qed

text \<open>A component of the device: a vendor, a product and further fields.\<close>

lemma device_fields:
  assumes h: "four_hex v" "four_hex p"
  shows "backslash \<notin> set device \<and> split_on ''&+'' device = (''VID_'' @ v) # (''PID_'' @ p) # fs \<longleftrightarrow>
    (\<exists>sep ext. device = ''VID_'' @ v @ sep # ''PID_'' @ p @ ext
       \<and> backslash \<notin> set ext \<and> sep \<in> set ''&+'' \<and> (ext = [] \<or> hd ext \<in> set ''&+'')
       \<and> fs = tl (split_on ''&+'' ext))"
proof -
  have plain: "set (''VID_'' @ v) \<inter> set ''&+'' = {}" "set (''PID_'' @ v) \<inter> set ''&+'' = {}"
    "backslash \<notin> set v" if "four_hex v" for v
    using four_hex_plain [OF that] by auto
  define T where "T sep ext = ''VID_'' @ v @ sep # ''PID_'' @ p @ ext" for sep ext
  define S where "S = set ''&+''"
  have T: "sep \<in> S \<Longrightarrow> (backslash \<in> set (T sep ext)) = (backslash \<in> set ext)" for sep ext
    using plain(3) [OF h(1)] plain(3) [OF h(2)] by (auto simp: T_def S_def)
  show ?thesis
    unfolding split_on_two [OF plain(1) [OF h(1)] plain(2) [OF h(2)]]
    unfolding append_assoc T_def [symmetric] S_def [symmetric]
    using T by blast
qed

text \<open>
  C18: the identifiers accepted are exactly those of the grammar: a \<open>USB\<close> or \<open>FTDIBUS\<close> bus in
  any case, a vendor and a product of four hexadecimal digits, further fields, and one instance. The
  serial number is the instance of a USB device and the third field of an FTDI device, and is never
  empty; so a malformed identifier never invents USB fields.
\<close>

theorem usb_identity_exact:
  "usb_identity_of s = Some u \<longleftrightarrow>
     four_hex (usb_vendor u) \<and> four_hex (usb_product u) \<and> usb_serial u \<noteq> [] \<and>
     (\<exists>bus sep ext inst.
        s = bus @ backslash # (''VID_'' @ usb_vendor u @ sep # ''PID_'' @ usb_product u @ ext) @ backslash # inst
        \<and> backslash \<notin> set (bus @ ext @ inst) \<and> sep \<in> set ''&+'' \<and> (ext = [] \<or> hd ext \<in> set ''&+'')
        \<and> (let fs = tl (split_on ''&+'' ext) in
            if eq_ignore_ascii_case bus ''FTDIBUS''
            then fs \<noteq> [] \<and> usb_serial u = ftdi_serial (hd fs) \<and> use_parent u
            else eq_ignore_ascii_case bus ''USB'' \<and> usb_serial u = inst
               \<and> use_parent u = list_ex (\<lambda>f. take 3 f = ''MI_'') fs))"
  (is "?L \<longleftrightarrow> ?R")
proof -
  show ?thesis
    unfolding usb_identity_Some Let_def serial_fields_def [symmetric]
  proof (intro conj_cong refl, goal_cases)
    case 1
    show ?case (is "?A \<longleftrightarrow> ?B")
    proof
      assume ?A
      then obtain bus device inst fs where a: "s = bus @ backslash # device @ backslash # inst"
        "backslash \<notin> set bus" "backslash \<notin> set inst" "serial_fields bus fs inst u"
        "backslash \<notin> set device \<and>
          split_on ''&+'' device = (''VID_'' @ usb_vendor u) # (''PID_'' @ usb_product u) # fs" by blast
      then obtain sep ext where e: "device = ''VID_'' @ usb_vendor u @ sep # ''PID_'' @ usb_product u @ ext"
        "backslash \<notin> set ext" "sep \<in> set ''&+''" "ext = [] \<or> hd ext \<in> set ''&+''"
        "fs = tl (split_on ''&+'' ext)"
        unfolding device_fields [OF 1(1,2)] by blast
      have "s = bus @ backslash # (''VID_'' @ usb_vendor u @ sep # ''PID_'' @ usb_product u @ ext) @ backslash # inst"
        using a(1) e(1) by simp
      moreover have "backslash \<notin> set (bus @ ext @ inst)" using a e by simp
      ultimately show ?B using a(4) e(3-5) by blast
    next
      assume ?B
      then obtain bus sep ext inst where b:
        "s = bus @ backslash # (''VID_'' @ usb_vendor u @ sep # ''PID_'' @ usb_product u @ ext) @ backslash # inst"
        "backslash \<notin> set (bus @ ext @ inst)" "sep \<in> set ''&+''" "ext = [] \<or> hd ext \<in> set ''&+''"
        "serial_fields bus (tl (split_on ''&+'' ext)) inst u" by blast
      define device where "device = ''VID_'' @ usb_vendor u @ sep # ''PID_'' @ usb_product u @ ext"
      have d: "backslash \<notin> set device \<and> split_on ''&+'' device =
          (''VID_'' @ usb_vendor u) # (''PID_'' @ usb_product u) # tl (split_on ''&+'' ext)"
        unfolding device_fields [OF 1(1,2)] using b device_def by (intro exI [of _ sep] exI [of _ ext]) simp
      have "s = bus @ backslash # device @ backslash # inst" "backslash \<notin> set bus" "backslash \<notin> set inst"
        using b device_def by simp_all
      then show ?A using d b(5) by blast
    qed
  qed
qed

subsection \<open>Merging\<close>

lemma or_else_simps [simp]:
  "or_else None y = y" "or_else (Some v) y = Some v" "or_else x (or_else x y) = or_else x y"
  "or_else x y = None \<longleftrightarrow> x = None \<and> y = None"
  by (simp_all add: or_else_def split: option.split)

lemma or_else_some [simp]: "(\<exists>v. or_else x y = Some v) \<longleftrightarrow> (\<exists>v. x = Some v) \<or> (\<exists>v. y = Some v)"
  by (cases x) simp_all

lemma upper_or_else [simp]:
  "map_option (map ascii_upper) (or_else x (map_option (map ascii_upper) (or_else x y))) =
     map_option (map ascii_upper) (or_else x y)"
  by (cases x) (simp_all add: option.map_comp comp_def)

lemma usb_serial_ne: "usb_identity_of s = Some u \<Longrightarrow> usb_serial u \<noteq> []"
  by (simp add: usb_identity_Some)

lemma serial_of_ne: "usb_identity_of s = Some u \<Longrightarrow> serial_of m u \<noteq> []"
  by (auto simp: serial_of_def usb_serial_ne bind_eq_Some_conv split: option.splits)

text \<open>What each field of the merged port is.\<close>

lemma metadata_apply_sel [simp]:
  "port_path (metadata_apply m p) = port_path p"
  "manufacturer (metadata_apply m p) = or_else (md_manufacturer m) (manufacturer p)"
  "location_id (metadata_apply m p) = or_else (md_location_id m) (location_id p)"
  "friendly_name (metadata_apply m p) = or_else (md_friendly_name m) (friendly_name p)"
  "pnp_id (metadata_apply m p) = or_else (md_pnp_id m) (pnp_id p)"
  "vendor_id (metadata_apply m p) = map_option (map ascii_upper)
     (or_else (map_option usb_vendor (Option.bind (md_pnp_id m) usb_identity_of)) (vendor_id p))"
  "product_id (metadata_apply m p) = map_option (map ascii_upper)
     (or_else (map_option usb_product (Option.bind (md_pnp_id m) usb_identity_of)) (product_id p))"
  "serial_number (metadata_apply m p) =
     or_else (map_option (serial_of m) (Option.bind (md_pnp_id m) usb_identity_of)) (serial_number p)"
  by (simp_all add: metadata_apply_def uppercase_ids_def Let_def split: option.splits)

lemma metadata_apply_twice: "metadata_apply m (metadata_apply m p) = metadata_apply m p"
  by (rule port_info.equality) simp_all

lemma metadata_default_sel [simp]:
  "md_pnp_id metadata_default = None" "md_parent_id metadata_default = None"
  "md_manufacturer metadata_default = None" "md_location_id metadata_default = None"
  "md_friendly_name metadata_default = None"
  by (simp_all add: metadata_default_def)

definition ch340 :: metadata where
  "ch340 = metadata_default
     \<lparr>md_pnp_id := Some (''USB'' @ backslash # ''VID_1a86&PID_7523'' @ backslash # ''7&33129A7&1&3''),
      md_manufacturer := Some ''wch.cn''\<rparr>"

text \<open>
  C24: merging metadata only improves a port. Its path stays, no field that was known is lost, a known
  serial number never becomes empty, the vendor and product are in upper case, and merging the same
  metadata again, as for a device that both classes list, or the final empty metadata changes
  nothing.
\<close>

theorem metadata_only_improves:
  fixes p :: port_info
  shows "let q = metadata_apply m p in
    port_path q = port_path p
    \<and> (\<forall>f \<in> {manufacturer, serial_number, vendor_id, product_id, pnp_id, location_id, friendly_name}.
           f p \<noteq> None \<longrightarrow> f q \<noteq> None)
    \<and> (serial_number p \<noteq> Some [] \<longrightarrow> serial_number q \<noteq> Some [])
    \<and> (\<forall>f \<in> {vendor_id, product_id}. map_option (map ascii_upper) (f q) = f q)
    \<and> metadata_apply m q = q \<and> metadata_apply metadata_default q = q"
proof -
  have "serial_number p \<noteq> Some [] \<longrightarrow> serial_number (metadata_apply m p) \<noteq> Some []"
    by (auto simp: or_else_def serial_of_ne bind_eq_Some_conv split: option.splits)
  moreover have "metadata_apply metadata_default (metadata_apply m p) = metadata_apply m p"
    by (rule port_info.equality) (simp_all add: option.map_comp comp_def)
  ultimately show ?thesis
    by (simp add: Let_def metadata_apply_twice option.map_comp comp_def)
qed

theorem metadata_only_improves_witness:
  "let p = port_info_default\<lparr>port_path := ''COM14'', serial_number := Some ''7''\<rparr>;
       q = metadata_apply ch340 p
   in vendor_id q = Some ''1A86'' \<and> serial_number q = Some ''7&33129A7&1&3'' \<and> manufacturer q \<noteq> None
      \<and> serial_number q \<noteq> Some [] \<and> metadata_apply ch340 q = q"
proof -
  let ?p = "port_info_default\<lparr>port_path := ''COM14'', serial_number := Some ''7''\<rparr>"
  have "serial_number (metadata_apply ch340 ?p) \<noteq> Some []" "metadata_apply ch340 (metadata_apply ch340 ?p) = metadata_apply ch340 ?p"
    using metadata_only_improves [of ch340 ?p]
    by (simp_all add: Let_def port_info_default_def del: metadata_apply_sel)
  moreover have "vendor_id (metadata_apply ch340 ?p) = Some ''1A86''"
    "serial_number (metadata_apply ch340 ?p) = Some ''7&33129A7&1&3''" "manufacturer (metadata_apply ch340 ?p) = Some ''wch.cn''"
    by code_simp+
  ultimately show ?thesis by (simp add: Let_def del: metadata_apply_sel)
qed

subsection \<open>Reading registry strings\<close>

text \<open>
  What the reader relies on of \<open>RegQueryValueExW\<close> and \<open>SetupDiGetDeviceRegistryPropertyW\<close>: for a
  value that is stored, a call without a buffer reports its size in bytes, and a call with a buffer of
  that size copies it and reports its type.
\<close>

locale registry_value =
  fixes query :: "'w query" and stored :: "'w \<Rightarrow> (u32 \<times> u16 list) option"
  assumes probe: "stored w = Some (k, data) \<Longrightarrow> query [] k0 s0 w = ((ok, b, k', s'), w') \<Longrightarrow>
      s' = word_of_nat (2 * length data) \<and> stored w' = stored w"
    and fetch: "stored w = Some (k, data) \<Longrightarrow> data \<noteq> [] \<Longrightarrow> length buffer = length data \<Longrightarrow>
      fst (query buffer k0 s0 w) = (True, data, k, word_of_nat (2 * length data))"
begin

lemma registry_string_stored:
  assumes "stored w = Some (k, data)" and "length data < 2 ^ 31"
  shows "fst (registry_string query w) =
    (if data \<noteq> [] \<and> length data \<le> 32768 \<and> k = 1 then wide_string data else None)"
proof -
  let ?size = "word_of_nat (2 * length data) :: u32"
  have u: "unat ?size = 2 * length data"
    using assms(2) by (simp add: unat_of_nat del: of_nat_mult of_nat_numeral)
  have m: "?size mod 2 = 0"
    by (simp add: word_unat_eq_iff unat_mod u del: of_nat_mult of_nat_numeral)
  have z: "?size = 0 \<longleftrightarrow> data = []" using u by (metis length_0_conv mult_is_0 numeral_2_eq_2 nat.distinct(1) unat_eq_zero)
  have g: "64 * 1024 < ?size \<longleftrightarrow> 32768 < length data" by (simp add: word_less_nat_alt u del: of_nat_mult of_nat_numeral)
  obtain ok b k' w' where q: "query [] 0 0 w = ((ok, b, k', ?size), w')" and s: "stored w' = Some (k, data)"
    using probe [OF assms(1), of 0 0] assms(1) by (metis prod.exhaust)
  have f: "data \<noteq> [] \<Longrightarrow> fst (query (replicate (length data) 0) k' ?size w') = (True, data, k, ?size)"
    using fetch [OF s, of "replicate (length data) 0"] by simp
  show ?thesis
  proof (cases "data \<noteq> [] \<and> length data \<le> 32768")
    case True
    then obtain w'' where "query (replicate (length data) 0) k' ?size w' = ((True, data, k, ?size), w'')"
      using f by (metis prod.exhaust_sel)
    with True q u m z g show ?thesis by (simp add: registry_string_def slice_to_def)
  next
    case False
    with q u m z g show ?thesis by (auto simp: registry_string_def)
  qed
qed

end

lemma wide_string_terminated:
  "0 \<notin> set us \<Longrightarrow> us \<noteq> [] \<Longrightarrow> wide_string (us @ 0 # junk) = Some (from_utf16_lossy us)"
proof -
  assume h: "0 \<notin> set us" "us \<noteq> []"
  then have "\<forall>x \<in> set us. \<not> x = 0" by blast
  then have "position (\<lambda>u. u = 0) (us @ 0 # junk) = Some (length us)"
    by (rule position_append_hit) simp
  with h show ?thesis by (simp add: wide_string_def)
qed

lemma wide_string_Some:
  "wide_string buffer = Some t \<Longrightarrow> \<exists>us rest. buffer = us @ rest \<and> us \<noteq> [] \<and> 0 \<notin> set us
     \<and> (rest = [] \<or> hd rest = 0) \<and> t = from_utf16_lossy us"
proof -
  assume w: "wide_string buffer = Some t"
  show ?thesis
  proof (cases "position (\<lambda>u. u = 0) buffer")
    case None
    with w show ?thesis
      by (intro exI [of _ buffer] exI [of _ "[]"]) (auto simp: wide_string_def Let_def position_None split: if_splits)
  next
    case (Some i)
    then have i: "i < length buffer" "buffer ! i = 0" "\<forall>j < i. buffer ! j \<noteq> 0"
      by (simp_all add: position_Some)
    moreover have "0 \<notin> set (take i buffer)" using i by (auto simp: in_set_conv_nth)
    ultimately show ?thesis using w Some
      by (intro exI [of _ "take i buffer"] exI [of _ "drop i buffer"])
        (auto simp: wide_string_def Let_def hd_drop_conv_nth split: if_splits)
  qed
qed

lemma encode_utf16_zero: "\<forall>n \<in> set ns. scalar n \<and> n \<noteq> 0 \<Longrightarrow> 0 \<notin> set (encode_utf16 ns)"
proof (induction ns)
  case Nil
  then show ?case by (simp add: encode_utf16_def)
next
  case (Cons n ns)
  have z: "(word_of_nat m :: u16) \<noteq> 0" if "0 < m" "m < 65536" for m
    using that by (simp add: word_unat_eq_iff unat_of_nat)
  have n: "n < 0x110000" "0 < n" using Cons.prems by (auto simp: scalar_def)
  then have "(n - 0x10000) div 0x400 < 0x400" "(n - 0x10000) mod 0x400 < 0x400"
    by (simp_all add: div_less_iff_less_mult)
  then have "0xD800 + (n - 0x10000) div 0x400 < 65536" "0xDC00 + (n - 0x10000) mod 0x400 < 65536" by simp_all
  with z n have "n < 65536 \<Longrightarrow> (word_of_nat n :: u16) \<noteq> 0"
    "(word_of_nat (0xD800 + (n - 0x10000) div 0x400) :: u16) \<noteq> 0"
    "(word_of_nat (0xDC00 + (n - 0x10000) mod 0x400) :: u16) \<noteq> 0"
    by (blast, metis add_gr_0 zero_less_numeral, metis add_gr_0 zero_less_numeral)
  moreover have "0 \<notin> set (encode_utf16 ns)" using Cons by simp
  ultimately show ?case by (simp add: encode_utf16_def del: of_nat_add)
qed

end
