(* ===== verification/Setup_Api.thy ===== *)
theory Setup_Api
  imports Metadata "HOL-Library.Multiset"
begin

text \<open>
  \<open>src/src/platform/windows_list/os.rs\<close>: walking the device classes of Windows and adding what
  SetupAPI knows of each listed port. The system calls are a parameter: a set of devices, a registry
  key and a device node are values of arbitrary types, \<open>'w\<close> is the state of the system. An invalid
  handle and a failed status are \<open>None\<close>.
\<close>

datatype device_class = Ports_Class | Modem_Class

datatype device_property = SPDRP_MFG | SPDRP_LOCATION_INFORMATION | SPDRP_FRIENDLYNAME

text \<open>
  The calls that fill a buffer return the data they store in it. \<open>query_value\<close> is given the size
  through the pointer that also receives it, \<open>query_property\<close> as an argument of its own.
\<close>

record ('s, 'd, 'k, 'n, 'w) setup_api =
  get_class_devs :: "device_class \<Rightarrow> 'w \<Rightarrow> 's option \<times> 'w"
  destroy_set :: "'s \<Rightarrow> 'w \<Rightarrow> 'w"
  enum_device :: "'s \<Rightarrow> nat \<Rightarrow> 'w \<Rightarrow> 'd option \<times> 'w"
  open_key :: "'s \<Rightarrow> 'd \<Rightarrow> 'w \<Rightarrow> 'k option \<times> 'w"
  close_key :: "'k \<Rightarrow> 'w \<Rightarrow> 'w"
  query_value :: "'k \<Rightarrow> string \<Rightarrow> 'w query"
  query_property :: "'s \<Rightarrow> 'd \<Rightarrow> device_property \<Rightarrow> u32 \<Rightarrow> 'w query"
  get_instance_id :: "'s \<Rightarrow> 'd \<Rightarrow> nat \<Rightarrow> 'w \<Rightarrow> u16 list option \<times> 'w"
  get_parent :: "'d \<Rightarrow> 'w \<Rightarrow> 'n option \<times> 'w"
  get_device_id :: "'n \<Rightarrow> nat \<Rightarrow> 'w \<Rightarrow> u16 list option \<times> 'w"

definition MAX_DEVICE_ID_LEN :: nat where
  "MAX_DEVICE_ID_LEN = 200"

subsection \<open>Properties of a device\<close>

text \<open>The call filling a buffer, as the closures pass it to \<open>registry_string\<close>.\<close>

definition into_buffer :: "'w query \<Rightarrow> 'w query" where
  "into_buffer call buffer k n w =
     (let ((ok, data, kind, size), w) = call buffer k n w
      in ((ok, fill_buffer buffer data, kind, size), w))"

definition name_query :: "('s, 'd, 'k, 'n, 'w) setup_api \<Rightarrow> 'k \<Rightarrow> 'w query" where
  "name_query api key buffer k n w =
     into_buffer (query_value api key ''PortName'') buffer k (word_of_nat (2 * length buffer)) w"

definition property_query ::
  "('s, 'd, 'k, 'n, 'w) setup_api \<Rightarrow> 's \<Rightarrow> 'd \<Rightarrow> device_property \<Rightarrow> 'w query" where
  "property_query api devs dev p buffer k n w =
     into_buffer (query_property api devs dev p (word_of_nat (2 * length buffer))) buffer k n w"

definition port_name ::
  "('s, 'd, 'k, 'n, 'w) setup_api \<Rightarrow> 's \<Rightarrow> 'd \<Rightarrow> 'w \<Rightarrow> string option \<times> 'w" where
  "port_name api devs dev w =
     (case open_key api devs dev w of
        (None, w) \<Rightarrow> (None, w)
      | (Some key, w) \<Rightarrow>
          (let (r, w) = registry_string (name_query api key) w in (r, close_key api key w)))"

definition device_property_of ::
  "('s, 'd, 'k, 'n, 'w) setup_api \<Rightarrow> 's \<Rightarrow> 'd \<Rightarrow> device_property \<Rightarrow> 'w \<Rightarrow> string option \<times> 'w" where
  "device_property_of api devs dev p w = registry_string (property_query api devs dev p) w"

definition instance_id ::
  "('s, 'd, 'k, 'n, 'w) setup_api \<Rightarrow> 's \<Rightarrow> 'd \<Rightarrow> 'w \<Rightarrow> string option \<times> 'w" where
  "instance_id api devs dev w =
     (let buffer = replicate MAX_DEVICE_ID_LEN 0;
          (r, w) = get_instance_id api devs dev (length buffer) w
      in (Option.bind r (\<lambda>data. wide_string (fill_buffer buffer data)), w))"

definition parent_id :: "('s, 'd, 'k, 'n, 'w) setup_api \<Rightarrow> 'd \<Rightarrow> 'w \<Rightarrow> string option \<times> 'w" where
  "parent_id api dev w =
     (case get_parent api dev w of
        (None, w) \<Rightarrow> (None, w)
      | (Some parent, w) \<Rightarrow>
          (let buffer = replicate MAX_DEVICE_ID_LEN 0;
               (r, w) = get_device_id api parent (length buffer) w
           in (Option.bind r (\<lambda>data. wide_string (fill_buffer buffer data)), w)))"

subsection \<open>Enriching the ports\<close>

definition device_metadata ::
  "('s, 'd, 'k, 'n, 'w) setup_api \<Rightarrow> 's \<Rightarrow> 'd \<Rightarrow> 'w \<Rightarrow> metadata \<times> 'w" where
  "device_metadata api devs dev w =
     (let (pnp, w) = instance_id api devs dev w;
          (parent, w) = parent_id api dev w;
          (mfg, w) = device_property_of api devs dev SPDRP_MFG w;
          (location, w) = device_property_of api devs dev SPDRP_LOCATION_INFORMATION w;
          (friendly, w) = device_property_of api devs dev SPDRP_FRIENDLYNAME w
      in (\<lparr>md_pnp_id = pnp, md_parent_id = parent, md_manufacturer = mfg, md_location_id = location,
           md_friendly_name = friendly\<rparr>, w))"

text \<open>The body of the loop over the devices of a set, after the enumeration call.\<close>

definition enrich_device ::
  "('s, 'd, 'k, 'n, 'w) setup_api \<Rightarrow> 's \<Rightarrow> 'd \<Rightarrow> port_info list \<times> 'w \<Rightarrow> port_info list \<times> 'w" where
  "enrich_device api devs dev =
     (\<lambda>(ports, w).
        case port_name api devs dev w of
          (None, w) \<Rightarrow> (ports, w)
        | (Some name, w) \<Rightarrow>
            (case position (\<lambda>p. eq_ignore_ascii_case (port_path p) name) ports of
               None \<Rightarrow> (ports, w)
             | Some i \<Rightarrow>
                 (let (m, w) = device_metadata api devs dev w
                  in (ports[i := metadata_apply m (ports ! i)], w))))"

function enrich_devices ::
  "('s, 'd, 'k, 'n, 'w) setup_api \<Rightarrow> 's \<Rightarrow> nat \<Rightarrow> port_info list \<times> 'w \<Rightarrow> port_info list \<times> 'w" where
  "enrich_devices api devs index (ports, w) =
     (if 2 ^ 32 - 1 \<le> index then (ports, w)
      else
        case enum_device api devs index w of
          (None, w) \<Rightarrow> (ports, w)
        | (Some dev, w) \<Rightarrow> enrich_devices api devs (Suc index) (enrich_device api devs dev (ports, w)))"
  by pat_completeness auto
termination
  by (relation "measure (\<lambda>(api, devs, index, ports). 2 ^ 32 - 1 - index)") auto

declare enrich_devices.simps [simp del]

definition enrich_class ::
  "('s, 'd, 'k, 'n, 'w) setup_api \<Rightarrow> device_class \<Rightarrow> port_info list \<times> 'w \<Rightarrow> port_info list \<times> 'w" where
  "enrich_class api class =
     (\<lambda>(ports, w).
        case get_class_devs api class w of
          (None, w) \<Rightarrow> (ports, w)
        | (Some devs, w) \<Rightarrow>
            (let (ports, w) = enrich_devices api devs 0 (ports, w) in (ports, destroy_set api devs w)))"

definition enrich ::
  "('s, 'd, 'k, 'n, 'w) setup_api \<Rightarrow> port_info list \<Rightarrow> 'w \<Rightarrow> port_info list \<times> 'w" where
  "enrich api ports w =
     (if ports = [] then (ports, w)
      else
        let (ports, w) = fold (enrich_class api) [Ports_Class, Modem_Class] (ports, w)
        in (map (metadata_apply metadata_default) ports, w))"

subsection \<open>Handles\<close>

lemma registry_string_keeps:
  "(\<And>b k n w. f (snd (query b k n w)) = f w) \<Longrightarrow> f (snd (registry_string query w)) = f w"
  by (auto simp: registry_string_def Let_def split: prod.splits option.splits) (metis snd_conv)+

text \<open>The loop over the devices keeps what its enumeration and its body keep.\<close>

lemma enrich_devices_keeps:
  assumes "\<And>i ports w. f (ports, snd (enum_device api s i w)) = f (ports, w)"
    and "\<And>d ports w. f (enrich_device api s d (ports, w)) = f (ports, w)"
  shows "f (enrich_devices api s i (ports, w)) = f (ports, w)"
proof (induction "2 ^ 32 - 1 - i" arbitrary: i ports w rule: less_induct)
  case less
  obtain r w1 where r: "enum_device api s i w = (r, w1)" by fastforce
  note step = enrich_devices.simps [of api s i ports w, unfolded r prod.case]
  show ?case
  proof (cases "2 ^ 32 - 1 \<le> i")
    case True
    then show ?thesis unfolding step by (simp only: if_True)
  next
    case i: False
    show ?thesis
    proof (cases r)
      case None
      then show ?thesis unfolding step using assms(1) [of ports i w] by (simp add: r)
    next
      case (Some d)
      obtain p2 w2 where e: "enrich_device api s d (ports, w1) = (p2, w2)" by fastforce
      have "2 ^ 32 - 1 - Suc i < 2 ^ 32 - 1 - i" using i by linarith
      note less [OF this, of p2 w2]
      also have "f (p2, w2) = f (ports, w)"
        using assms(1) [of ports i w] assms(2) [of d ports w1] by (simp only: e r snd_conv)
      finally show ?thesis unfolding step Some option.case e using i by (simp only: if_False)
    qed
  qed
qed

text \<open>What releasing handles relies on: which calls open and close device sets and registry keys.\<close>

locale setup_handles =
  fixes api :: "('s, 'd, 'k, 'n, 'w) setup_api" and held :: "'w \<Rightarrow> ('s + 'k) multiset"
  assumes get_Some: "get_class_devs api c w = (Some s, w') \<Longrightarrow> held w' = add_mset (Inl s) (held w)"
    and get_None: "get_class_devs api c w = (None, w') \<Longrightarrow> held w' = held w"
    and destroy: "held (destroy_set api s w) = held w - {#Inl s#}"
    and key_Some: "open_key api s d w = (Some k, w') \<Longrightarrow> held w' = add_mset (Inr k) (held w)"
    and key_None: "open_key api s d w = (None, w') \<Longrightarrow> held w' = held w"
    and close: "held (close_key api k w) = held w - {#Inr k#}"
    and enum_held: "held (snd (enum_device api s i w)) = held w"
    and value_held: "held (snd (query_value api k v b t n w)) = held w"
    and property_held: "held (snd (query_property api s d p len b t n w)) = held w"
    and id_held: "held (snd (get_instance_id api s d m w)) = held w"
    and parent_held: "held (snd (get_parent api d w)) = held w"
    and device_id_held: "held (snd (get_device_id api x m w)) = held w"
begin

lemma query_held:
  "held (snd (name_query api key b k n w)) = held w"
  "held (snd (property_query api s d p b k n w)) = held w"
  using value_held [of key "''PortName''" b k "word_of_nat (2 * length b)" w]
    property_held [of s d p "word_of_nat (2 * length b)" b k n w]
  by (auto simp: name_query_def property_query_def into_buffer_def Let_def split: prod.splits)

lemma port_name_held: "held (snd (port_name api s d w)) = held w"
proof (cases "open_key api s d w")
  case (Pair k w1)
  show ?thesis
  proof (cases k)
    case None
    with Pair key_None show ?thesis by (simp add: port_name_def)
  next
    case (Some key)
    have "held (snd (registry_string (name_query api key) w1)) = held w1"
      by (rule registry_string_keeps) (rule query_held)
    with Some Pair key_Some [of s d w key w1] show ?thesis
      by (simp add: port_name_def Let_def case_prod_beta close)
  qed
qed

lemma property_of_held: "held (snd (device_property_of api s d p w)) = held w"
  unfolding device_property_of_def by (rule registry_string_keeps) (rule query_held)

lemma instance_id_held: "held (snd (instance_id api s d w)) = held w"
  using id_held [of s d "length (replicate MAX_DEVICE_ID_LEN (0 :: u16))" w]
  by (simp add: instance_id_def Let_def case_prod_beta)

lemma parent_id_held: "held (snd (parent_id api d w)) = held w"
  using parent_held [of d w] device_id_held
  by (auto simp: parent_id_def Let_def split: prod.splits option.splits) (metis snd_conv)

lemma device_metadata_held: "held (snd (device_metadata api s d w)) = held w"
  by (simp add: device_metadata_def case_prod_beta Let_def property_of_held instance_id_held parent_id_held)

lemma enrich_device_held: "held (snd (enrich_device api s d (ports, w))) = held w"
  using port_name_held [of s d w] device_metadata_held
  by (auto simp: enrich_device_def Let_def split: prod.splits option.splits) (metis snd_conv)

lemma enrich_devices_held: "held (snd (enrich_devices api s i (ports, w))) = held w"
  using enrich_devices_keeps [where f = "\<lambda>st. held (snd st)" and api = api and s = s, simplified snd_conv,
      OF enum_held enrich_device_held] .

lemma enrich_class_held: "held (snd (enrich_class api c (ports, w))) = held w"
proof (cases "get_class_devs api c w")
  case (Pair r w1)
  show ?thesis
  proof (cases r)
    case None
    with Pair get_None show ?thesis by (simp add: enrich_class_def)
  next
    case (Some s)
    with Pair get_Some [of c w s w1] enrich_devices_held [of s 0 ports w1] show ?thesis
      by (simp add: enrich_class_def Let_def case_prod_beta destroy)
  qed
qed

lemma enrich_held: "held (snd (enrich api ports w)) = held w"
  using enrich_class_held [of Modem_Class] enrich_class_held [of Ports_Class ports w]
  by (auto simp: enrich_def Let_def split: prod.splits) (metis prod.collapse snd_conv)

end

subsection \<open>Ports\<close>

lemma enrich_device_paths: "map port_path (fst (enrich_device api s d (ports, w))) = map port_path ports"
  by (auto simp: enrich_device_def Let_def map_update position_Some
      split: prod.splits option.splits intro!: list_update_same_conv [THEN iffD2])

lemma enrich_devices_paths:
  "map port_path (fst (enrich_devices api s i (ports, w))) = map port_path ports"
  using enrich_devices_keeps [where f = "\<lambda>st. map port_path (fst st)" and api = api and s = s,
      simplified fst_conv, OF refl enrich_device_paths] .

lemma enrich_class_paths: "map port_path (fst (enrich_class api c (ports, w))) = map port_path ports"
  by (auto simp: enrich_class_def Let_def case_prod_beta enrich_devices_paths split: prod.split option.split)

lemma enrich_paths: "map port_path (fst (enrich api ports w)) = map port_path ports"
proof -
  obtain p1 w1 where 1: "enrich_class api Ports_Class (ports, w) = (p1, w1)" by fastforce
  obtain p2 w2 where 2: "enrich_class api Modem_Class (p1, w1) = (p2, w2)" by fastforce
  have "map port_path p2 = map port_path ports"
    using enrich_class_paths [of api Ports_Class ports w] enrich_class_paths [of api Modem_Class p1 w1] 1 2 by simp
  with 1 2 show ?thesis by (simp add: enrich_def Let_def comp_def)
qed

subsection \<open>A system\<close>

text \<open>
  A system for the concrete instances: the devices of each class with the values stored for them, and
  the handles that are open. A set is known by its class, a device and its key by class and index.
\<close>

record sim_device =
  sd_name :: "(u32 \<times> u16 list) option"
  sd_id :: "u16 list"
  sd_parent :: "u16 list option"
  sd_properties :: "(device_property \<times> u32 \<times> u16 list) list"

record sim_system =
  sys_devices :: "device_class \<Rightarrow> sim_device list"
  sys_handles :: "(device_class + device_class \<times> nat) list"

definition sim_device_of :: "device_class \<times> nat \<Rightarrow> sim_system \<Rightarrow> sim_device option" where
  "sim_device_of = (\<lambda>(c, i) w. if i < length (sys_devices w c) then Some (sys_devices w c ! i) else None)"

definition sim_read :: "(u32 \<times> u16 list) option \<Rightarrow> 'w query" where
  "sim_read v buffer k n w =
     (case v of
        None \<Rightarrow> ((False, [], k, 0), w)
      | Some (t, data) \<Rightarrow>
          ((length data \<le> length buffer, (if length data \<le> length buffer then data else []), t,
            word_of_nat (2 * length data)), w))"

definition sim_name_value :: "device_class \<times> nat \<Rightarrow> sim_system \<Rightarrow> (u32 \<times> u16 list) option" where
  "sim_name_value d w = Option.bind (sim_device_of d w) sd_name"

definition sim_property_value ::
  "device_class \<times> nat \<Rightarrow> device_property \<Rightarrow> sim_system \<Rightarrow> (u32 \<times> u16 list) option" where
  "sim_property_value d p w = Option.bind (sim_device_of d w) (\<lambda>x. map_of (sd_properties x) p)"

definition sim_api ::
  "(device_class, device_class \<times> nat, device_class \<times> nat, u16 list, sim_system) setup_api" where
  "sim_api =
     \<lparr>get_class_devs = (\<lambda>c w. (Some c, w\<lparr>sys_handles := Inl c # sys_handles w\<rparr>)),
      destroy_set = (\<lambda>c w. w\<lparr>sys_handles := remove1 (Inl c) (sys_handles w)\<rparr>),
      enum_device = (\<lambda>c i w. (if i < length (sys_devices w c) then Some (c, i) else None, w)),
      open_key = (\<lambda>c d w. (Some d, w\<lparr>sys_handles := Inr d # sys_handles w\<rparr>)),
      close_key = (\<lambda>k w. w\<lparr>sys_handles := remove1 (Inr k) (sys_handles w)\<rparr>),
      query_value = (\<lambda>k v b t n w. sim_read (sim_name_value k w) b t n w),
      query_property = (\<lambda>c d p m b t n w. sim_read (sim_property_value d p w) b t n w),
      get_instance_id = (\<lambda>c d m w. (map_option sd_id (sim_device_of d w), w)),
      get_parent = (\<lambda>d w. (Option.bind (sim_device_of d w) sd_parent, w)),
      get_device_id = (\<lambda>x m w. (Some x, w))\<rparr>"

interpretation sim: setup_handles sim_api "\<lambda>w. mset (sys_handles w)"
  by unfold_locales (auto simp: sim_api_def sim_read_def split: option.splits)

interpretation sim_name: registry_value "name_query sim_api k" "sim_name_value k" for k
  by unfold_locales
    (auto simp: sim_api_def sim_read_def name_query_def into_buffer_def Let_def)

interpretation sim_property: registry_value "property_query sim_api c d p" "sim_property_value d p" for c d p
  by unfold_locales
    (auto simp: sim_api_def sim_read_def property_query_def into_buffer_def Let_def)

subsection \<open>Properties\<close>

text \<open>
  C25: a string stored in the registry is read back: whatever the text, as long as it is not empty and
  with its terminator takes at most 64 KiB, its UTF-8 form is returned, and what follows the terminator
  is ignored.
\<close>

theorem registry_string_round_trip:
  assumes "registry_value query stored"
    and "stored w = Some (1, encode_utf16 ns @ 0 # junk)"
    and "\<forall>n \<in> set ns. scalar n \<and> n \<noteq> 0" and "ns \<noteq> []"
    and "2 * length (encode_utf16 ns @ 0 # junk) \<le> 64 * 1024"
  shows "fst (registry_string query w) = Some (concat (map utf8_char ns))"
proof -
  let ?data = "encode_utf16 ns @ 0 # junk"
  have "encode_utf16 ns \<noteq> []"
    using assms(4) by (cases ns) (auto simp: encode_utf16_def)
  then have "wide_string ?data = Some (from_utf16_lossy (encode_utf16 ns))"
    by (intro wide_string_terminated encode_utf16_zero assms(3))
  moreover have "from_utf16_lossy (encode_utf16 ns) = concat (map utf8_char ns)"
    using assms(3) by (simp add: from_utf16_lossy_def decode_encode_utf16)
  moreover have "length ?data \<le> 32768" using assms(5) by simp
  ultimately show ?thesis
    using registry_value.registry_string_stored [OF assms(1,2)] by simp
qed


text \<open>In this system the queries leave the state as it is.\<close>

lemma sim_registry_string:
  "snd (registry_string (name_query sim_api k) w) = w"
  "snd (registry_string (property_query sim_api c d p) w) = w"
  by (rule registry_string_keeps [where f = "\<lambda>w. w"],
      simp add: name_query_def property_query_def into_buffer_def sim_api_def sim_read_def Let_def
      split: option.split)+

lemma sim_port_name: "snd (port_name sim_api c d w) = w"
  using sim_registry_string(1) [of d "w\<lparr>sys_handles := Inr d # sys_handles w\<rparr>"]
  by (auto simp: port_name_def sim_api_def case_prod_beta)

lemma sim_device_metadata: "snd (device_metadata sim_api c d w) = w"
proof -
  have "snd (instance_id sim_api c d w) = w" "snd (parent_id sim_api d w) = w" for w
    by (simp_all add: instance_id_def parent_id_def sim_api_def Let_def split: option.split)
  then show ?thesis
    by (simp add: device_metadata_def device_property_of_def case_prod_beta Let_def sim_registry_string)
qed

lemma sim_enrich_device:
  "enrich_device sim_api c d (ports, w) =
     (case Option.bind (fst (port_name sim_api c d w))
             (\<lambda>name. position (\<lambda>p. eq_ignore_ascii_case (port_path p) name) ports) of
        None \<Rightarrow> ports
      | Some i \<Rightarrow> ports[i := metadata_apply (fst (device_metadata sim_api c d w)) (ports ! i)], w)"
  using sim_port_name [of c d w] sim_device_metadata [of c d w]
  by (cases "port_name sim_api c d w"; cases "device_metadata sim_api c d w")
    (auto simp: enrich_device_def split: option.splits)

text \<open>ASCII text as the system stores it.\<close>

definition wide :: "string \<Rightarrow> u16 list" where
  "wide s = map (\<lambda>c. word_of_nat (byte c)) s"

lemma wide_string_ascii:
  assumes "\<forall>c \<in> set s. 0 < byte c \<and> byte c < 128" and "s \<noteq> []"
  shows "wide_string (wide s @ 0 # junk) = Some s"
proof -
  have u: "unat (word_of_nat m :: u16) = m" if "m < 128" for m
    using that by (simp add: unat_of_nat)
  have "0 \<notin> set (wide s)"
  proof
    assume "0 \<in> set (wide s)"
    then obtain c where "c \<in> set s" "(word_of_nat (byte c) :: u16) = 0" by (auto simp: wide_def)
    with u [of "byte c"] assms(1) show False by auto
  qed
  moreover have "from_utf16_lossy (wide s) = s" using assms(1)
  proof (induction s)
    case Nil
    then show ?case by (simp add: wide_def from_utf16_lossy_def)
  next
    case (Cons c s)
    have "(word_of_nat (byte c) :: u16) < 0xD800" using Cons.prems by (simp add: word_less_nat_alt u)
    with Cons u [of "byte c"] show ?case
      by (simp add: wide_def from_utf16_lossy_def utf8_char_def byte_def)
  qed
  moreover have "wide s \<noteq> []" using assms(2) by (simp add: wide_def)
  ultimately show ?thesis by (simp add: wide_string_terminated)
qed

text \<open>A serial adapter listed in the modem class.\<close>

definition adapter_id :: string where
  "adapter_id = ''USB'' @ backslash # ''VID_1A86&PID_7523'' @ backslash # ''5''"

definition sample_device :: sim_device where
  "sample_device =
     \<lparr>sd_name = Some (1, wide ''com3'' @ [0]), sd_id = wide adapter_id @ [0], sd_parent = None,
      sd_properties = [(SPDRP_MFG, 1, wide ''wch'' @ [0])]\<rparr>"

definition sample_system :: sim_system where
  "sample_system =
     \<lparr>sys_devices = (\<lambda>c. case c of Ports_Class \<Rightarrow> [] | Modem_Class \<Rightarrow> [sample_device]), sys_handles = []\<rparr>"

text \<open>What the system answers for that device, whatever handles are open.\<close>

lemma sample_lookup: "sim_device_of (Modem_Class, 0) (sample_system\<lparr>sys_handles := h\<rparr>) = Some sample_device"
  by (simp add: sim_device_of_def sample_system_def)

lemma sample_name:
  "fst (port_name sim_api Modem_Class (Modem_Class, 0) (sample_system\<lparr>sys_handles := h\<rparr>)) = Some ''com3''"
proof -
  let ?w = "sample_system\<lparr>sys_handles := Inr (Modem_Class, 0) # h\<rparr>"
  have "sim_name_value (Modem_Class, 0) ?w = Some (1, wide ''com3'' @ [0])"
    unfolding sim_name_value_def sample_lookup by (simp add: sample_device_def)
  from sim_name.registry_string_stored [OF this]
  have "fst (registry_string (name_query sim_api (Modem_Class, 0)) ?w) = Some ''com3''"
    using wide_string_ascii [of "''com3''" "[]"] by (simp add: wide_def byte_def)
  then show ?thesis by (simp add: port_name_def sim_api_def [of] case_prod_beta)
qed

lemma sample_metadata:
  "fst (device_metadata sim_api Modem_Class (Modem_Class, 0) (sample_system\<lparr>sys_handles := h\<rparr>)) =
     metadata_default\<lparr>md_pnp_id := Some adapter_id, md_manufacturer := Some ''wch''\<rparr>"
proof -
  let ?w = "sample_system\<lparr>sys_handles := h\<rparr>" and ?d = "(Modem_Class, 0) :: device_class \<times> nat"
  have fill: "fill_buffer (replicate MAX_DEVICE_ID_LEN 0) (wide adapter_id @ [0]) =
      wide adapter_id @ 0 # replicate (MAX_DEVICE_ID_LEN - length (wide adapter_id @ [0])) 0"
    by (simp add: fill_buffer_def wide_def adapter_id_def MAX_DEVICE_ID_LEN_def)
  have "\<forall>c \<in> set adapter_id. 0 < byte c \<and> byte c < 128" by (simp add: adapter_id_def byte_def)
  then have "wide_string (wide adapter_id @ 0 # junk) = Some adapter_id" for junk
    by (rule wide_string_ascii) (simp add: adapter_id_def)
  then have id: "fst (instance_id sim_api Modem_Class ?d ?w) = Some adapter_id"
    by (simp add: instance_id_def sim_api_def sample_lookup sample_device_def fill)
  have parent: "fst (parent_id sim_api ?d ?w) = None"
    by (simp add: parent_id_def sim_api_def sample_lookup sample_device_def)
  have v: "sim_property_value ?d p ?w = map_of [(SPDRP_MFG, 1, wide ''wch'' @ [0])] p" for p
    unfolding sim_property_value_def sample_lookup by (simp add: sample_device_def)
  have mfg: "fst (device_property_of sim_api Modem_Class ?d SPDRP_MFG ?w) = Some ''wch''"
    using sim_property.registry_string_stored [of ?d SPDRP_MFG ?w 1 "wide ''wch'' @ [0]" Modem_Class]
      wide_string_ascii [of "''wch''" "[]"] v [of SPDRP_MFG]
    by (simp add: device_property_of_def wide_def byte_def)
  have none: "fst (registry_string (property_query sim_api Modem_Class ?d p) ?w) = None" if "p \<noteq> SPDRP_MFG" for p
    using v [of p] that
    by (simp add: registry_string_def property_query_def into_buffer_def sim_api_def sim_read_def)
  have snds: "snd (instance_id sim_api Modem_Class ?d w) = w" "snd (parent_id sim_api ?d w) = w" for w
    by (simp_all add: instance_id_def parent_id_def sim_api_def Let_def split: option.split)
  show ?thesis
    using id parent mfg none
    by (simp add: device_metadata_def device_property_of_def case_prod_beta Let_def sim_registry_string snds
        metadata_default_def)
qed
theorem registry_string_round_trip_witness:
  "fst (registry_string (name_query sim_api (Modem_Class, 0)) sample_system) = Some ''com3''"
proof -
  have e: "wide ''com3'' @ [0] = encode_utf16 [99, 111, 109, 51] @ 0 # []"
    by (simp add: wide_def byte_def encode_utf16_def)
  have s: "sim_name_value (Modem_Class, 0) sample_system = Some (1, encode_utf16 [99, 111, 109, 51] @ 0 # [])"
    unfolding e [symmetric] by (simp add: sim_name_value_def sim_device_of_def sample_system_def sample_device_def)
  have u: "concat (map utf8_char [99, 111, 109, 51]) = ''com3''" by code_simp
  show ?thesis
    using registry_string_round_trip [OF sim_name.registry_value_axioms s] unfolding u
    by (simp add: scalar_def encode_utf16_def)
qed

text \<open>
  C23: enriching neither adds nor removes nor renames a port, whatever SetupAPI answers and however
  many devices it lists, and it returns every handle: each set of devices and each registry key it
  opened is closed again, also when a name cannot be read or no port matches.
\<close>

theorem enrich_keeps_ports_and_handles:
  assumes "setup_handles api held"
  shows "map port_path (fst (enrich api ports w)) = map port_path ports
    \<and> held (snd (enrich api ports w)) = held w"
  by (rule conjI) (rule enrich_paths, rule setup_handles.enrich_held [OF assms])

theorem enrich_keeps_ports_and_handles_witness:
  "\<exists>p w. enrich sim_api [port_info_default\<lparr>port_path := ''COM3''\<rparr>] sample_system = ([p], w)
     \<and> port_path p = ''COM3'' \<and> manufacturer p = Some ''wch'' \<and> serial_number p = Some ''5''
     \<and> sys_handles w = []"
proof -
  let ?port = "port_info_default\<lparr>port_path := ''COM3''\<rparr>"
  let ?w = "sample_system\<lparr>sys_handles := [Inl Modem_Class]\<rparr>" and ?d = "(Modem_Class, 0) :: device_class \<times> nat"
  let ?e = "enrich sim_api [?port] sample_system"
  have "map port_path (fst ?e) = [''COM3'']" "mset (sys_handles (snd ?e)) = {#}"
    using enrich_keeps_ports_and_handles [OF sim.setup_handles_axioms, of "[?port]" sample_system]
    by (simp_all add: sample_system_def)
  moreover have "map (\<lambda>p. (manufacturer p, serial_number p)) (fst ?e) = [(Some ''wch'', Some ''5'')]"
  proof -
    have enum: "enum_device sim_api c i w = (if i < length (sys_devices w c) then Some (c, i) else None, w)"
      "get_class_devs sim_api c w = (Some c, w\<lparr>sys_handles := Inl c # sys_handles w\<rparr>)"
      "destroy_set sim_api c w = w\<lparr>sys_handles := remove1 (Inl c) (sys_handles w)\<rparr>" for c i w
      by (simp_all add: sim_api_def)
    have f: "fst (enrich_device sim_api Modem_Class ?d ([?port], ?w)) =
        [metadata_apply (metadata_default\<lparr>md_pnp_id := Some adapter_id, md_manufacturer := Some ''wch''\<rparr>) ?port]"
    proof -
      have "eq_ignore_ascii_case ''COM3'' ''com3''" by code_simp
      then show ?thesis
        unfolding sim_enrich_device sample_name sample_metadata by (simp add: port_info_default_def)
    qed
    have "(let p = metadata_apply metadata_default (metadata_apply
          (metadata_default\<lparr>md_pnp_id := Some adapter_id, md_manufacturer := Some ''wch''\<rparr>) ?port)
        in (manufacturer p, serial_number p)) = (Some ''wch'', Some ''5'')"
      by code_simp
    with f have "map (\<lambda>p. (manufacturer p, serial_number p))
        (map (metadata_apply metadata_default) (fst (enrich_device sim_api Modem_Class ?d ([?port], ?w))))
        = [(Some ''wch'', Some ''5'')]"
      by (simp add: Let_def del: metadata_apply_sel)
    then show ?thesis
      by (cases "enrich_device sim_api Modem_Class ?d ([?port], ?w)")
        (simp add: enrich_def enrich_class_def enrich_devices.simps enum sim_enrich_device sample_system_def)
  qed
  ultimately show ?thesis by (cases ?e) auto
qed

end
