(* ===== verification/Listing.thy ===== *)
theory Listing
  imports Setup_Api Events Serial_Stream
begin

text \<open>
  Listing the serial ports: \<open>ListTask::compute\<close> in \<open>src/src/lib.rs\<close>, the persistent names of
  \<open>port_ids\<close> in \<open>src/src/platform.rs\<close> and the locations of \<open>src/src/platform/macos_list.rs\<close>.
\<close>

subsection \<open>Locations\<close>

definition format_location :: "string \<Rightarrow> u8 list \<Rightarrow> string option" where
  "format_location bus ports =
     (case parse_u8 bus of
        None \<Rightarrow> None
      | Some bus \<Rightarrow>
          if length ports > 6 \<or> list_ex (\<lambda>port. port > 15) ports then None
          else
            let loc = fold (\<lambda>(index, port) loc. loc OR push_bit (20 - index * 4) (ucast port))
                        (enumerate 0 ports) (push_bit 24 (word_of_nat bus :: u32))
            in Some (hex_format 8 (unat loc)))"

text \<open>A location is its bus number and its chain of ports.\<close>

definition location_id_of :: "string \<times> u8 list \<Rightarrow> string option" where
  "location_id_of = (\<lambda>(bus, ports). format_location bus ports)"

subsection \<open>Persistent names on Linux\<close>

text \<open>An entry of the directory: its name, and the path it resolves to, if it does.\<close>

record dir_entry =
  file_name :: string
  canonical :: "string option"

type_synonym port_names = "bool \<times> string list \<Rightarrow> string option"

definition insert_name :: "dir_entry \<Rightarrow> port_names \<Rightarrow> port_names" where
  "insert_name e ids =
     (case canonical e of
        None \<Rightarrow> ids
      | Some path \<Rightarrow>
          (case ids (path_key path) of
             None \<Rightarrow> ids(path_key path \<mapsto> to_string_lossy (file_name e))
           | Some _ \<Rightarrow> ids))"

text \<open>\<open>by_id\<close> is what reading the directory gave; an entry that could not be read is \<open>None\<close>.\<close>

definition port_ids :: "target_os \<Rightarrow> dir_entry option list option \<Rightarrow> port_names" where
  "port_ids os by_id =
     (if os = Linux then
        (case by_id of
           None \<Rightarrow> Map.empty
         | Some entries \<Rightarrow>
             fold insert_name (sort_key file_name (List.map_filter (\<lambda>e. e) entries)) Map.empty)
      else Map.empty)"

subsection \<open>The list\<close>

text \<open>What \<open>serialport::available_ports\<close> returns.\<close>

record usb_port_info =
  usb_vid :: u16
  usb_pid :: u16
  usb_serial_number :: "string option"
  usb_manufacturer :: "string option"
  usb_product_name :: "string option"
  usb_location :: "(string \<times> u8 list) option"

datatype port_type = UsbPort usb_port_info | PciPort | BluetoothPort | UnknownPort

record available_port =
  ap_name :: string
  ap_type :: port_type

datatype enumeration = Enumeration_Panicked | Enumeration_Failed string | Enumerated "available_port list"

definition listed_port :: "target_os \<Rightarrow> port_names \<Rightarrow> available_port \<Rightarrow> port_info" where
  "listed_port os ids port =
     (let info = port_info_default\<lparr>port_path := ap_name port, pnp_id := ids (path_key (ap_name port))\<rparr> in
      case ap_type port of
        UsbPort usb \<Rightarrow>
          (let info = (if os = Macos
                then info\<lparr>location_id := Option.bind (usb_location usb) location_id_of\<rparr>
                else info);
               info = info\<lparr>manufacturer := usb_manufacturer usb,
                           serial_number := usb_serial_number usb,
                           vendor_id := Some (hex_format 4 (unat (usb_vid usb))),
                           product_id := Some (hex_format 4 (unat (usb_pid usb)))\<rparr>
           in if os = Windows then info\<lparr>friendly_name := usb_product_name usb\<rparr> else info)
      | _ \<Rightarrow> info)"

definition list_compute ::
  "target_os \<Rightarrow> ('s, 'd, 'k, 'n, 'w) setup_api \<Rightarrow> enumeration \<Rightarrow> dir_entry option list option \<Rightarrow> 'w
     \<Rightarrow> (napi_error + port_info list) \<times> 'w" where
  "list_compute os api available by_id w =
     (case available of
        Enumeration_Panicked \<Rightarrow> (Inl (from_reason ''Serial port enumeration failed''), w)
      | Enumeration_Failed error \<Rightarrow> (Inl (from_reason error), w)
      | Enumerated ports \<Rightarrow>
          (let ids = port_ids os by_id;
               result = map (listed_port os ids) ports;
               (result, w) = (if os = Windows then enrich api result w else (result, w))
           in (Inr (sort_key port_path result), w)))"

subsection \<open>Properties\<close>

lemma port_path_listed: "port_path (listed_port os ids port) = ap_name port"
  by (simp add: listed_port_def port_info_default_def Let_def split: port_type.split)

text \<open>
  C22: listing never loses or invents a port. It fails only when the enumeration failed or panicked;
  otherwise the result has exactly the enumerated paths, on every platform and whatever the metadata
  lookups answer, in ascending order.
\<close>

theorem list_exact:
  "case available of
     Enumerated ports \<Rightarrow>
       (\<exists>infos w'. list_compute os api available by_id w = (Inr infos, w')
          \<and> sorted (map port_path infos) \<and> mset (map port_path infos) = mset (map ap_name ports))
   | _ \<Rightarrow> (\<exists>e. list_compute os api available by_id w = (Inl e, w))"
proof (cases available)
  case (Enumerated ports)
  obtain infos w' where e:
    "(if os = Windows then enrich api (map (listed_port os (port_ids os by_id)) ports) w
      else (map (listed_port os (port_ids os by_id)) ports, w)) = (infos, w')" by fastforce
  have "map port_path infos = map ap_name ports"
    using e enrich_paths [of api "map (listed_port os (port_ids os by_id)) ports" w]
    by (auto simp: comp_def port_path_listed split: if_splits)
  then have "mset (map port_path (sort_key port_path infos)) = mset (map ap_name ports)"
    by (metis mset_map mset_sort)
  with Enumerated e show ?thesis by (auto simp: list_compute_def Let_def)
qed (simp_all add: list_compute_def)

lemma insert_name_other:
  "map_option path_key (canonical e) \<noteq> Some k \<Longrightarrow> insert_name e ids k = ids k"
  by (auto simp: insert_name_def split: option.split)

lemma fold_insert_name:
  "fold insert_name es ids k =
     (case ids k of
        Some n \<Rightarrow> Some n
      | None \<Rightarrow> map_option (\<lambda>e. to_string_lossy (file_name e))
                 (List.find (\<lambda>e. map_option path_key (canonical e) = Some k) es))"
proof (induction es arbitrary: ids)
  case Nil
  then show ?case by (simp split: option.split)
next
  case (Cons e es)
  show ?case
  proof (cases "map_option path_key (canonical e) = Some k")
    case True
    then have "insert_name e ids k = (case ids k of None \<Rightarrow> Some (to_string_lossy (file_name e)) | Some n \<Rightarrow> Some n)"
      by (auto simp: insert_name_def split: option.splits)
    with True Cons.IH [of "insert_name e ids"] show ?thesis by (auto split: option.split)
  next
    case False
    then have "List.find (\<lambda>e. map_option path_key (canonical e) = Some k) (e # es) =
        List.find (\<lambda>e. map_option path_key (canonical e) = Some k) es" by auto
    then show ?thesis by (simp only: fold_Cons comp_apply Cons.IH insert_name_other [OF False])
  qed
qed

lemma find_sorted_least:
  assumes "sorted (map f xs)" and "List.find P xs = Some x" and "y \<in> set xs" and "P y"
  shows "f x \<le> (f y :: 'b :: linorder)"
  using assms
proof (induction xs)
  case (Cons z zs)
  then show ?case by (cases "P z") auto
qed simp

text \<open>
  C28: the persistent name of a Linux port does not depend on the order of the directory: of the links
  that resolve to its path it is the one with the least name, and there is one whenever there is a link.
\<close>

theorem port_ids_least:
  assumes "e \<in> set (List.map_filter (\<lambda>e. e) entries)" and "canonical e = Some path"
  shows "\<exists>best \<in> set (List.map_filter (\<lambda>e. e) entries).
    port_ids Linux (Some entries) (path_key path) = Some (to_string_lossy (file_name best))
    \<and> map_option path_key (canonical best) = Some (path_key path) \<and> file_name best \<le> file_name e"
proof -
  let ?es = "sort_key file_name (List.map_filter (\<lambda>e. e) entries)"
  let ?P = "\<lambda>e. map_option path_key (canonical e) = Some (path_key path)"
  have e: "e \<in> set ?es" "?P e" using assms by simp_all
  obtain best where b: "List.find ?P ?es = Some best"
    using e by (cases "List.find ?P ?es") (auto simp: find_None_iff)
  then obtain i where i: "i < length ?es" "?P (?es ! i)" "best = ?es ! i"
    unfolding find_Some_iff by blast
  then have "best \<in> set ?es" by (metis nth_mem)
  moreover have "file_name best \<le> file_name e"
    by (rule find_sorted_least [OF _ b e]) simp
  ultimately show ?thesis
    using b i by (intro bexI [of _ best]) (simp_all add: port_ids_def fold_insert_name)
qed

theorem port_ids_least_witness:
  "port_ids Linux (Some [Some \<lparr>file_name = ''usb-b'', canonical = Some ''/dev/ttyUSB0''\<rparr>, None,
       Some \<lparr>file_name = ''usb-a'', canonical = Some ''/dev/ttyUSB0''\<rparr>]) (path_key ''/dev/ttyUSB0'')
     = Some ''usb-a''"
proof -
  let ?b = "\<lparr>file_name = ''usb-b'', canonical = Some ''/dev/ttyUSB0''\<rparr>"
  let ?a = "\<lparr>file_name = ''usb-a'', canonical = Some ''/dev/ttyUSB0''\<rparr>"
  have "?a \<in> set (List.map_filter (\<lambda>e. e) [Some ?b, None, Some ?a])" by (simp add: map_filter_simps)
  have m: "List.map_filter (\<lambda>e. e) [Some ?b, None, Some ?a] = [?b, ?a]" by (simp add: map_filter_simps)
  from port_ids_least [OF \<open>?a \<in> _\<close>, of "''/dev/ttyUSB0''"] obtain best where
    b: "best \<in> set [?b, ?a]" "file_name best \<le> ''usb-a''"
      "port_ids Linux (Some [Some ?b, None, Some ?a]) (path_key ''/dev/ttyUSB0'') = Some (to_string_lossy (file_name best))"
    unfolding m dir_entry.select_convs by blast
  have "\<not> ''usb-b'' \<le> ''usb-a''" "to_string_lossy ''usb-a'' = ''usb-a''" by code_simp+
  with b show ?thesis by auto
qed

subsection \<open>Decoding locations\<close>

text \<open>The decimal digits of a byte.\<close>

definition show_u8 :: "nat \<Rightarrow> string" where
  "show_u8 n =
     (let d = \<lambda>k. char_of (48 + k :: nat) in
      if n < 10 then [d n] else if n < 100 then [d (n div 10), d (n mod 10)]
      else [d (n div 100), d (n div 10 mod 10), d (n mod 10)])"

lemma digit_char:
  assumes "k < 10"
  shows "(of_char (char_of (48 + k :: nat) :: char) :: nat) = 48 + k"
    and "char_of (48 + k :: nat) \<noteq> CHR ''+''" and "char_of (48 + k :: nat) \<noteq> CHR ''-''"
proof -
  show *: "(of_char (char_of (48 + k :: nat) :: char) :: nat) = 48 + k" using assms by simp
  show "char_of (48 + k :: nat) \<noteq> CHR ''+''" "char_of (48 + k :: nat) \<noteq> CHR ''-''"
    using * by (auto dest!: arg_cong [where f = "of_char :: char \<Rightarrow> nat"])
qed

lemma parse_show_u8:
  assumes "n < 256"
  shows "parse_u8 (show_u8 n) = Some n"
proof -
  have d: "n = 10 * (n div 10) + n mod 10" "n div 10 = 10 * (n div 100) + n div 10 mod 10"
    using div_mult2_eq [of n 10 10] by simp_all
  have s: "parse_digits m (char_of (48 + k :: nat) # cs) =
      (if 10 * m + k \<le> 255 then parse_digits (10 * m + k) cs else None)" if "k < 10" for m k cs
    using that by (simp add: digit_char(1) Let_def)
  consider "n < 10" | "10 \<le> n" "n < 100" | "100 \<le> n" by linarith
  then show ?thesis
  proof cases
    case 1
    then show ?thesis
      by (simp add: show_u8_def parse_u8_def digit_char s del: parse_digits.simps(2))
  next
    case 2
    then have "n div 10 < 10" by simp
    with 2 d(1) show ?thesis
      by (simp add: show_u8_def parse_u8_def digit_char s del: parse_digits.simps(2))
  next
    case 3
    have "n div 100 < 10" using assms by simp
    moreover have "10 * (n div 100) + n div 10 mod 10 \<le> 255" using d assms by linarith
    moreover have "10 * (10 * (n div 100) + n div 10 mod 10) + n mod 10 = n" by (metis d)
    ultimately show ?thesis using 3 assms
      by (simp add: show_u8_def parse_u8_def digit_char s del: parse_digits.simps(2))
  qed
qed

definition location_bus :: "u32 \<Rightarrow> string" where
  "location_bus n = show_u8 (unat (drop_bit 24 n))"

definition location_chain :: "u32 \<Rightarrow> u8 list" where
  "location_chain n =
     rev (dropWhile (\<lambda>p. p = 0) (rev (map (\<lambda>i. ucast (drop_bit (20 - i * 4) n AND 15)) [0..<6])))"

lemma bit_15: "bit (15 :: u32) j \<longleftrightarrow> j < 4"
  using bit_mask_iff [of 4 j, where 'a = u32] by (auto simp: mask_eq_exp_minus_1)

lemma bit_nibble:
  fixes n :: u32
  shows "k \<le> 28 \<Longrightarrow> bit (push_bit k (drop_bit k n AND 15)) i \<longleftrightarrow> k \<le> i \<and> i < k + 4 \<and> bit n i"
proof -
  assume "k \<le> 28"
  moreover have "bit (push_bit k (drop_bit k n AND 15)) i \<longleftrightarrow>
      k \<le> i \<and> i < 32 \<and> bit n (k + (i - k)) \<and> i - k < 4"
    unfolding bit_push_bit_iff bit_and_iff bit_15 bit_drop_bit_eq comp_apply by auto
  moreover have "bit n i \<Longrightarrow> i < 32" using bit_imp_le_length [of n i] by simp
  ultimately show ?thesis by (cases "k \<le> i") auto
qed

lemma word_nibbles:
  fixes n :: u32
  shows "push_bit 24 (drop_bit 24 n) OR push_bit 20 (drop_bit 20 n AND 15) OR push_bit 16 (drop_bit 16 n AND 15)
    OR push_bit 12 (drop_bit 12 n AND 15) OR push_bit 8 (drop_bit 8 n AND 15) OR push_bit 4 (drop_bit 4 n AND 15)
    OR push_bit 0 (drop_bit 0 n AND 15) = n"
proof (rule bit_word_eqI)
  fix i assume i: "i < LENGTH(32)"
  have "bit (push_bit 24 (drop_bit 24 n)) i \<longleftrightarrow> 24 \<le> i \<and> bit n i"
    using i by (cases "24 \<le> i") (auto simp: bit_simps)
  then show "bit (push_bit 24 (drop_bit 24 n) OR push_bit 20 (drop_bit 20 n AND 15) OR push_bit 16 (drop_bit 16 n AND 15)
    OR push_bit 12 (drop_bit 12 n AND 15) OR push_bit 8 (drop_bit 8 n AND 15) OR push_bit 4 (drop_bit 4 n AND 15)
    OR push_bit 0 (drop_bit 0 n AND 15)) i \<longleftrightarrow> bit n i"
    unfolding bit_or_iff by (simp only: bit_nibble) linarith
qed

definition add_port :: "nat \<times> u8 \<Rightarrow> u32 \<Rightarrow> u32" where
  "add_port = (\<lambda>(index, port) loc. loc OR push_bit (20 - index * 4) (ucast port))"

lemma add_zero_ports: "fold add_port (enumerate m (replicate k 0)) loc = loc"
  by (induction k arbitrary: m) (simp_all add: add_port_def)

lemma trailing_zeros: "\<exists>k. xs = rev (dropWhile (\<lambda>p. p = 0) (rev xs)) @ replicate k (0 :: u8)"
proof -
  let ?z = "takeWhile (\<lambda>p. p = 0) (rev xs)"
  have "rev xs = ?z @ dropWhile (\<lambda>p. p = 0) (rev xs)" by simp
  moreover have "?z = replicate (length ?z) 0" by (rule replicate_eqI [symmetric, THEN sym]) (auto dest: set_takeWhileD)
  ultimately show ?thesis by (metis rev_append rev_replicate rev_rev_ident)
qed

lemma format_location_decoded:
  "format_location (location_bus n) (location_chain n) = Some (hex_format 8 (unat n))"
proof -
  let ?ns = "map (\<lambda>i. ucast (drop_bit (20 - i * 4) n AND 15)) [0..<6] :: u8 list"
  obtain k where k: "?ns = location_chain n @ replicate k 0"
    using trailing_zeros [of ?ns] unfolding location_chain_def by blast
  have len: "length (location_chain n) \<le> 6" using arg_cong [OF k, of length] by simp
  have small: "ucast (w AND 15) \<le> (15 :: u8)" for w :: u32
  proof -
    have "w AND 15 \<le> 15" by (rule word_and_le1)
    then have "unat (w AND 15) \<le> 15" by (simp add: word_le_nat_alt)
    then show ?thesis by (simp add: word_le_nat_alt unsigned_ucast_eq take_bit_nat_less_eq_self [THEN order_trans])
  qed
  have "set (location_chain n) \<subseteq> set ?ns" using k by (metis Un_upper1 set_append)
  moreover have "port \<le> 15" if "port \<in> set ?ns" for port
    using that by (auto simp: small)
  ultimately have le: "\<not> list_ex (\<lambda>port. port > 15) (location_chain n)"
    unfolding list_ex_iff not_less [symmetric] by (meson not_less subsetD)
  have un: "unat n < 2 ^ LENGTH(32)" by (rule unsigned_less)
  then have "unat n div 16777216 < 256" by simp
  then have b: "unat (drop_bit 24 n) < 256" by (simp add: drop_bit_eq_div unat_div)
  have bus: "parse_u8 (location_bus n) = Some (unat (drop_bit 24 n))"
    unfolding location_bus_def by (rule parse_show_u8 [OF b])
  have u: "ucast (ucast (w AND 15) :: u8) = w AND 15" for w :: u32
  proof (rule bit_word_eqI)
    fix i
    have "bit (w AND 15) i \<Longrightarrow> i < 4" by (simp only: bit_and_iff bit_15)
    then show "bit (ucast (ucast (w AND 15) :: u8) :: u32) i \<longleftrightarrow> bit (w AND 15) i" if "i < LENGTH(32)"
      using that unfolding bit_unsigned_iff by auto
  qed
  have "fold add_port (enumerate 0 (location_chain n)) (push_bit 24 (drop_bit 24 n)) =
      fold add_port (enumerate 0 ?ns) (push_bit 24 (drop_bit 24 n))"
    unfolding k by (simp add: enumerate_append_eq add_zero_ports)
  also have "\<dots> = n"
  proof -
    define d where "d k = drop_bit k n AND 15" for k
    have "?ns = map ucast [d 20, d 16, d 12, d 8, d 4, d 0]"
      by (simp add: d_def upt_rec)
    moreover have "ucast (ucast (d k) :: u8) = d k" for k by (simp only: d_def u)
    ultimately show ?thesis
      using word_nibbles [of n, folded d_def] by (simp add: add_port_def or.assoc)
  qed
  finally show ?thesis
    using len le bus by (simp add: format_location_def add_port_def [symmetric])
qed

text \<open>
  C29: a macOS location is rendered as the eight hexadecimal digits of its 32-bit identifier: for every
  identifier, formatting the bus number and the port chain it decodes to gives back all of its digits.
\<close>
theorem location_round_trip:
  "format_location (location_bus n) (location_chain n) = Some (hex_format 8 (unat n))
   \<and> hex_parse (hex_format 8 (unat n)) = unat n"
proof -
  have "unat n < 2 ^ LENGTH(32)" by (rule unsigned_less)
  then show ?thesis by (simp add: format_location_decoded hex_parse_format)
qed

end
