(* ===== verification/Windows_Stream.thy ===== *)
theory Windows_Stream
  imports Unix_Stream
begin

text \<open>
  \<open>src/src/platform/windows.rs\<close>: the serial stream of Windows. Transfers are delegated to a
  named-pipe client over an overlapped handle, control operations to a \<open>COMPort\<close> over a duplicate
  of it; opening moves the settings of a probing handle to them. The system calls are a parameter.
\<close>

subsection \<open>Transfers\<close>

text \<open>
  The pipe client and the control port of an open stream, with the state of the device. The drain of
  the control port is \<open>FlushFileBuffers\<close>.
\<close>

record 'p pipe_client =
  pipe_poll_read :: "nat \<Rightarrow> 'p \<Rightarrow> bytes io_result poll \<times> 'p"
  pipe_poll_write :: "bytes \<Rightarrow> 'p \<Rightarrow> nat io_result poll \<times> 'p"
  pipe_try_read :: "nat \<Rightarrow> 'p \<Rightarrow> bytes io_result \<times> 'p"
  pipe_try_write :: "bytes \<Rightarrow> 'p \<Rightarrow> nat io_result \<times> 'p"
  com_flush :: "'p \<Rightarrow> unit io_result \<times> 'p"
  com_control :: "'p serial_port"

definition windows_stream :: "('p, 'z) pipe_client_scheme \<Rightarrow> 'p serial_stream" where
  "windows_stream client =
     \<lparr>poll_read_io = pipe_poll_read client,
      poll_write_io = pipe_poll_write client,
      try_read = pipe_try_read client,
      try_write = pipe_try_write client,
      drain_output = com_flush client,
      control_port = com_control client\<rparr>"

locale pipe_contract =
  fixes client :: "('p, 'z) pipe_client_scheme"
  assumes pipe_reads: "pipe_poll_read client n p = (Ready (Inr bs), p') \<Longrightarrow> length bs \<le> n"
    and pipe_writes: "pipe_poll_write client xs p = (Ready (Inr k), p') \<Longrightarrow> k \<le> length xs"
    and pipe_try_reads: "pipe_try_read client n p = (Inr bs, p') \<Longrightarrow> length bs \<le> n"
    and pipe_try_writes: "pipe_try_write client xs p = (Inr k, p') \<Longrightarrow> k \<le> length xs"

sublocale pipe_contract < windows: duplex "windows_stream client"
  by unfold_locales (auto simp: windows_stream_def dest: pipe_reads pipe_writes)

context pipe_contract begin

lemma windows_bounded_stream: "bounded_stream (windows_stream client)"
  using windows.duplex_bounded_io
  by (auto simp: bounded_stream_def windows_stream_def dest: pipe_try_reads pipe_try_writes)

end

text \<open>The terminal of \<open>Unix_Stream\<close> behind a pipe.\<close>

definition tty_pipe :: "tty pipe_client" where
  "tty_pipe =
     \<lparr>pipe_poll_read = (\<lambda>n p. case tty_read n p of (None, q) \<Rightarrow> (Pending, q) | (Some r, q) \<Rightarrow> (Ready r, q)),
      pipe_poll_write = (\<lambda>xs p. case tty_write xs p of (None, q) \<Rightarrow> (Pending, q) | (Some r, q) \<Rightarrow> (Ready r, q)),
      pipe_try_read = fd_try_read tty_fd,
      pipe_try_write = fd_write tty_fd,
      com_flush = (\<lambda>p. (Inr (), p)),
      com_control = tty_port tty_fd\<rparr>"

interpretation tty_pipe: pipe_contract tty_pipe
  by unfold_locales
    (auto simp: tty_pipe_def tty_fd_def tty_read_def tty_write_def Let_def
      split: list.splits if_splits option.splits prod.splits)

subsection \<open>Opening\<close>

record comm_timeouts =
  read_interval_timeout :: u32
  read_total_timeout_multiplier :: u32
  read_total_timeout_constant :: u32
  write_total_timeout_multiplier :: u32
  write_total_timeout_constant :: u32

text \<open>
  The calls \<open>SerialStream::open\<close> makes. \<open>create_file\<close> opens for reading and writing, without
  sharing, for overlapped transfers. \<open>close_handle\<close> is the drop of a \<open>COMPort\<close> or a \<open>File\<close>;
  \<open>pipe_from_handle\<close> takes the handle over and closes it when it fails.
\<close>

record ('h, 'w) windows_calls =
  com_open :: "builder \<Rightarrow> 'w \<Rightarrow> (sp_error + 'h) \<times> 'w"
  com_name :: "'h \<Rightarrow> 'w \<Rightarrow> string option \<times> 'w"
  comm_state :: "'h \<Rightarrow> 'w \<Rightarrow> (io_error + dcb) \<times> 'w"
  create_file :: "string \<Rightarrow> 'w \<Rightarrow> (io_error + 'h) \<times> 'w"
  put_comm_state :: "'h \<Rightarrow> dcb \<Rightarrow> 'w \<Rightarrow> (io_error + unit) \<times> 'w"
  put_comm_timeouts :: "'h \<Rightarrow> comm_timeouts \<Rightarrow> 'w \<Rightarrow> (io_error + unit) \<times> 'w"
  duplicate_handle :: "'h \<Rightarrow> 'w \<Rightarrow> (io_error + 'h) \<times> 'w"
  pipe_from_handle :: "'h \<Rightarrow> 'w \<Rightarrow> (io_error + unit) \<times> 'w"
  close_handle :: "'h \<Rightarrow> 'w \<Rightarrow> 'w"
  no_device :: "string \<Rightarrow> sp_error"
  io_into_sp :: "io_error \<Rightarrow> sp_error"

record 'h windows_handles =
  io_handle :: 'h
  control_handle :: 'h

definition device_path :: "string \<Rightarrow> string" where
  "device_path name =
     (if take 1 name = [CHR 0x5C] then name else [CHR 0x5C, CHR 0x5C] @ ''.'' @ [CHR 0x5C] @ name)"

definition first_byte_timeouts :: comm_timeouts where
  "first_byte_timeouts =
     \<lparr>read_interval_timeout = 1, read_total_timeout_multiplier = 0, read_total_timeout_constant = 0,
      write_total_timeout_multiplier = 0, write_total_timeout_constant = 0\<rparr>"

text \<open>The name and settings of the port, read through a handle that is closed again.\<close>

definition probe_port ::
  "('h, 'w) windows_calls \<Rightarrow> builder \<Rightarrow> 'w \<Rightarrow> (sp_error + string \<times> dcb) \<times> 'w" where
  "probe_port calls b w =
     (case com_open calls b w of
        (Inl e, w) \<Rightarrow> (Inl e, w)
      | (Inr port, w) \<Rightarrow>
          (case com_name calls port w of
             (None, w) \<Rightarrow> (Inl (no_device calls ''Empty device name''), close_handle calls port w)
           | (Some name, w) \<Rightarrow>
               (case comm_state calls port w of
                  (Inl e, w) \<Rightarrow> (Inl (io_into_sp calls e), close_handle calls port w)
                | (Inr settings, w) \<Rightarrow> (Inr (name, settings), close_handle calls port w))))"

definition windows_open ::
  "('h, 'w) windows_calls \<Rightarrow> builder \<Rightarrow> 'w \<Rightarrow> (sp_error + 'h windows_handles) \<times> 'w" where
  "windows_open calls b w =
     (case probe_port calls b w of
        (Inl e, w) \<Rightarrow> (Inl e, w)
      | (Inr (name, settings), w) \<Rightarrow>
          (case create_file calls (device_path name) w of
             (Inl e, w) \<Rightarrow> (Inl (io_into_sp calls e), w)
           | (Inr file, w) \<Rightarrow>
               (case put_comm_state calls file settings w of
                  (Inl e, w) \<Rightarrow> (Inl (io_into_sp calls e), close_handle calls file w)
                | (Inr _, w) \<Rightarrow>
                    (case put_comm_timeouts calls file first_byte_timeouts w of
                       (Inl e, w) \<Rightarrow> (Inl (io_into_sp calls e), close_handle calls file w)
                     | (Inr _, w) \<Rightarrow>
                         (case duplicate_handle calls file w of
                            (Inl e, w) \<Rightarrow> (Inl (io_into_sp calls e), close_handle calls file w)
                          | (Inr control, w) \<Rightarrow>
                              (case pipe_from_handle calls file w of
                                 (Inl e, w) \<Rightarrow> (Inl (io_into_sp calls e), close_handle calls control w)
                               | (Inr _, w) \<Rightarrow>
                                   (Inr \<lparr>io_handle = file, control_handle = control\<rparr>, w)))))))"

subsection \<open>Handles\<close>

locale handle_table =
  fixes calls :: "('h, 'w) windows_calls" and handles :: "'w \<Rightarrow> 'h multiset"
  assumes com_Inr: "com_open calls b w = (Inr h, w') \<Longrightarrow> handles w' = add_mset h (handles w)"
    and com_Inl: "com_open calls b w = (Inl e, w') \<Longrightarrow> handles w' = handles w"
    and name_handles: "com_name calls h w = (x, w') \<Longrightarrow> handles w' = handles w"
    and state_handles: "comm_state calls h w = (s, w') \<Longrightarrow> handles w' = handles w"
    and file_Inr: "create_file calls f w = (Inr h, w') \<Longrightarrow> handles w' = add_mset h (handles w)"
    and file_Inl: "create_file calls f w = (Inl e', w') \<Longrightarrow> handles w' = handles w"
    and put_handles: "put_comm_state calls h d w = (u, w') \<Longrightarrow> handles w' = handles w"
    and timeout_handles: "put_comm_timeouts calls h t w = (u, w') \<Longrightarrow> handles w' = handles w"
    and dup_Inr: "duplicate_handle calls h w = (Inr h', w') \<Longrightarrow> handles w' = add_mset h' (handles w)"
    and dup_Inl: "duplicate_handle calls h w = (Inl e', w') \<Longrightarrow> handles w' = handles w"
    and pipe_Inr: "pipe_from_handle calls h w = (Inr v, w') \<Longrightarrow> handles w' = handles w"
    and pipe_Inl: "pipe_from_handle calls h w = (Inl e', w') \<Longrightarrow> handles w' = handles w - {#h#}"
    and close_handles: "handles (close_handle calls h w) = handles w - {#h#}"
begin

lemma probe_handles: "probe_port calls b w = (r, w') \<Longrightarrow> handles w' = handles w"
  by (auto simp: probe_port_def close_handles split: prod.splits sum.splits option.splits
      dest!: com_Inr com_Inl name_handles state_handles)

lemma windows_balance:
  assumes "windows_open calls b w = (r, w')"
  shows "handles w' = (case r of Inl _ \<Rightarrow> handles w
    | Inr s \<Rightarrow> add_mset (control_handle s) (add_mset (io_handle s) (handles w)))"
  using assms
  by (auto simp: windows_open_def close_handles split: prod.splits sum.splits
      dest!: probe_handles file_Inr file_Inl put_handles timeout_handles dup_Inr dup_Inl pipe_Inr pipe_Inl)

end

text \<open>
  A system with one device: numbered handles to it, and its settings and timeouts. The device refuses
  an exclusive opening while a handle is open.
\<close>

record com_system =
  com_handles :: "nat list"
  next_handle :: nat
  com_dcb :: dcb
  com_timeouts :: "comm_timeouts option"
  pipe_fails :: bool

definition denied :: io_error where
  "denied = io_error_new PermissionDenied ''Access is denied''"

definition com_calls :: "(nat, com_system) windows_calls" where
  "com_calls =
     \<lparr>com_open = (\<lambda>b w. (Inr (next_handle w),
        w\<lparr>com_handles := next_handle w # com_handles w, next_handle := next_handle w + 1,
          com_dcb := (com_dcb w)\<lparr>dcb_baud_rate := b_baud_rate b\<rparr>\<rparr>)),
      com_name = (\<lambda>h w. (Some ''COM3'', w)),
      comm_state = (\<lambda>h w. (Inr (com_dcb w), w)),
      create_file = (\<lambda>f w. if com_handles w = [] then (Inr (next_handle w),
          w\<lparr>com_handles := [next_handle w], next_handle := next_handle w + 1,
            com_dcb := (com_dcb w)\<lparr>dcb_baud_rate := 1200\<rparr>\<rparr>)
        else (Inl denied, w)),
      put_comm_state = (\<lambda>h d w. (Inr (), w\<lparr>com_dcb := d\<rparr>)),
      put_comm_timeouts = (\<lambda>h t w. (Inr (), w\<lparr>com_timeouts := Some t\<rparr>)),
      duplicate_handle = (\<lambda>h w. (Inr (next_handle w),
        w\<lparr>com_handles := next_handle w # com_handles w, next_handle := next_handle w + 1\<rparr>)),
      pipe_from_handle = (\<lambda>h w. if pipe_fails w then (Inl denied, w\<lparr>com_handles := remove1 h (com_handles w)\<rparr>)
        else (Inr (), w)),
      close_handle = (\<lambda>h w. w\<lparr>com_handles := remove1 h (com_handles w)\<rparr>),
      no_device = (\<lambda>m. \<lparr>description = m, into_io = io_error_new NotFound m\<rparr>),
      io_into_sp = (\<lambda>e. \<lparr>description = to_string e, into_io = e\<rparr>)\<rparr>"

interpretation com_table: handle_table com_calls "\<lambda>w. mset (com_handles w)"
  by unfold_locales (auto simp: com_calls_def split: if_splits)

definition com_new :: "bool \<Rightarrow> com_system" where
  "com_new fails =
     \<lparr>com_handles = [], next_handle = 1, com_dcb = control_block tty_new, com_timeouts = None, pipe_fails = fails\<rparr>"

text \<open>
  C26: opening on Windows never leaks a handle: when any step fails every handle it opened is closed,
  and on success exactly two remain, the one transfers use and its duplicate for control, the probing
  handle being closed.
\<close>

theorem windows_open_no_leak:
  assumes "handle_table calls handles" and "windows_open calls b w = (r, w')"
  shows "handles w' = (case r of Inl _ \<Rightarrow> handles w
    | Inr s \<Rightarrow> add_mset (control_handle s) (add_mset (io_handle s) (handles w)))"
  using assms(1,2) by (rule handle_table.windows_balance)

theorem windows_open_no_leak_witness:
  "(case windows_open com_calls plain_builder (com_new True) of
      (r, w) \<Rightarrow> r = Inl \<lparr>description = ''Access is denied'', into_io = denied\<rparr> \<and> mset (com_handles w) = {#}) \<and>
   (case windows_open com_calls plain_builder (com_new False) of
      (r, w) \<Rightarrow> r = Inr \<lparr>io_handle = 2, control_handle = 3\<rparr> \<and> mset (com_handles w) = {#2, 3#}
        \<and> dcb_baud_rate (com_dcb w) = 9600 \<and> com_timeouts w = Some first_byte_timeouts)"
proof -
  obtain r w where f: "windows_open com_calls plain_builder (com_new True) = (r, w)" by (metis prod.exhaust)
  obtain r' w' where s: "windows_open com_calls plain_builder (com_new False) = (r', w')" by (metis prod.exhaust)
  have "r = Inl \<lparr>description = ''Access is denied'', into_io = denied\<rparr>"
    "r' = Inr \<lparr>io_handle = 2, control_handle = 3\<rparr>" "dcb_baud_rate (com_dcb w') = 9600"
    "com_timeouts w' = Some first_byte_timeouts"
    using f s
    by (auto simp: windows_open_def probe_port_def com_calls_def com_new_def plain_builder_def denied_def)
  moreover have "mset (com_handles (com_new x)) = {#}" for x by (simp add: com_new_def)
  ultimately show ?thesis
    using f s windows_open_no_leak [OF com_table.handle_table_axioms f]
      windows_open_no_leak [OF com_table.handle_table_axioms s]
    by (auto simp: add_mset_commute)
qed

end
