(* ===== verification/Unit_Tests.thy ===== *)
theory Unit_Tests
  imports Transfer_Poller Listing Unix_Stream
begin

text \<open>
  The unit tests of the program, replayed on the model: each \<open>#[test]\<close> function whose subject is
  modelled is a boolean function of the same name that makes the same calls and the same
  assertions, and a lemma states that it passes. The tests of \<open>platform/unix.rs\<close> that drive a
  pseudo-terminal are in \<open>Pty_Tests\<close>.
\<close>

fun err :: "'e + 'a \<Rightarrow> 'e option" where
  "err (Inl e) = Some e"
| "err (Inr _) = None"

subsection \<open>error.rs\<close>

definition details_preserve_error_categories_and_messages :: bool where
  "details_preserve_error_categories_and_messages =
     list_all (\<lambda>(kind, expected).
         let details = error_details_from (io_error_new kind ''driver detail'') in
         details_code details = expected \<and> details_message details = ''driver detail''
         \<and> details_errno details = None)
       [(NotFound, ''ERR_SERIALPORT_NOT_FOUND''),
        (PermissionDenied, ''ERR_SERIALPORT_PERMISSION_DENIED''),
        (InvalidInput, ''ERR_SERIALPORT_INVALID_ARGUMENT''),
        (ResourceBusy, ''ERR_SERIALPORT_BUSY''),
        (TimedOut, ''ERR_SERIALPORT_TIMED_OUT''),
        (Unsupported, ''ERR_SERIALPORT_UNSUPPORTED''),
        (BrokenPipe, ''ERR_SERIALPORT_DISCONNECTED''),
        (Other, ''ERR_SERIALPORT_IO'')]"

text \<open>\<open>from_os\<close> is \<open>io::Error::from_raw_os_error\<close>.\<close>

definition details_retain_available_os_error_numbers :: "(int \<Rightarrow> io_error) \<Rightarrow> bool" where
  "details_retain_available_os_error_numbers from_os =
     (let details = error_details_from (from_os 12345) in
      details_errno details = Some 12345 \<and> details_message details \<noteq> [])"

lemma error_tests:
  "details_preserve_error_categories_and_messages"
  "(\<And>n. raw_os_error (from_os n) = Some n \<and> to_string (from_os n) \<noteq> []) \<Longrightarrow>
     details_retain_available_os_error_numbers from_os"
  by (simp_all add: details_preserve_error_categories_and_messages_def
      details_retain_available_os_error_numbers_def error_details_from_def)

subsection \<open>transfer.rs\<close>

text \<open>The port of the tests: ready at once, with the error it is told to give.\<close>

record ready_port =
  read_error :: "error_kind option"
  write_error :: "error_kind option"

definition ready_port_default :: ready_port where
  "ready_port_default = \<lparr>read_error = None, write_error = None\<rparr>"

text \<open>
  \<open>describe\<close> is the message the standard library gives a kind. \<open>put_slice\<close> panics without room;
  every buffer of the tests has one byte.
\<close>

definition ready_port_io :: "(error_kind \<Rightarrow> string) \<Rightarrow> ready_port async_io" where
  "ready_port_io describe =
     \<lparr>poll_read_io = (\<lambda>remaining port.
        (case read_error port of
           Some error \<Rightarrow> Ready (Inl (io_error_new error (describe error)))
         | None \<Rightarrow> Ready (Inr [42]), port)),
      poll_write_io = (\<lambda>bytes port.
        (case write_error port of
           Some error \<Rightarrow> Ready (Inl (io_error_new error (describe error)))
         | None \<Rightarrow> Ready (Inr (length bytes)), port))\<rparr>"

definition continuously_ready_reads_cannot_starve_writes :: "(error_kind \<Rightarrow> string) \<Rightarrow> bool" where
  "continuously_ready_reads_cannot_starve_writes describe =
     (poll_run (ready_port_io describe) transfer_poller_default ready_port_default 0
        [([0], [7]), ([0], [7]), ([0], [7]), ([0], [7])] =
      map (Ready \<circ> Inr) [Tr_Read 1, Tr_Write 1, Tr_Read 1, Tr_Write 1])"

definition absent_direction_does_not_delay_the_other :: "(error_kind \<Rightarrow> string) \<Rightarrow> bool" where
  "absent_direction_does_not_delay_the_other describe =
     (let io = ready_port_io describe;
          (first, poller, port, cx, buffer) =
            poll io transfer_poller_default ready_port_default 0 (Some [0]) None;
          (second, poller, port, cx, buffer) = poll io poller port cx buffer None;
          (third, poller, port, cx, _) = poll io poller port cx None (Some [7])
      in first = Ready (Inr (Tr_Read 1)) \<and> second = Ready (Inr (Tr_Read 1))
         \<and> third = Ready (Inr (Tr_Write 1)))"

definition interrupted_transfers_yield_and_wake_before_retrying :: "(error_kind \<Rightarrow> string) \<Rightarrow> bool" where
  "interrupted_transfers_yield_and_wake_before_retrying describe =
     list_all (\<lambda>write.
         let io = ready_port_io describe;
             rd = (\<lambda>buffer. if \<not> write then buffer else None);
             wr = (if write then Some [7] else None);
             port = \<lparr>read_error = Some Interrupted, write_error = Some Interrupted\<rparr>;
             (result, poller, port, wake, buffer) =
               poll io transfer_poller_default port 0 (rd (Some [0])) wr;
             port = port\<lparr>read_error := None, write_error := None\<rparr>;
             (retried, poller, port, cx, buffer) = poll io poller port wake (rd buffer) wr
         in result = Pending \<and> wake = 1
            \<and> retried = Ready (Inr (if write then Tr_Write 1 else Tr_Read 1))
            \<and> (\<not> write \<longrightarrow> buffer = Some [42]))
       [False, True]"

definition interruptions_do_not_starve_the_other_direction :: "(error_kind \<Rightarrow> string) \<Rightarrow> bool" where
  "interruptions_do_not_starve_the_other_direction describe =
     (let io = ready_port_io describe;
          port = ready_port_default\<lparr>read_error := Some Interrupted\<rparr>;
          (first, poller, port, cx, buffer) = poll io transfer_poller_default port 0 (Some [0]) (Some [7]);
          port = port\<lparr>read_error := None\<rparr>;
          port = port\<lparr>write_error := Some Interrupted\<rparr>;
          poller = poller\<lparr>write_first := True\<rparr>;
          (second, poller, port, cx, buffer) = poll io poller port cx buffer (Some [7])
      in first = Ready (Inr (Tr_Write 1)) \<and> second = Ready (Inr (Tr_Read 1)))"

definition permanent_errors_are_reported_without_retrying :: "(error_kind \<Rightarrow> string) \<Rightarrow> bool" where
  "permanent_errors_are_reported_without_retrying describe =
     list_all (\<lambda>kind'. list_all (\<lambda>write_first'.
         case fst (poll (ready_port_io describe) \<lparr>write_first = write_first'\<rparr>
               \<lparr>read_error = Some kind', write_error = Some kind'\<rparr> 0 (Some [0]) (Some [7])) of
           Ready (Inl error) \<Rightarrow> kind error = kind'
         | _ \<Rightarrow> False) [False, True]) [BrokenPipe, PermissionDenied]"

lemmas transfer_model =
  ready_port_io_def ready_port_default_def transfer_poller_default_def poll_def poll_read_def
  poll_write_def retry_interrupted_def fill_def Let_def

lemma transfer_tests:
  "continuously_ready_reads_cannot_starve_writes describe"
  "absent_direction_does_not_delay_the_other describe"
  "interrupted_transfers_yield_and_wake_before_retrying describe"
  "interruptions_do_not_starve_the_other_direction describe"
  "permanent_errors_are_reported_without_retrying describe"
  by (simp_all add: transfer_model continuously_ready_reads_cannot_starve_writes_def
      absent_direction_does_not_delay_the_other_def
      interrupted_transfers_yield_and_wake_before_retrying_def
      interruptions_do_not_starve_the_other_direction_def
      permanent_errors_are_reported_without_retrying_def)

subsection \<open>platform/unix.rs\<close>

definition empty_transfers_complete_without_waiting_for_readiness :: "'p tty_fd \<Rightarrow> 'p \<Rightarrow> bool" where
  "empty_transfers_complete_without_waiting_for_readiness fd port =
     (case unix_poll_read fd 0 port of
        Some (Ready (Inr _), port) \<Rightarrow>
          (case unix_poll_write fd [] port of Some (Ready (Inr n), _) \<Rightarrow> n = 0 | _ \<Rightarrow> False)
      | _ \<Rightarrow> False)"

lemma unix_tests: "empty_transfers_complete_without_waiting_for_readiness fd port"
  by (simp add: empty_transfers_complete_without_waiting_for_readiness_def unix_poll_read_def
      unix_poll_write_def)

subsection \<open>settings.rs\<close>

definition invalid_path :: native_options where
  "invalid_path =
     \<lparr>path = [CHR 0x00], baud_rate = 115200, data_bits = 8, stop_bits = F64 1, parity = ''none'',
      lock = True, rtscts = False, xon = False, xoff = False, xany = False, hupcl = True\<rparr>"

text \<open>The tests open no device, so they are replayed for every device namespace.\<close>

definition invalid_paths_and_zero_baud_are_rejected_without_device_access ::
  "target_os \<Rightarrow> 'p serial_stream \<Rightarrow> ('p, 'w) devices \<Rightarrow> 'w \<Rightarrow> bool" where
  "invalid_paths_and_zero_baud_are_rejected_without_device_access os io dev w =
     (list_all (\<lambda>path'.
         map_option kind (err (fst (settings_open os io dev (invalid_path\<lparr>path := path'\<rparr>) w)))
           = Some InvalidInput)
       [[], [CHR 0x00]] \<and>
      map_option to_string
        (err (fst (settings_open os io dev (invalid_path\<lparr>path := ''unused-device'', baud_rate := 0\<rparr>) w)))
        = Some ''Baud rate must be positive'')"

definition unsupported_stop_bits_are_rejected_before_opening ::
  "target_os \<Rightarrow> 'p serial_stream \<Rightarrow> ('p, 'w) devices \<Rightarrow> 'w \<Rightarrow> bool" where
  "unsupported_stop_bits_are_rejected_before_opening os io dev w =
     (map_option to_string
        (err (fst (settings_open os io dev (invalid_path\<lparr>stop_bits := F64 (3/2)\<rparr>) w)))
      = Some ''1.5 stop bits requires Windows'')"

definition unsupported_parity_is_rejected_before_opening ::
  "target_os \<Rightarrow> 'p serial_stream \<Rightarrow> ('p, 'w) devices \<Rightarrow> 'w \<Rightarrow> bool" where
  "unsupported_parity_is_rejected_before_opening os io dev w =
     list_all (\<lambda>parity'.
       map_option to_string
         (err (fst (settings_open os io dev (invalid_path\<lparr>parity := parity'\<rparr>) w)))
       = Some ''Mark/space parity is not available on this platform'') [''mark'', ''space'']"

definition shared_windows_access_is_rejected_before_opening ::
  "target_os \<Rightarrow> 'p serial_stream \<Rightarrow> ('p, 'w) devices \<Rightarrow> 'w \<Rightarrow> bool" where
  "shared_windows_access_is_rejected_before_opening os io dev w =
     (map_option to_string
        (err (fst (settings_open os io dev (invalid_path\<lparr>lock := False\<rparr>) w)))
      = Some ''Windows requires exclusive serial access'')"

lemmas settings_model =
  settings_open_def validate_def invalid_path_def data_bits_of_def stop_bits_of_def parity_of_def

lemma settings_tests:
  "invalid_paths_and_zero_baud_are_rejected_without_device_access os io dev w"
  "unix os \<Longrightarrow> unsupported_stop_bits_are_rejected_before_opening os io dev w"
  "unix os \<Longrightarrow> os \<noteq> Linux \<Longrightarrow> os \<noteq> Android \<Longrightarrow>
     unsupported_parity_is_rejected_before_opening os io dev w"
  "shared_windows_access_is_rejected_before_opening Windows io dev w"
  by (simp_all add: settings_model invalid_paths_and_zero_baud_are_rejected_without_device_access_def
      unsupported_stop_bits_are_rejected_before_opening_def
      unsupported_parity_is_rejected_before_opening_def
      shared_windows_access_is_rejected_before_opening_def)

text \<open>
  What the next test asks the kernel about a port beside its attributes: whether \<open>O_NONBLOCK\<close> and
  \<open>FD_CLOEXEC\<close> are set, whether \<open>ICANON\<close> or \<open>ECHO\<close> is, and the characters \<open>VMIN\<close> and \<open>VTIME\<close>.
\<close>

record 'p probes =
  nonblocking :: "'p \<Rightarrow> bool"
  close_on_exec :: "'p \<Rightarrow> bool"
  canonical_or_echo :: "'p \<Rightarrow> bool"
  vmin :: "'p \<Rightarrow> nat"
  vtime :: "'p \<Rightarrow> nat"

fun baud_updates_preserve ::
  "target_os \<Rightarrow> 'p serial_stream \<Rightarrow> 'p probes \<Rightarrow> native_options \<Rightarrow> u32 list \<Rightarrow> 'p \<Rightarrow> bool" where
  "baud_updates_preserve os io probes opts [] port = True"
| "baud_updates_preserve os io probes opts (baud # bauds) port =
     (case set_baud_rate os io baud port of
        (Inl _, _) \<Rightarrow> False
      | (Inr _, port) \<Rightarrow>
          (case get_baud_rate os io port of
             (Inl _, _) \<Rightarrow> False
           | (Inr rate, port) \<Rightarrow> rate = baud \<and>
               (case tcgetattr (control_port io) port of
                  (Inl _, _) \<Rightarrow> False
                | (Inr settings, port) \<Rightarrow>
                    (IXON \<in> input_flags settings) = xon opts
                    \<and> (IXOFF \<in> input_flags settings) = xoff opts
                    \<and> (IXANY \<in> input_flags settings) = xany opts
                    \<and> (HUPCL \<in> control_flags settings) = hupcl opts
                    \<and> \<not> canonical_or_echo probes port \<and> vmin probes port = 1 \<and> vtime probes port = 0
                    \<and> baud_updates_preserve os io probes opts bauds port)))"

fun open_rounds ::
  "target_os \<Rightarrow> 'p serial_stream \<Rightarrow> ('p, 'w) devices \<Rightarrow> 'p probes \<Rightarrow> string
     \<Rightarrow> (bool \<times> bool \<times> bool \<times> bool) list \<Rightarrow> 'w \<Rightarrow> bool" where
  "open_rounds os io dev probes name [] w = True"
| "open_rounds os io dev probes name ((xon', xoff', xany', hupcl') # rounds) w =
     (let options = invalid_path\<lparr>path := name, lock := False, xon := xon', xoff := xoff',
                                 xany := xany', hupcl := hupcl'\<rparr> in
      case settings_open os io dev options w of
        (Inl _, _) \<Rightarrow> False
      | (Inr port, w) \<Rightarrow>
          (case set_baud_rate os io 0 port of
             (Inr _, _) \<Rightarrow> False
           | (Inl error, port) \<Rightarrow> kind error = InvalidInput \<and>
               (case get_baud_rate os io port of
                  (Inl _, _) \<Rightarrow> False
                | (Inr rate, port) \<Rightarrow> rate = 115200
                    \<and> nonblocking probes port \<and> close_on_exec probes port
                    \<and> baud_updates_preserve os io probes options [115200, 57600] port
                    \<and> open_rounds os io dev probes name rounds w)))"

definition asynchronous_open_and_baud_updates_preserve_line_settings ::
  "target_os \<Rightarrow> 'p serial_stream \<Rightarrow> ('p, 'w) devices \<Rightarrow> 'p probes \<Rightarrow> string \<Rightarrow> 'w \<Rightarrow> bool" where
  "asynchronous_open_and_baud_updates_preserve_line_settings os io dev probes name w =
     open_rounds os io dev probes name
       [(False, False, False, False), (True, False, True, True), (False, True, False, True),
        (True, True, True, False)] w"

text \<open>On terminals opened raw, nonblocking and closed on exec; they keep that whatever is set.\<close>

definition raw_probes :: "tty probes" where
  "raw_probes = \<lparr>nonblocking = (\<lambda>_. True), close_on_exec = (\<lambda>_. True), canonical_or_echo = (\<lambda>_. False),
                 vmin = (\<lambda>_. 1), vtime = (\<lambda>_. 0)\<rparr>"

lemma set_speed_tty:
  assumes "speed p \<noteq> 0"
  shows "n \<noteq> 0 \<Longrightarrow> set_baud_rate os (unix_stream tty_fd) n p = (Inr (), p\<lparr>speed := n\<rparr>)"
    "set_baud_rate os (unix_stream tty_fd) 0 p = (Inl (invalid ''Baud rate must be positive''), p)"
    "get_baud_rate os (unix_stream tty_fd) p = (Inr (speed p), p)"
    "tcgetattr (tty_port tty_fd) p = (Inr (attributes p), p)"
  using assms by (simp_all add: set_baud_rate_def get_baud_rate_def tty_fd_def)

lemma open_tty:
  assumes "unix os" and "validate os opts = Inr b" and "open_stream dev b w = (Inr p, w')"
    and "speed p \<noteq> 0" and "baud_rate opts \<noteq> 0"
  shows "settings_open os (unix_stream tty_fd) dev opts w =
    (Inr (p\<lparr>attributes := unix_settings os opts (attributes p), speed := baud_rate opts\<rparr>), w')"
proof -
  have "configure_unix os (unix_stream tty_fd) opts p
      = (Inr (), p\<lparr>attributes := unix_settings os opts (attributes p)\<rparr>)"
    by (simp add: configure_unix_def tty_fd_def)
  with assms show ?thesis
    by (cases os) (simp_all add: settings_open_def platform_open_def configure_def set_speed_tty)
qed

lemma baud_updates_tty:
  assumes "\<And>b. b \<in> set bauds \<Longrightarrow> b \<noteq> 0" and "speed p \<noteq> 0"
    and "attributes p = unix_settings os opts a"
  shows "baud_updates_preserve os (unix_stream tty_fd) raw_probes opts bauds p"
  using assms
proof (induction bauds arbitrary: p)
  case (Cons b bauds)
  then have "b \<noteq> 0" by simp
  moreover have "(IXON \<in> input_flags (unix_settings os opts a)) = xon opts"
    "(IXOFF \<in> input_flags (unix_settings os opts a)) = xoff opts"
    "(IXANY \<in> input_flags (unix_settings os opts a)) = xany opts"
    "(HUPCL \<in> control_flags (unix_settings os opts a)) = hupcl opts"
    by (auto simp: unix_settings_def Let_def)
  ultimately show ?case
    using Cons by (simp add: set_speed_tty raw_probes_def)
qed simp

lemma open_rounds_tty:
  assumes "unix os" and "name \<noteq> []" and "CHR 0x00 \<notin> set name"
    and dev: "\<And>b w. \<exists>p w'. open_stream dev b w = (Inr p, w') \<and> speed p \<noteq> 0"
  shows "open_rounds os (unix_stream tty_fd) dev raw_probes name rounds w"
proof (induction rounds arbitrary: w)
  case (Cons c rounds)
  obtain i j k l where c: "c = (i, j, k, l)" by (metis prod_cases4)
  define opts where "opts = invalid_path\<lparr>path := name, lock := False, xon := i, xoff := j, xany := k, hupcl := l\<rparr>"
  have baud: "baud_rate opts = 115200" by (simp add: opts_def invalid_path_def)
  have "\<exists>b. validate os opts = Inr b"
    using assms(1-3) by (cases os) (simp_all add: opts_def settings_model)
  then obtain b where v: "validate os opts = Inr b" ..
  obtain p w' where p: "open_stream dev b w = (Inr p, w')" "speed p \<noteq> 0" using dev by blast
  define q where "q = p\<lparr>attributes := unix_settings os opts (attributes p), speed := 115200\<rparr>"
  have opened: "settings_open os (unix_stream tty_fd) dev opts w = (Inr q, w')"
    using open_tty [OF assms(1) v p] baud by (simp add: q_def)
  have q: "speed q = 115200" "speed q \<noteq> 0" "attributes q = unix_settings os opts (attributes p)"
    by (simp_all add: q_def)
  have "baud_updates_preserve os (unix_stream tty_fd) raw_probes opts [115200, 57600] q"
    using q by (intro baud_updates_tty [where a = "attributes p"]) auto
  with Cons.IH [of w'] opened q show ?case
    unfolding c open_rounds.simps opts_def [symmetric] Let_def
    by (simp add: set_speed_tty raw_probes_def)
qed simp

lemma line_settings_test:
  assumes "unix os" and "name \<noteq> []" and "CHR 0x00 \<notin> set name"
    and "\<And>b w. \<exists>p w'. open_stream dev b w = (Inr p, w') \<and> speed p \<noteq> 0"
  shows "asynchronous_open_and_baud_updates_preserve_line_settings os (unix_stream tty_fd) dev raw_probes name w"
  unfolding asynchronous_open_and_baud_updates_preserve_line_settings_def
  using assms by (rule open_rounds_tty)

subsection \<open>platform/macos\_list.rs\<close>

definition locations_match_serialports_eight_digit_hex_format :: bool where
  "locations_match_serialports_eight_digit_hex_format =
     list_all (\<lambda>(bus, ports, expected). format_location bus ports = Some expected)
       [(''20'', [3, 2], ''14320000''),
        (''1'', [2], ''01200000''),
        (''18'', [0, 3], ''12030000''),
        (''255'', [15, 15, 15, 15, 15, 15], ''ffffffff''),
        (''0'', [], ''00000000'')]"

definition invalid_locations_are_unavailable_instead_of_truncated :: bool where
  "invalid_locations_are_unavailable_instead_of_truncated =
     list_all (\<lambda>(bus, ports). format_location bus ports = None)
       [(''256'', [1]), (''not a bus'', [1]), (''1'', [16]), (''1'', [1, 2, 3, 4, 5, 6, 7])]"

text \<open>\<open>from_location_id\<close> is the decoding of the \<open>serialport\<close> crate.\<close>

definition iokit_location_decoding_round_trips_through_the_dependency ::
  "(u32 \<Rightarrow> string \<times> u8 list) \<Rightarrow> bool" where
  "iokit_location_decoding_round_trips_through_the_dependency from_location_id =
     list_all (\<lambda>n. let location = from_location_id n in
         location_id_of location = Some (hex_format 8 (unat n)))
       [0, 0x01200000, 0x12030000, 0x14320000, 0xFFFFFFFF]"

lemma iokit_test:
  "from_location_id = (\<lambda>n. (location_bus n, location_chain n)) \<Longrightarrow>
     iokit_location_decoding_round_trips_through_the_dependency from_location_id"
  by (simp add: iokit_location_decoding_round_trips_through_the_dependency_def location_id_of_def
      format_location_decoded Let_def list_all_iff del: One_nat_def)

lemma hex_format_8:
  "hex_format 8 n = map (\<lambda>d. hex_digit (n div d mod 16))
     [268435456, 16777216, 1048576, 65536, 4096, 256, 16, 1]"
  by (simp add: hex_format_def upt_rec)

lemmas location_model = format_location_def parse_u8_def hex_format_8

lemma location_tests:
  "locations_match_serialports_eight_digit_hex_format"
  "invalid_locations_are_unavailable_instead_of_truncated"
  by (simp_all add: location_model locations_match_serialports_eight_digit_hex_format_def
      invalid_locations_are_unavailable_instead_of_truncated_def)
    (simp add: hex_digit_def char_of_def bit_0)

subsection \<open>platform/windows\_list.rs\<close>

text \<open>A raw string with backslashes, from the parts between them.\<close>

fun raw :: "string list \<Rightarrow> string" where
  "raw [] = []"
| "raw [s] = s"
| "raw (s # ss) = s @ backslash # raw ss"

definition ch340_matches_serialport_metadata_without_truncating_the_instance :: bool where
  "ch340_matches_serialport_metadata_without_truncating_the_instance =
     (let port = port_info_default\<lparr>port_path := ''COM14'', serial_number := Some ''7''\<rparr>;
          port = metadata_apply
            (metadata_default
              \<lparr>md_pnp_id := Some (raw [''USB'', ''VID_1A86&PID_7523'', ''7&33129A7&1&3'']),
               md_manufacturer := Some ''wch.cn'',
               md_location_id := Some ''Port_#0003.Hub_#0006'',
               md_friendly_name := Some ''USB-SERIAL CH340 (COM14)''\<rparr>) port
      in port_path port = ''COM14''
         \<and> pnp_id port = Some (raw [''USB'', ''VID_1A86&PID_7523'', ''7&33129A7&1&3''])
         \<and> serial_number port = Some ''7&33129A7&1&3''
         \<and> vendor_id port = Some ''1A86'' \<and> product_id port = Some ''7523''
         \<and> manufacturer port = Some ''wch.cn''
         \<and> location_id port = Some ''Port_#0003.Hub_#0006''
         \<and> friendly_name port = Some ''USB-SERIAL CH340 (COM14)'')"

definition composite_and_ftdi_ports_use_only_a_matching_usb_parent :: bool where
  "composite_and_ftdi_ports_use_only_a_matching_usb_parent =
     list_all (\<lambda>(id, parent, expected).
         serial_number (metadata_apply
           (metadata_default\<lparr>md_pnp_id := Some id, md_parent_id := parent\<rparr>) port_info_default)
         = Some expected)
       [(raw [''USB'', ''VID_1D50&PID_6018&MI_02'', ''6&A694CA9&0&0002''],
         Some (raw [''USB'', ''VID_1D50&PID_6018'', ''serial-123'']), ''serial-123''),
        (raw [''USB'', ''VID_1D50&PID_6018&MI_02'', ''6&A694CA9&0&0002''],
         Some (raw [''USB'', ''VID_1234&PID_0001'', ''hub-serial'']), ''6&A694CA9&0&0002''),
        (raw [''USB'', ''VID_1D50&PID_6018&MI_02'', ''6&A694CA9&0&0002''], None, ''6&A694CA9&0&0002''),
        (raw [''FTDIBUS'', ''VID_0403+PID_6001+A702TB52A'', ''0000''],
         Some (raw [''USB'', ''VID_0403&PID_6001'', ''A702TB52'']), ''A702TB52''),
        (raw [''FTDIBUS'', ''VID_0403+PID_6001+A702TB52A'', ''0000''], None, ''A702TB52'')]"

definition bluetooth_ports_keep_non_usb_metadata_and_missing_properties_keep_fallbacks :: bool where
  "bluetooth_ports_keep_non_usb_metadata_and_missing_properties_keep_fallbacks =
     (let port = metadata_apply
            (metadata_default
              \<lparr>md_pnp_id := Some (raw [''BTHENUM'', ''{00001101-0000-1000-8000-00805f9b34fb}'', ''device'']),
               md_manufacturer := Some ''Microsoft'',
               md_friendly_name := Some ''Standard Serial over Bluetooth link (COM8)''\<rparr>)
            port_info_default;
          after = metadata_apply metadata_default port
      in map_option (take 8) (pnp_id port) = Some (raw [''BTHENUM'', []])
         \<and> manufacturer port = Some ''Microsoft'' \<and> friendly_name port \<noteq> None
         \<and> vendor_id port = None \<and> product_id port = None \<and> serial_number port = None
         \<and> location_id port = None
         \<and> manufacturer after = Some ''Microsoft'' \<and> pnp_id after \<noteq> None
         \<and> friendly_name after \<noteq> None)"

text \<open>The last identifier has an accented letter and an emoji, six bytes of UTF-8, for its vendor.\<close>

definition malformed_or_non_usb_identifiers_do_not_invent_usb_fields :: bool where
  "malformed_or_non_usb_identifiers_do_not_invent_usb_fields =
     list_all (\<lambda>id. Option.is_none (usb_identity_of id))
       [[], ''USB'',
        raw [''USB'', ''VID_12&PID_3456'', ''id''],
        raw [''USB'', ''VID_1234&PID_ZZZZ'', ''id''],
        raw [''USB'', ''VID_1234&PID_3456'', []],
        raw [''USB'', ''VID_1234&PID_3456'', ''id'', ''extra''],
        raw [''ACPI'', ''PNP0501'', ''0''],
        raw [''USB'', ''VID_'' @ concat (map utf8_char [0xE9, 0x1F4BB]) @ ''&PID_3456'', ''id'']]"

lemma accent_and_emoji:
  "utf8_char 0xE9 = [CHR 0xC3, CHR 0xA9]" "utf8_char 0x1F4BB = [CHR 0xF0, CHR 0x9F, CHR 0x92, CHR 0xBB]"
  by (simp_all add: utf8_char_def char_of_def bit_0)

lemmas metadata_model =
  metadata_apply_def metadata_default_def port_info_default_def uppercase_ids_def or_else_def
  serial_of_def usb_identity_of_def ftdi_serial_def four_hex_def is_ascii_hexdigit_def
  eq_ignore_ascii_case_def ascii_lower_def ascii_upper_def strip_prefix_def strip_suffix_def Let_def

lemma metadata_tests:
  "ch340_matches_serialport_metadata_without_truncating_the_instance"
  "composite_and_ftdi_ports_use_only_a_matching_usb_parent"
  "bluetooth_ports_keep_non_usb_metadata_and_missing_properties_keep_fallbacks"
  "malformed_or_non_usb_identifiers_do_not_invent_usb_fields"
  by (simp_all add: metadata_model accent_and_emoji
      ch340_matches_serialport_metadata_without_truncating_the_instance_def
      composite_and_ftdi_ports_use_only_a_matching_usb_parent_def
      bluetooth_ports_keep_non_usb_metadata_and_missing_properties_keep_fallbacks_def
      malformed_or_non_usb_identifiers_do_not_invent_usb_fields_def del: metadata_apply_sel)

text \<open>
  The closures that stand for a query. The state records whether \<open>copy_from_slice\<close> was given slices
  of different lengths, which panics.
\<close>

definition copying_query :: "u16 list \<Rightarrow> bool query" where
  "copying_query data buffer _ _ panicked =
     (let kind' = 1; size' = word_of_nat (length data * 2) in
      if buffer = [] then ((False, buffer, kind', size'), panicked)
      else if length buffer = length data then ((True, data, kind', size'), panicked)
      else ((True, buffer, kind', size'), True))"

definition registry_strings_support_long_unicode_names_and_byte_sized_lengths :: bool where
  "registry_strings_support_long_unicode_names_and_byte_sized_lengths =
     (let name = map of_char (concat (replicate 40 ''Serial adapter'')) @ [32, 0x4E32, 0x53E3, 32, 0x1F980];
          expected = concat (map utf8_char name);
          data = encode_utf16 name @ [0];
          (result, panicked) = registry_string (copying_query data) False
      in result = Some expected \<and> \<not> panicked
         \<and> wide_string [65, 0, 66] = Some ''A'' \<and> wide_string [65] = Some ''A''
         \<and> wide_string [0] = None)"

definition unreadable_or_malformed_registry_properties_are_optional :: bool where
  "unreadable_or_malformed_registry_properties_are_optional =
     (list_all (\<lambda>(kind', size', readable).
          fst (registry_string (\<lambda>buffer _ _ w. ((readable, buffer, kind', size'), w)) ()) = None)
        [(1, 0, True), (1, 3, True), (1, 65538, True), (7, 4, True), (1, 4, False)]
      \<and> fst (registry_string
               (\<lambda>buffer _ _ w. ((True, buffer, 1, if buffer = [] then 4 else 8), w)) ()) = None)"

lemma malformed_property_test: "unreadable_or_malformed_registry_properties_are_optional"
  by (simp add: unreadable_or_malformed_registry_properties_are_optional_def registry_string_def
      slice_to_def)

lemma copied_registry_string:
  assumes "data \<noteq> []" and "length data \<le> 32768"
  shows "registry_string (copying_query data) p = (wide_string data, p)"
proof -
  let ?size = "word_of_nat (length data * 2) :: u32"
  have u: "unat ?size = length data * 2"
    using assms(2) by (simp add: unat_of_nat del: of_nat_mult of_nat_numeral)
  have "?size mod 2 = 0"
    by (simp add: word_unat_eq_iff unat_mod u del: of_nat_mult of_nat_numeral)
  moreover have "?size \<noteq> 0" using u assms(1) by (metis length_0_conv mult_is_0 unat_0 zero_neq_numeral)
  moreover have "\<not> 64 * 1024 < ?size"
    using assms(2) by (simp add: word_less_nat_alt u del: of_nat_mult of_nat_numeral)
  ultimately show ?thesis using assms
    by (simp add: registry_string_def copying_query_def u slice_to_def Let_def
        del: of_nat_mult of_nat_numeral)
qed

lemma length_encode_utf16: "length (encode_utf16 ns) \<le> 2 * length ns"
  by (induction ns) (auto simp: encode_utf16_def)

lemma copied_name:
  assumes scalars: "\<forall>n \<in> set ns. scalar n \<and> n \<noteq> 0" and "ns \<noteq> []" and "length ns < 16384"
  shows "registry_string (copying_query (encode_utf16 ns @ [0])) p = (Some (concat (map utf8_char ns)), p)"
proof -
  have "encode_utf16 ns \<noteq> []" using assms(2) by (cases ns) (auto simp: encode_utf16_def)
  then have "wide_string (encode_utf16 ns @ [0]) = Some (from_utf16_lossy (encode_utf16 ns))"
    by (intro wide_string_terminated encode_utf16_zero scalars)
  moreover have "from_utf16_lossy (encode_utf16 ns) = concat (map utf8_char ns)"
    using scalars by (simp add: from_utf16_lossy_def decode_encode_utf16)
  ultimately show ?thesis
    using copied_registry_string [of "encode_utf16 ns @ [0]" p] length_encode_utf16 [of ns] assms(3) by simp
qed

lemma long_name_test: "registry_strings_support_long_unicode_names_and_byte_sized_lengths"
proof -
  define letters where "letters = concat (replicate 40 ''Serial adapter'')"
  let ?name = "map of_char letters @ [32, 0x4E32, 0x53E3, 32, 0x1F980 :: nat]"
  have "set letters = set ''Serial adapter''" by (auto simp: letters_def)
  then have "\<forall>n \<in> set ?name. scalar n \<and> n \<noteq> 0" by (simp add: scalar_def)
  moreover have "length letters = 560" by (simp add: letters_def length_concat sum_list_replicate)
  ultimately have "registry_string (copying_query (encode_utf16 ?name @ [0])) False =
      (Some (concat (map utf8_char ?name)), False)"
    by (intro copied_name) simp_all
  moreover have "wide_string [65, 0, 66] = Some ''A''" "wide_string [65] = Some ''A''" "wide_string [0] = None"
    by (simp_all add: wide_string_def from_utf16_lossy_def utf8_char_def char_of_def bit_0)
  ultimately show ?thesis
    unfolding registry_strings_support_long_unicode_names_and_byte_sized_lengths_def Let_def letters_def [symmetric]
    by (simp only: prod.case) simp
qed

end
