(* ===== verification/Pty_Tests.thy ===== *)
theory Pty_Tests
  imports Events Unix_Stream Transfer_Poller "HOL-Library.Monad_Syntax"
begin

text \<open>
  The unit tests of \<open>platform/unix.rs\<close> that drive a pseudo-terminal, as programs over the stream
  and the operations of the master end: \<open>None\<close> is a failed assertion, an \<open>unwrap\<close> of an error or a
  wait that nothing ends. They pass on every pseudo-terminal that keeps the contract \<open>pty_pair\<close>;
  the test that writes needs the part \<open>pty_writing\<close> of it, and where a signal interrupts the
  blocked writer, whose result the test unwraps, it ends with that error as its result.
\<close>

subsection \<open>The test harness\<close>

text \<open>
  Both ends of a pseudo-terminal. \<open>master_read\<close> is one of the reads of \<open>read_exact\<close>.
\<close>

record 'p pty =
  slave :: "'p tty_fd"
  master_write_all :: "bytes \<Rightarrow> 'p \<Rightarrow> unit io_result \<times> 'p"
  master_read :: "nat \<Rightarrow> 'p \<Rightarrow> bytes \<times> 'p"
  drop_master :: "'p \<Rightarrow> 'p"

definition check :: "bool \<Rightarrow> unit option" where
  "check b = (if b then Some () else None)"

text \<open>
  A task spawned beside a test runs when the test waits. The runtime has one thread, and its I/O
  driver runs before each poll.
\<close>

type_synonym 'p task = "'p \<Rightarrow> 'p option"

definition write_task :: "('p, 'z) pty_scheme \<Rightarrow> bytes \<Rightarrow> 'p task" where
  "write_task pty xs p = (case master_write_all pty xs p of (Inl e, _) \<Rightarrow> None | (Inr _, p) \<Rightarrow> Some p)"

fun join_tasks :: "'p task list \<Rightarrow> 'p \<Rightarrow> 'p option" where
  "join_tasks [] p = Some p"
| "join_tasks (t # ts) p = do { p \<leftarrow> t p; join_tasks ts p }"

text \<open>\<open>read\<close>: it waits for the tasks that are left, and times out when none is.\<close>

fun await_read ::
  "'p tty_fd \<Rightarrow> 'p task list \<Rightarrow> nat \<Rightarrow> 'p \<Rightarrow> (bytes io_result \<times> 'p task list \<times> 'p) option" where
  "await_read fd [] n p =
     (case unix_poll_read fd n p of Some (Ready r, p) \<Rightarrow> Some (r, [], p) | _ \<Rightarrow> None)"
| "await_read fd (t # ts) n p =
     (case unix_poll_read fd n p of
        Some (Ready r, p) \<Rightarrow> Some (r, t # ts, p)
      | Some (Pending, p) \<Rightarrow> do { p \<leftarrow> t p; await_read fd ts n p }
      | None \<Rightarrow> None)"

text \<open>The loops that read until \<open>n\<close> bytes have arrived.\<close>

function receive ::
  "'p tty_fd \<Rightarrow> 'p task list \<Rightarrow> nat \<Rightarrow> 'p \<Rightarrow> (bytes \<times> 'p task list \<times> 'p) option" where
  "receive fd ts n p =
     (if n = 0 then Some ([], ts, p)
      else case await_read fd ts n p of
        Some (Inr bs, ts, p) \<Rightarrow>
          if bs = [] then None
          else do { (rest, ts, p) \<leftarrow> receive fd ts (n - length bs) p; Some (bs @ rest, ts, p) }
      | _ \<Rightarrow> None)"
  by pat_completeness auto
termination
  by (relation "measure (\<lambda>(fd, ts, n, p). n)") auto

declare receive.simps [simp del]

text \<open>\<open>port.try_read(..).unwrap_err().kind() == WouldBlock\<close>\<close>

definition expect_would_block :: "'p tty_fd \<Rightarrow> nat \<Rightarrow> 'p \<Rightarrow> 'p option" where
  "expect_would_block fd n p =
     (case unix_try_read fd n p of
        (Inr _, _) \<Rightarrow> None
      | (Inl e, p) \<Rightarrow> do { check (kind e = WouldBlock); Some p })"

subsection \<open>The tests\<close>

fun burst_rounds :: "('p, 'z) pty_scheme \<Rightarrow> bytes list \<Rightarrow> 'p \<Rightarrow> 'p option" where
  "burst_rounds pty [] p = Some p"
| "burst_rounds pty (expected # es) p =
     do {
       (received, ts, p) \<leftarrow> receive (slave pty) [write_task pty expected] (length expected) p;
       check (received = expected);
       p \<leftarrow> join_tasks ts p;
       p \<leftarrow> expect_would_block (slave pty) 8 p;
       burst_rounds pty es p
     }"

definition drained_bursts_rearm_and_wake_on_new_input :: "('p, 'z) pty_scheme \<Rightarrow> 'p \<Rightarrow> unit option" where
  "drained_bursts_rearm_and_wake_on_new_input pty p =
     do {
       p \<leftarrow> expect_would_block (slave pty) 8 p;
       burst_rounds pty [map of_char ''first'', map of_char ''next'', map of_char ''last''] p;
       Some ()
     }"

definition peer_disconnect_completes_the_pending_read :: "('p, 'z) pty_scheme \<Rightarrow> 'p \<Rightarrow> unit option" where
  "peer_disconnect_completes_the_pending_read pty p =
     do {
       (r, ts, p) \<leftarrow> await_read (slave pty) [\<lambda>p. Some (drop_master pty p)] 8 p;
       check (case r of Inr bs \<Rightarrow> length bs = 0 | Inl e \<Rightarrow> kind e \<noteq> WouldBlock);
       join_tasks ts p;
       Some ()
     }"

text \<open>A poll gives the caller the bytes it has read, so the buffer of a pending one stays as it was.\<close>

definition cancelled_read_does_not_retain_the_old_buffer :: "('p, 'z) pty_scheme \<Rightarrow> 'p \<Rightarrow> unit option" where
  "cancelled_read_does_not_retain_the_old_buffer pty p =
     do {
       let cancelled = replicate 8 (0xA5 :: u8);
       (pending, p) \<leftarrow> unix_poll_read (slave pty) 8 p;
       let cancelled = (case pending of Ready (Inr bs) \<Rightarrow> fill bs cancelled | _ \<Rightarrow> cancelled);
       check (pending = Pending);
       let expected = map of_char ''new read'';
       p \<leftarrow> write_task pty expected p;
       (received, _, p) \<leftarrow> receive (slave pty) [] 8 p;
       check (received = expected);
       check (cancelled = replicate 8 (0xA5 :: u8))
     }"

text \<open>Filling the terminal until it blocks: the offset reached.\<close>

partial_function (option) fill_terminal ::
  "'p tty_fd \<Rightarrow> bytes \<Rightarrow> nat \<Rightarrow> 'p \<Rightarrow> (nat \<times> 'p) option" where
  "fill_terminal fd expected offset p =
     (case unix_try_write fd (drop offset expected) p of
        (Inr k, p) \<Rightarrow>
          if k \<noteq> 0 \<and> offset + k < length expected then fill_terminal fd expected (offset + k) p
          else None
      | (Inl e, p) \<Rightarrow>
          if kind e = WouldBlock then Some (offset, p)
          else if kind e = Interrupted then fill_terminal fd expected offset p
          else None)"

text \<open>
  The writer: when it first waits it resumes the peer, which from then on reads whenever the writer
  waits. Whether the peer was resumed and what it has received are returned, or the error of a write
  that is unwrapped.
\<close>

partial_function (option) write_blocked ::
  "('p, 'z) pty_scheme \<Rightarrow> bytes \<Rightarrow> nat \<Rightarrow> bool \<Rightarrow> bytes \<Rightarrow> 'p \<Rightarrow> (bool \<times> bytes \<times> 'p) io_result option" where
  "write_blocked pty expected offset resumed received p =
     (if offset < length expected then
        (case unix_poll_write (slave pty) (drop offset expected) p of
           Some (Pending, p) \<Rightarrow>
             (case master_read pty (length expected - length received) p of
                (bs, p) \<Rightarrow> write_blocked pty expected offset True (received @ bs) p)
         | Some (Ready (Inr k), p) \<Rightarrow>
             if k \<noteq> 0 then write_blocked pty expected (offset + k) resumed received p else None
         | Some (Ready (Inl e), p) \<Rightarrow> Some (Inl e)
         | None \<Rightarrow> None)
      else Some (Inr (resumed, received, p)))"

text \<open>The rest of \<open>read_exact\<close>, which fails at the end of the file.\<close>

partial_function (option) read_rest ::
  "('p, 'z) pty_scheme \<Rightarrow> nat \<Rightarrow> bytes \<Rightarrow> 'p \<Rightarrow> (bytes \<times> 'p) option" where
  "read_rest pty n received p =
     (if length received < n then
        (case master_read pty (n - length received) p of
           (bs, p) \<Rightarrow> if bs = [] then None else read_rest pty n (received @ bs) p)
      else Some (received, p))"

definition blocked_writer_preserves ::
  "('p, 'z) pty_scheme \<Rightarrow> bytes \<Rightarrow> 'p \<Rightarrow> unit io_result option" where
  "blocked_writer_preserves pty expected p =
     do {
       (offset, p) \<leftarrow> fill_terminal (slave pty) expected 0 p;
       written \<leftarrow> write_blocked pty expected offset False [] p;
       (case written of
          Inl e \<Rightarrow> Some (Inl e)
        | Inr (resumed, received, p) \<Rightarrow>
            do {
              check resumed;
              (received, p) \<leftarrow> read_rest pty (length expected) received p;
              check (received = expected);
              Some (Inr ())
            })
     }"

definition blocked_writer_wakes_and_preserves_partial_writes ::
  "('p, 'z) pty_scheme \<Rightarrow> 'p \<Rightarrow> unit io_result option" where
  "blocked_writer_wakes_and_preserves_partial_writes pty p =
     blocked_writer_preserves pty
       (map (\<lambda>i. of_nat (i * 37 + 11)) [0..<4 * CHUNK_SIZE]) p"

subsection \<open>What a pseudo-terminal promises\<close>

text \<open>
  The direction from the slave to the master: \<open>outgoing\<close> are the bytes the slave has written and
  the master has not read, of which \<open>room\<close> more fit; \<open>alive\<close> says that both ends are open. The
  poll for writing is pending only if there is something the other end can read, because the I/O
  driver has run. Any write can be interrupted: \<open>interruptions\<close> bounds the signals still to come.
\<close>

locale pty_writing = async_fd "slave pty" read_events write_events signals
  for pty :: "('p, 'z) pty_scheme" and read_events write_events signals +
  fixes alive :: "'p \<Rightarrow> bool" and outgoing :: "'p \<Rightarrow> bytes" and room interruptions :: "'p \<Rightarrow> nat"
  assumes write_ready:
      "alive p \<Longrightarrow> poll_write_ready (slave pty) p = (r, q) \<Longrightarrow>
         alive q \<and> outgoing q = outgoing p \<and> room q = room p \<and> interruptions q \<le> interruptions p
         \<and> (r = Pending \<longrightarrow> outgoing p \<noteq> []) \<and> (\<forall>e. r \<noteq> Ready (Inl e))"
    and write_some:
      "alive p \<Longrightarrow> xs \<noteq> [] \<Longrightarrow> guarded_write (slave pty) xs p = (h, q) \<Longrightarrow>
         alive q \<and> interruptions q \<le> interruptions p
         \<and> (case h of None \<Rightarrow> outgoing q = outgoing p \<and> room q = room p
             | Some (Inr k) \<Rightarrow> 0 < k \<and> outgoing q = outgoing p @ take k xs \<and> room p = room q + k
             | Some (Inl e) \<Rightarrow> kind e = Interrupted \<and> interruptions q < interruptions p
                 \<and> outgoing q = outgoing p \<and> room q = room p)"
    and try_write_some:
      "alive p \<Longrightarrow> xs \<noteq> [] \<Longrightarrow> fd_write (slave pty) xs p = (w, q) \<Longrightarrow>
         alive q \<and> interruptions q \<le> interruptions p
         \<and> (case w of
               Inr k \<Rightarrow> 0 < k \<and> outgoing q = outgoing p @ take k xs \<and> room p = room q + k
             | Inl e \<Rightarrow> outgoing q = outgoing p \<and> room q = room p
                 \<and> (kind e = WouldBlock \<and> room p = 0 \<or> kind e = Interrupted \<and> interruptions q < interruptions p))"
    and master_reads:
      "alive p \<Longrightarrow> 0 < n \<Longrightarrow> master_read pty n p = (bs, q) \<Longrightarrow>
         alive q \<and> outgoing p = bs @ outgoing q \<and> length bs \<le> n
         \<and> (outgoing p \<noteq> [] \<longrightarrow> bs \<noteq> []) \<and> interruptions q \<le> interruptions p"
begin

lemma poll_write_view:
  assumes "alive p" and "xs \<noteq> []"
  shows "\<exists>r q. unix_poll_write (slave pty) xs p = Some (r, q) \<and> alive q \<and> interruptions q \<le> interruptions p
    \<and> (r = Pending \<and> outgoing p \<noteq> [] \<and> outgoing q = outgoing p
       \<or> (\<exists>k. r = Ready (Inr k) \<and> 0 < k \<and> k \<le> room p \<and> outgoing q = outgoing p @ take k xs)
       \<or> (\<exists>e. r = Ready (Inl e) \<and> kind e = Interrupted \<and> 0 < interruptions p))"
proof -
  have "\<exists>r q. write_ready_loop (slave pty) xs p = Some (r, q) \<and> alive q \<and> interruptions q \<le> interruptions p
    \<and> (r = Pending \<and> outgoing p \<noteq> [] \<and> outgoing q = outgoing p
       \<or> (\<exists>k. r = Ready (Inr k) \<and> 0 < k \<and> k \<le> room p \<and> outgoing q = outgoing p @ take k xs)
       \<or> (\<exists>e. r = Ready (Inl e) \<and> kind e = Interrupted \<and> 0 < interruptions p))"
    using assms(1)
  proof (induction p rule: measure_induct_rule [of write_events])
    case (less p)
    obtain r q where r: "poll_write_ready (slave pty) p = (r, q)" by fastforce
    note ready = write_ready [OF less.prems r]
    show ?case
    proof (cases r)
      case Pending
      with r ready show ?thesis by (subst write_ready_loop.simps) auto
    next
      case (Ready x)
      with ready obtain u where u: "r = Ready (Inr u)" by (cases x) auto
      obtain g p1 where g: "guarded_write (slave pty) xs q = (g, p1)" by fastforce
      have "alive q" using ready by blast
      note got = write_some [OF this assms(2) g]
      show ?thesis
      proof (cases g)
        case None
        with r u g write_progress have "write_events p1 < write_events p" by blast
        from less.IH [OF this] r u g None ready got show ?thesis
          by (subst write_ready_loop.simps) auto
      next
        case (Some res)
        with r u g ready got show ?thesis
          by (cases res) (subst write_ready_loop.simps, auto)+
      qed
    qed
  qed
  with assms(2) show ?thesis by (simp add: unix_poll_write_def)
qed

lemma fill_terminal_stops:
  assumes "alive p" and "outgoing p = take offset expected" and "offset + room p < length expected"
  shows "\<exists>k q. fill_terminal (slave pty) expected offset p = Some (k, q) \<and> alive q
    \<and> outgoing q = take k expected \<and> k < length expected \<and> room q = 0 \<and> interruptions q \<le> interruptions p"
  using assms
proof (induction p arbitrary: offset rule: wf_induct_rule [of "measures [room, interruptions]", OF wf_measures])
  case (1 p)
  have "drop offset expected \<noteq> []" using 1(4) by simp
  obtain r q where r: "fd_write (slave pty) (drop offset expected) p = (r, q)" by fastforce
  note wrote = try_write_some [OF 1(2) \<open>drop offset expected \<noteq> []\<close> r]
  show ?case
  proof (cases r)
    case (Inl e)
    show ?thesis
    proof (cases "kind e = WouldBlock")
      case True
      with r Inl wrote 1(3,4) show ?thesis
        by (subst fill_terminal.simps) (auto simp: unix_try_write_def)
    next
      case False
      with Inl wrote have e: "kind e = Interrupted" "interruptions q < interruptions p" "room q = room p"
        "alive q" "outgoing q = outgoing p" by auto
      then have "\<exists>k q'. fill_terminal (slave pty) expected offset q = Some (k, q') \<and> alive q'
          \<and> outgoing q' = take k expected \<and> k < length expected \<and> room q' = 0 \<and> interruptions q' \<le> interruptions q"
        using 1(1) [of q offset] 1(3,4) by simp
      then obtain k q' where "fill_terminal (slave pty) expected offset q = Some (k, q')" "alive q'"
          "outgoing q' = take k expected" "k < length expected" "room q' = 0" "interruptions q' \<le> interruptions p"
        using e(2) by (meson le_trans less_imp_le)
      with r Inl False e show ?thesis
        by (subst fill_terminal.simps) (simp add: unix_try_write_def)
    qed
  next
    case (Inr k)
    with wrote have k: "0 < k" "room p = room q + k" "alive q" "outgoing q = outgoing p @ take k (drop offset expected)"
      "interruptions q \<le> interruptions p"
      by auto
    then have "\<exists>j q'. fill_terminal (slave pty) expected (offset + k) q = Some (j, q') \<and> alive q'
          \<and> outgoing q' = take j expected \<and> j < length expected \<and> room q' = 0 \<and> interruptions q' \<le> interruptions q"
      using 1(1) [of q "offset + k"] 1(3,4) by (simp add: take_add)
    then obtain j q' where "fill_terminal (slave pty) expected (offset + k) q = Some (j, q')" "alive q'"
        "outgoing q' = take j expected" "j < length expected" "room q' = 0" "interruptions q' \<le> interruptions p"
      using k(5) by (meson le_trans)
    with r Inr k 1(4) show ?thesis
      by (subst fill_terminal.simps) (simp add: unix_try_write_def)
  qed
qed

lemma write_blocked_ends:
  assumes "alive p" and "received @ outgoing p = take offset expected"
    and "resumed \<or> room p = 0 \<and> offset < length expected"
  shows "(\<exists>received' q. write_blocked pty expected offset resumed received p = Some (Inr (True, received', q))
    \<and> alive q \<and> received' @ outgoing q = expected)
    \<or> (\<exists>e. write_blocked pty expected offset resumed received p = Some (Inl e) \<and> kind e = Interrupted
        \<and> 0 < interruptions p)"
  using assms
proof (induction "(length expected - offset) + (length expected - length received)"
    arbitrary: p offset resumed received rule: less_induct)
  case less
  show ?case
  proof (cases "offset < length expected")
    case False
    with less.prems show ?thesis by (subst write_blocked.simps) simp
  next
    case True
    then have "drop offset expected \<noteq> []" by simp
    from poll_write_view [OF less.prems(1) this] obtain r q where
      r: "unix_poll_write (slave pty) (drop offset expected) p = Some (r, q)" "alive q"
        "interruptions q \<le> interruptions p"
      and cases: "r = Pending \<and> outgoing p \<noteq> [] \<and> outgoing q = outgoing p
       \<or> (\<exists>k. r = Ready (Inr k) \<and> 0 < k \<and> k \<le> room p \<and> outgoing q = outgoing p @ take k (drop offset expected))
       \<or> (\<exists>e. r = Ready (Inl e) \<and> kind e = Interrupted \<and> 0 < interruptions p)"
      by blast
    have short: "length received + length (outgoing p) = offset"
      using less.prems(2) True by (metis length_append length_take min.absorb4)
    from cases show ?thesis
    proof (elim disjE conjE exE)
      assume pending: "r = Pending" "outgoing p \<noteq> []" "outgoing q = outgoing p"
      obtain bs t where bs: "master_read pty (length expected - length received) q = (bs, t)" by fastforce
      have "0 < length expected - length received" using short True by simp
      from master_reads [OF r(2) this bs] pending have t: "alive t" "outgoing p = bs @ outgoing t" "bs \<noteq> []"
        "interruptions t \<le> interruptions q" by auto
      then have "0 < length bs" by simp
      moreover have "length received + length bs \<le> length expected" using short True t(2) by simp
      ultimately have dec: "(length expected - offset) + (length expected - length (received @ bs))
          < (length expected - offset) + (length expected - length received)"
        unfolding length_append by linarith
      have "(received @ bs) @ outgoing t = take offset expected" using less.prems(2) t(2) by simp
      moreover have "write_blocked pty expected offset resumed received p
          = write_blocked pty expected offset True (received @ bs) t"
        using True r pending bs by (subst write_blocked.simps) simp
      ultimately show ?thesis using less.hyps [OF dec t(1), of True] t(4) r(3) by fastforce
    next
      fix k assume k: "r = Ready (Inr k)" "0 < k" "k \<le> room p"
        "outgoing q = outgoing p @ take k (drop offset expected)"
      have dec: "(length expected - (offset + k)) + (length expected - length received)
          < (length expected - offset) + (length expected - length received)" using True k(2) by simp
      have "received @ outgoing q = take (offset + k) expected"
        using less.prems(2) k(4) by (simp add: take_add flip: append_assoc)
      moreover have "resumed" using less.prems(3) k(2,3) by auto
      moreover have "write_blocked pty expected offset resumed received p
          = write_blocked pty expected (offset + k) resumed received q"
        using True r k by (subst write_blocked.simps) simp
      ultimately show ?thesis using less.hyps [OF dec r(2), of resumed] r(3) by fastforce
    next
      fix e assume "r = Ready (Inl e)" "kind e = Interrupted" "0 < interruptions p"
      with True r show ?thesis by (subst (2) write_blocked.simps) simp
    qed
  qed
qed

lemma read_rest_ends:
  assumes "alive p" and "received @ outgoing p = expected"
  shows "\<exists>q. read_rest pty (length expected) received p = Some (expected, q)"
  using assms
proof (induction "length (outgoing p)" arbitrary: p received rule: less_induct)
  case less
  show ?case
  proof (cases "outgoing p = []")
    case True
    with less.prems show ?thesis by (subst read_rest.simps) simp
  next
    case False
    then have n: "0 < length expected - length received" "length received < length expected"
      using less.prems(2) by auto
    obtain bs q where bs: "master_read pty (length expected - length received) p = (bs, q)" by fastforce
    from master_reads [OF less.prems(1) n(1) bs] False have q: "alive q" "outgoing p = bs @ outgoing q" "bs \<noteq> []"
      by auto
    then have "\<exists>t. read_rest pty (length expected) (received @ bs) q = Some (expected, t)"
      using less.prems(2) by (intro less.hyps) auto
    with n bs q show ?thesis by (subst read_rest.simps) simp
  qed
qed

lemma blocked_writer_passes:
  assumes "alive p" and "outgoing p = []" and "room p < length expected"
  shows "blocked_writer_preserves pty expected p = Some (Inr ())
    \<or> (\<exists>e. blocked_writer_preserves pty expected p = Some (Inl e) \<and> kind e = Interrupted \<and> 0 < interruptions p)"
proof -
  obtain k q where q: "fill_terminal (slave pty) expected 0 p = Some (k, q)" "alive q"
    "outgoing q = take k expected" "k < length expected" "room q = 0" "interruptions q \<le> interruptions p"
    using fill_terminal_stops [OF assms(1), of 0 expected] assms(2,3) by auto
  then consider (passes) received t where
      "write_blocked pty expected k False [] q = Some (Inr (True, received, t))" "alive t" "received @ outgoing t = expected"
    | (interrupted) e where "write_blocked pty expected k False [] q = Some (Inl e)" "kind e = Interrupted"
      "0 < interruptions q"
    using write_blocked_ends [of q "[]" k expected False] by auto
  then show ?thesis
  proof cases
    case passes
    obtain u where "read_rest pty (length expected) received t = Some (expected, u)"
      using read_rest_ends [OF passes(2,3)] by blast
    with q passes show ?thesis by (simp add: blocked_writer_preserves_def check_def)
  next
    case interrupted
    with q show ?thesis by (simp add: blocked_writer_preserves_def)
  qed
qed

end

text \<open>
  The other direction: \<open>incoming\<close> are the bytes the master has written and the slave has not read,
  and \<open>hung\<close> says that the master is closed with nothing left to read. The tests that read unwrap
  what they get, so this is a terminal on which no signal interrupts a read.
\<close>

locale pty_pair = pty_writing pty read_events write_events signals alive outgoing room interruptions
  for pty :: "('p, 'z) pty_scheme" and read_events write_events signals alive outgoing room interruptions +
  fixes hung :: "'p \<Rightarrow> bool" and incoming :: "'p \<Rightarrow> bytes"
  assumes read_ready:
      "alive p \<Longrightarrow> poll_read_ready (slave pty) p = (r, q) \<Longrightarrow>
         alive q \<and> incoming q = incoming p \<and> outgoing q = outgoing p
         \<and> (r = Pending \<longrightarrow> incoming p = []) \<and> (\<forall>e. r \<noteq> Ready (Inl e))"
    and read_some:
      "alive p \<Longrightarrow> 0 < n \<Longrightarrow> guarded_read (slave pty) n p = (g, q) \<Longrightarrow>
         alive q \<and> outgoing q = outgoing p
         \<and> (case g of None \<Rightarrow> incoming p = [] \<and> incoming q = []
             | Some (Inr bs) \<Rightarrow> bs \<noteq> [] \<and> incoming p = bs @ incoming q
             | Some (Inl e) \<Rightarrow> False)"
    and try_read_empty:
      "alive p \<Longrightarrow> incoming p = [] \<Longrightarrow>
         \<exists>e q. fd_try_read (slave pty) n p = (Inl e, q) \<and> kind e = WouldBlock
           \<and> alive q \<and> incoming q = [] \<and> outgoing q = outgoing p"
    and master_writes:
      "alive p \<Longrightarrow> \<exists>q. master_write_all pty xs p = (Inr (), q) \<and> alive q
         \<and> incoming q = incoming p @ xs \<and> outgoing q = outgoing p"
    and master_drops: "alive p \<Longrightarrow> incoming p = [] \<Longrightarrow> hung (drop_master pty p)"
    and hung_ready:
      "hung p \<Longrightarrow> poll_read_ready (slave pty) p = (r, q) \<Longrightarrow>
         hung q \<and> r \<noteq> Pending \<and> (\<forall>e. r = Ready (Inl e) \<longrightarrow> kind e \<noteq> WouldBlock)"
    and hung_read:
      "hung p \<Longrightarrow> guarded_read (slave pty) n p = (g, q) \<Longrightarrow>
         hung q \<and> (case g of None \<Rightarrow> True | Some (Inr bs) \<Rightarrow> bs = [] | Some (Inl e) \<Rightarrow> kind e \<noteq> WouldBlock)"
begin

lemma poll_read_view:
  assumes "alive p" and "0 < n"
  shows "\<exists>r q. unix_poll_read (slave pty) n p = Some (r, q) \<and> alive q \<and> outgoing q = outgoing p
    \<and> (if incoming p = [] then r = Pending \<and> incoming q = []
       else \<exists>bs. r = Ready (Inr bs) \<and> bs \<noteq> [] \<and> length bs \<le> n \<and> incoming p = bs @ incoming q)"
proof -
  have "\<exists>r q. read_ready_loop (slave pty) n p = Some (r, q) \<and> alive q \<and> outgoing q = outgoing p
    \<and> (if incoming p = [] then r = Pending \<and> incoming q = []
       else \<exists>bs. r = Ready (Inr bs) \<and> bs \<noteq> [] \<and> length bs \<le> n \<and> incoming p = bs @ incoming q)"
    using assms(1)
  proof (induction p rule: measure_induct_rule [of read_events])
    case (less p)
    obtain r q where r: "poll_read_ready (slave pty) p = (r, q)" by fastforce
    note ready = read_ready [OF less.prems r]
    show ?case
    proof (cases r)
      case Pending
      with r ready show ?thesis by (subst read_ready_loop.simps) auto
    next
      case (Ready x)
      with ready obtain u where u: "r = Ready (Inr u)" by (cases x) auto
      obtain g p1 where g: "guarded_read (slave pty) n q = (g, p1)" by fastforce
      have "alive q" using ready by blast
      note got = read_some [OF this assms(2) g]
      show ?thesis
      proof (cases g)
        case None
        with r u g read_progress have "read_events p1 < read_events p" by blast
        from less.IH [OF this] r u g None ready got show ?thesis
          by (subst read_ready_loop.simps) auto
      next
        case (Some res)
        with got obtain bs where "res = Inr bs" by (cases res) auto
        with r u g Some ready got read_bounded [of n q] show ?thesis
          by (subst read_ready_loop.simps) auto
      qed
    qed
  qed
  with assms(2) show ?thesis by (simp add: unix_poll_read_def)
qed

lemma await_read_data:
  assumes "alive p" and "0 < n" and "incoming p \<noteq> []"
  shows "\<exists>bs q. await_read (slave pty) ts n p = Some (Inr bs, ts, q) \<and> bs \<noteq> [] \<and> length bs \<le> n
    \<and> incoming p = bs @ incoming q \<and> alive q \<and> outgoing q = outgoing p"
  using poll_read_view [OF assms(1,2)] assms(3) by (cases ts) auto

lemma await_read_task:
  assumes "alive p" and "0 < n" and "incoming p = []" and "xs \<noteq> []"
  shows "\<exists>bs q. await_read (slave pty) [write_task pty xs] n p = Some (Inr bs, [], q) \<and> bs \<noteq> []
    \<and> length bs \<le> n \<and> xs = bs @ incoming q \<and> alive q \<and> outgoing q = outgoing p"
proof -
  obtain q where q: "unix_poll_read (slave pty) n p = Some (Pending, q)" "alive q" "incoming q = []"
    "outgoing q = outgoing p"
    using poll_read_view [OF assms(1,2)] assms(3) by auto
  obtain t where "write_task pty xs q = Some t" "alive t" "incoming t = xs" "outgoing t = outgoing p"
    using master_writes [OF q(2), of xs] q by (auto simp: write_task_def)
  with q assms await_read_data [of t n "[]"] show ?thesis by fastforce
qed

lemma receive_data:
  assumes "alive p" and "incoming p = xs"
  shows "\<exists>q. receive (slave pty) ts (length xs) p = Some (xs, ts, q)
    \<and> alive q \<and> incoming q = [] \<and> outgoing q = outgoing p"
  using assms
proof (induction xs arbitrary: p rule: length_induct)
  case (1 xs)
  show ?case
  proof (cases "xs = []")
    case True
    with 1 show ?thesis by (subst receive.simps) simp
  next
    case False
    then obtain bs q where q: "await_read (slave pty) ts (length xs) p = Some (Inr bs, ts, q)" "bs \<noteq> []"
      "xs = bs @ incoming q" "alive q" "outgoing q = outgoing p"
      using await_read_data [OF 1(2), of "length xs" ts] 1(3) by auto
    then have "length (incoming q) < length xs" by (metis length_append less_add_same_cancel2 length_greater_0_conv)
    from 1(1) [rule_format, OF this q(4) refl] obtain t where
      "receive (slave pty) ts (length (incoming q)) q = Some (incoming q, ts, t)"
      "alive t" "incoming t = []" "outgoing t = outgoing p"
      using q(5) by auto
    moreover have "length xs - length bs = length (incoming q)" using q(3) by (metis add_diff_cancel_left' length_append)
    ultimately show ?thesis using False q by (subst receive.simps) simp
  qed
qed

lemma receive_task:
  assumes "alive p" and "incoming p = []" and "xs \<noteq> []"
  shows "\<exists>q. receive (slave pty) [write_task pty xs] (length xs) p = Some (xs, [], q)
    \<and> alive q \<and> incoming q = [] \<and> outgoing q = outgoing p"
proof -
  have "0 < length xs" using assms(3) by simp
  from await_read_task [OF assms(1) this assms(2,3)] obtain bs q where
    q: "await_read (slave pty) [write_task pty xs] (length xs) p = Some (Inr bs, [], q)"
    "bs \<noteq> []" "xs = bs @ incoming q" "alive q" "outgoing q = outgoing p"
    by blast
  moreover have "length xs - length bs = length (incoming q)" using q(3) by (metis add_diff_cancel_left' length_append)
  moreover obtain t where "receive (slave pty) [] (length (incoming q)) q = Some (incoming q, [], t)"
      "alive t" "incoming t = []" "outgoing t = outgoing p"
    using receive_data [OF q(4) refl] q(5) by auto
  ultimately show ?thesis using assms(3) by (subst receive.simps) simp
qed

lemma would_block:
  assumes "alive p" and "incoming p = []"
  shows "\<exists>q. expect_would_block (slave pty) n p = Some q \<and> alive q \<and> incoming q = [] \<and> outgoing q = outgoing p"
  using try_read_empty [OF assms, of n]
  by (auto simp: expect_would_block_def unix_try_read_def check_def)

lemma burst_rounds_pass:
  assumes "alive p" and "incoming p = []" and "[] \<notin> set es"
  shows "\<exists>q. burst_rounds pty es p = Some q \<and> alive q \<and> incoming q = [] \<and> outgoing q = outgoing p"
  using assms
proof (induction es arbitrary: p)
  case Nil
  then show ?case by simp
next
  case (Cons xs es)
  then obtain q where q: "receive (slave pty) [write_task pty xs] (length xs) p = Some (xs, [], q)"
    "alive q" "incoming q = []" "outgoing q = outgoing p"
    using receive_task [of p xs] by auto
  obtain t where "expect_would_block (slave pty) 8 q = Some t" "alive t" "incoming t = []" "outgoing t = outgoing p"
    using would_block [OF q(2,3)] q(4) by auto
  moreover from Cons.IH [of t] Cons.prems this obtain u where
    "burst_rounds pty es t = Some u" "alive u" "incoming u = []" "outgoing u = outgoing p" by auto
  ultimately show ?case using q by (simp add: check_def)
qed

lemma bursts_pass:
  assumes "alive p" and "incoming p = []"
  shows "drained_bursts_rearm_and_wake_on_new_input pty p = Some ()"
proof -
  obtain q where "expect_would_block (slave pty) 8 p = Some q" "alive q" "incoming q = []"
    using would_block [OF assms] by blast
  moreover define es :: "bytes list" where "es = [map of_char ''first'', map of_char ''next'', map of_char ''last'']"
  moreover have "[] \<notin> set es" by (simp add: es_def)
  ultimately show ?thesis
    using burst_rounds_pass [of q es]
    unfolding drained_bursts_rearm_and_wake_on_new_input_def es_def [symmetric] by auto
qed

lemma hung_poll_read:
  assumes "hung p" and "0 < n"
  shows "\<exists>r q. unix_poll_read (slave pty) n p = Some (Ready r, q)
    \<and> (case r of Inr bs \<Rightarrow> bs = [] | Inl e \<Rightarrow> kind e \<noteq> WouldBlock)"
proof -
  have "\<exists>r q. read_ready_loop (slave pty) n p = Some (Ready r, q)
    \<and> (case r of Inr bs \<Rightarrow> bs = [] | Inl e \<Rightarrow> kind e \<noteq> WouldBlock)"
    using assms(1)
  proof (induction p rule: measure_induct_rule [of read_events])
    case (less p)
    obtain r q where r: "poll_read_ready (slave pty) p = (r, q)" by fastforce
    note ready = hung_ready [OF less.prems r]
    then obtain x where x: "r = Ready x" by (cases r) auto
    show ?case
    proof (cases x)
      case (Inl e)
      with r x ready show ?thesis by (subst read_ready_loop.simps) auto
    next
      case (Inr u)
      obtain g p1 where g: "guarded_read (slave pty) n q = (g, p1)" by fastforce
      have "hung q" using ready by blast
      note got = hung_read [OF this g]
      show ?thesis
      proof (cases g)
        case None
        with r x Inr g read_progress have "read_events p1 < read_events p" by blast
        from less.IH [OF this] r x Inr g None got show ?thesis
          by (subst read_ready_loop.simps) auto
      next
        case (Some res)
        with r x Inr g got show ?thesis
          by (subst read_ready_loop.simps) (auto split: sum.splits)
      qed
    qed
  qed
  with assms(2) show ?thesis by (simp add: unix_poll_read_def)
qed

lemma disconnect_passes:
  assumes "alive p" and "incoming p = []"
  shows "peer_disconnect_completes_the_pending_read pty p = Some ()"
proof -
  obtain q where q: "unix_poll_read (slave pty) 8 p = Some (Pending, q)" "alive q" "incoming q = []"
    using poll_read_view [OF assms(1), of 8] assms(2) by auto
  obtain r t where "unix_poll_read (slave pty) 8 (drop_master pty q) = Some (Ready r, t)"
    "case r of Inr bs \<Rightarrow> bs = [] | Inl e \<Rightarrow> kind e \<noteq> WouldBlock"
    using hung_poll_read [OF master_drops [OF q(2,3)], of 8] by auto
  with q show ?thesis
    by (auto simp: peer_disconnect_completes_the_pending_read_def check_def split: sum.splits)
qed

lemma cancelled_passes:
  assumes "alive p" and "incoming p = []"
  shows "cancelled_read_does_not_retain_the_old_buffer pty p = Some ()"
proof -
  define expected :: bytes where "expected = map of_char ''new read''"
  have len: "length expected = 8" by (simp add: expected_def)
  obtain q where q: "unix_poll_read (slave pty) 8 p = Some (Pending, q)" "alive q" "incoming q = []"
    using poll_read_view [OF assms(1), of 8] assms(2) by auto
  obtain t where t: "write_task pty expected q = Some t" "alive t" "incoming t = expected"
    using master_writes [OF q(2), of expected] q(3) by (auto simp: write_task_def)
  obtain u where "receive (slave pty) [] 8 t = Some (expected, [], u)"
    using receive_data [OF t(2,3), of "[]"] len by auto
  with q t show ?thesis
    unfolding cancelled_read_does_not_retain_the_old_buffer_def expected_def [symmetric] Let_def
    by (simp add: check_def)
qed

end

subsection \<open>A pseudo-terminal\<close>

text \<open>
  The terminal \<open>tty\<close> with a master: signals interrupt its first writes, and reads of a terminal whose
  master is gone report the end of the file. Between them the line and its free space hold \<open>capacity\<close> bytes.
\<close>

definition pts_fd :: "tty tty_fd" where
  "pts_fd = tty_fd
     \<lparr>poll_read_ready := (\<lambda>p. if broken p then (Ready (Inr ()), p) else poll_read_ready tty_fd p),
      guarded_read := (\<lambda>n p. if broken p \<and> arrived p = [] then (Some (Inr []), p) else guarded_read tty_fd n p),
      guarded_write := (\<lambda>xs p. if 0 < interrupts p
        then (Some (Inl (io_error_new Interrupted ''signal'')), p\<lparr>interrupts := interrupts p - 1\<rparr>)
        else guarded_write tty_fd xs p),
      fd_write := (\<lambda>xs p. if 0 < interrupts p
        then (Inl (io_error_new Interrupted ''signal''), p\<lparr>interrupts := interrupts p - 1\<rparr>)
        else fd_write tty_fd xs p)\<rparr>"

definition pts :: "tty pty" where
  "pts =
     \<lparr>slave = pts_fd,
      master_write_all = (\<lambda>xs p. (Inr (), if xs = [] then p else p\<lparr>arrived := arrived p @ [xs]\<rparr>)),
      master_read = (\<lambda>n p.
        (take n (line p),
         p\<lparr>line := drop n (line p), space := space p + length (take n (line p))\<rparr>)),
      drop_master = (\<lambda>p. p\<lparr>broken := True\<rparr>)\<rparr>"

definition pts_alive :: "nat \<Rightarrow> tty \<Rightarrow> bool" where
  "pts_alive capacity p \<longleftrightarrow>
     \<not> broken p \<and> [] \<notin> set (arrived p) \<and> length (line p) + space p = capacity \<and> 0 < capacity"

lemma no_empty_chunk: "\<forall>xs \<in> set xss. xs = [] \<Longrightarrow> [] \<notin> set xss \<Longrightarrow> xss = []"
  by (cases xss) auto

interpretation pts_writing: pty_writing pts stale stale interrupts "pts_alive capacity" line space interrupts
  for capacity
proof unfold_locales
qed (auto simp: pts_def pts_fd_def tty_fd_def tty_read_def tty_write_def pts_alive_def Let_def
    block_error_def split: list.splits if_splits option.splits)

interpretation pts: pty_pair pts stale stale interrupts "pts_alive capacity" line space interrupts
    "\<lambda>p. broken p \<and> arrived p = []" "\<lambda>p. concat (arrived p)" for capacity
proof unfold_locales
qed (auto simp: pts_def pts_fd_def tty_fd_def tty_read_def tty_write_def pts_alive_def Let_def
    block_error_def dest: no_empty_chunk split: list.splits if_splits option.splits)

text \<open>The tests on this terminal, whatever its size, which for the last one is below 256 KiB.\<close>

lemma pty_tests:
  assumes "pts_alive capacity p" and "arrived p = []"
  shows "drained_bursts_rearm_and_wake_on_new_input pts p = Some ()"
    "peer_disconnect_completes_the_pending_read pts p = Some ()"
    "cancelled_read_does_not_retain_the_old_buffer pts p = Some ()"
  using pts.bursts_pass [OF assms(1)] pts.disconnect_passes [OF assms(1)] pts.cancelled_passes [OF assms(1)]
    assms(2) by simp_all

lemma blocked_writer_test:
  assumes "pts_alive capacity p" and "line p = []" and "capacity < 4 * CHUNK_SIZE" and "interrupts p = 0"
  shows "blocked_writer_wakes_and_preserves_partial_writes pts p = Some (Inr ())"
  unfolding blocked_writer_wakes_and_preserves_partial_writes_def
  using pts_writing.blocked_writer_passes [OF assms(1,2), of "map (\<lambda>i. of_nat (i * 37 + 11)) [0..<4 * CHUNK_SIZE]"]
    assms by (simp add: pts_alive_def)

text \<open>
  C40: partial writes lose nothing. A writer that fills a pseudo-terminal until it blocks, retrying
  when a signal interrupts it, and then continues after each readiness event from where the last
  write ended, with stale events and a peer that reads in pieces of any size, ends and delivers
  exactly its data. The only other outcome is that a signal interrupted a write after the terminal
  had blocked: \<open>poll_write\<close> hands that error to its caller, who here unwraps it; without signals
  the data always arrives.
\<close>

theorem blocked_writes_arrive:
  assumes "pty_writing pty read_events write_events signals alive outgoing room interruptions"
    and "alive p" and "outgoing p = []" and "room p < length expected"
  shows "blocked_writer_preserves pty expected p = Some (Inr ())
    \<or> (\<exists>e. blocked_writer_preserves pty expected p = Some (Inl e) \<and> kind e = Interrupted \<and> 0 < interruptions p)"
  using assms by (rule pty_writing.blocked_writer_passes)

theorem blocked_writes_arrive_witness:
  "blocked_writer_preserves pts [1, 2, 3, 4, 5, 6, 7] (tty_new\<lparr>space := 3, stale := 2\<rparr>) = Some (Inr ())"
  using blocked_writes_arrive [OF pts_writing.pty_writing_axioms [of 3],
      of "tty_new\<lparr>space := 3, stale := 2\<rparr>" "[1, 2, 3, 4, 5, 6, 7]"]
  by (simp add: pts_alive_def tty_new_def)

end
