(* ===== verification/Test_Peers.thy ===== *)
theory Test_Peers
  imports Text Errors
begin

text \<open>
  \<open>src/examples/echo.rs\<close> and \<open>src/examples/pty.rs\<close>: the programs at the other end of a
  pseudo-terminal in the benchmarks and tests. The master end, the waiting and the clock are
  parameters. The loops may run forever, so \<open>n\<close> bounds their passes and \<open>Running\<close> is the result
  when they are used up; the bytes a loop has moved are returned as a ghost beside it.
\<close>

datatype 'a exit = Running | Panicked | Exited 'a

text \<open>\<open>io_error_from\<close> is \<open>io::Error::from\<close> a kind; \<open>now_before\<close> is \<open>Instant::now() < deadline\<close>.\<close>

record 'w master =
  m_read :: "nat \<Rightarrow> 'w \<Rightarrow> bytes io_result \<times> 'w"
  m_write :: "bytes \<Rightarrow> 'w \<Rightarrow> nat io_result \<times> 'w"
  m_poll :: "'w \<Rightarrow> unit io_result \<times> 'w"
  m_sleep :: "'w \<Rightarrow> 'w"
  set_deadline :: "'w \<Rightarrow> 'w"
  now_before :: "'w \<Rightarrow> bool \<times> 'w"
  io_error_from :: "error_kind \<Rightarrow> io_error"

subsection \<open>echo.rs\<close>

text \<open>Writing all of some data, waiting while the terminal is full.\<close>

fun write_all ::
  "('w, 'z) master_scheme \<Rightarrow> ('w \<Rightarrow> unit io_result \<times> 'w) \<Rightarrow> nat \<Rightarrow> bytes \<Rightarrow> nat \<Rightarrow> 'w
     \<Rightarrow> unit io_result exit \<times> bytes \<times> 'w" where
  "write_all m wait 0 data offset w = (Running, [], w)"
| "write_all m wait (Suc n) data offset w =
     (if offset < length data then
        (case slice_from data offset of
           None \<Rightarrow> (Panicked, [], w)
         | Some rest \<Rightarrow>
             (case m_write m rest w of
                (Inr k, w) \<Rightarrow>
                  if k = 0 then (Exited (Inl (io_error_from m WriteZero)), [], w)
                  else
                    let (x, sent, w) = write_all m wait n data (offset + k) w
                    in (x, take k rest @ sent, w)
              | (Inl e, w) \<Rightarrow>
                  if kind e = WouldBlock then
                    (case wait w of
                       (Inl e, w) \<Rightarrow> (Exited (Inl e), [], w)
                     | (Inr _, w) \<Rightarrow> write_all m wait n data offset w)
                  else (Exited (Inl e), [], w)))
      else (Exited (Inr ()), [], w))"

text \<open>The result, the bytes read and the bytes written back.\<close>

fun echo_loop ::
  "('w, 'z) master_scheme \<Rightarrow> nat \<Rightarrow> bytes \<Rightarrow> 'w \<Rightarrow> unit io_result exit \<times> bytes \<times> bytes \<times> 'w" where
  "echo_loop m 0 buffer w = (Running, [], [], w)"
| "echo_loop m (Suc n) buffer w =
     (case m_read m (length buffer) w of
        (Inr bs, w) \<Rightarrow>
          if bs = [] then (Exited (Inr ()), [], [], w)
          else
            let count = length bs; buffer = bs @ drop count buffer in
            (case slice_to buffer count of
               None \<Rightarrow> (Panicked, bs, [], w)
             | Some data \<Rightarrow>
                 (case write_all m (m_poll m) n data 0 w of
                    (Exited (Inr _), sent, w) \<Rightarrow>
                      let (x, received, echoed, w) = echo_loop m n buffer w
                      in (x, bs @ received, sent @ echoed, w)
                  | (x, sent, w) \<Rightarrow> (x, bs, sent, w)))
      | (Inl e, w) \<Rightarrow>
          if kind e = WouldBlock then
            (case m_poll m w of
               (Inl e, w) \<Rightarrow> (Exited (Inl e), [], [], w)
             | (Inr _, w) \<Rightarrow> echo_loop m n buffer w)
          else (Exited (Inl e), [], [], w))"

definition echo :: "('w, 'z) master_scheme \<Rightarrow> nat \<Rightarrow> 'w \<Rightarrow> unit io_result exit \<times> bytes \<times> bytes \<times> 'w" where
  "echo m n w = echo_loop m n (replicate (64 * 1024) 0) w"

text \<open>What the loops rely on of the master end: it moves no more bytes than it was given room for.\<close>

locale master_end =
  fixes m :: "('w, 'z) master_scheme"
  assumes read_fits: "m_read m n w = (Inr bs, w') \<Longrightarrow> length bs \<le> n"
    and write_fits: "m_write m xs w = (Inr k, w') \<Longrightarrow> k \<le> length xs"
begin

lemma write_all_prefix:
  assumes "write_all m wait n data offset w = (x, sent, w')" and "offset \<le> length data"
  shows "x \<noteq> Panicked \<and> prefix sent (drop offset data) \<and> (x = Exited (Inr ()) \<longrightarrow> sent = drop offset data)"
  using assms
proof (induction n arbitrary: offset w x sent w')
  case 0
  then show ?case by simp
next
  case (Suc n)
  show ?case
  proof (cases "offset < length data")
    case False
    with Suc.prems show ?thesis by auto
  next
    case True
    obtain y v where y: "m_write m (drop offset data) w = (y, v)" by fastforce
    show ?thesis
    proof (cases y)
      case (Inl e)
      with True Suc.prems y Suc.IH show ?thesis
        by (auto simp: slice_from_def split: if_splits prod.splits sum.splits)
    next
      case (Inr k)
      with y write_fits have k: "offset + k \<le> length data" using True by fastforce
      obtain x2 sent2 v2 where rest: "write_all m wait n data (offset + k) v = (x2, sent2, v2)"
        by (metis prod_cases3)
      have "drop offset data = take k (drop offset data) @ drop (offset + k) data"
        by (metis add.commute append_take_drop_id drop_drop)
      then show ?thesis
        using Suc.prems(1) True y Inr rest Suc.IH [OF rest k]
        by (cases "k = 0") (auto simp: slice_from_def prefix_def)
    qed
  qed
qed

lemma echo_loop_prefix:
  assumes "echo_loop m n buffer w = (x, received, echoed, w')"
  shows "x \<noteq> Panicked \<and> prefix echoed received \<and> length received \<le> length echoed + length buffer
    \<and> (x = Exited (Inr ()) \<longrightarrow> echoed = received)"
  using assms
proof (induction n arbitrary: buffer w x received echoed w')
  case 0
  then show ?case by simp
next
  case (Suc n)
  obtain y v where y: "m_read m (length buffer) w = (y, v)" by fastforce
  show ?case
  proof (cases y)
    case (Inl e)
    with Suc.prems y Suc.IH show ?thesis by (auto split: if_splits prod.splits sum.splits)
  next
    case (Inr bs)
    let ?b = "bs @ drop (length bs) buffer"
    have b: "length ?b = length buffer" "length bs \<le> length buffer"
      using read_fits y Inr by auto
    obtain x1 sent v1 where wr: "write_all m (m_poll m) n bs 0 v = (x1, sent, v1)" by (metis prod_cases3)
    obtain x2 received2 echoed2 v2 where rest: "echo_loop m n ?b v1 = (x2, received2, echoed2, v2)"
      by (metis prod_cases4)
    from write_all_prefix [OF wr] have sent: "x1 \<noteq> Panicked" "prefix sent bs" "x1 = Exited (Inr ()) \<longrightarrow> sent = bs"
      by simp_all
    from Suc.prems y Inr wr rest have
      "if bs = [] then x = Exited (Inr ()) \<and> received = [] \<and> echoed = []
       else if x1 = Exited (Inr ()) then x = x2 \<and> received = bs @ received2 \<and> echoed = sent @ echoed2
       else x = x1 \<and> received = bs \<and> echoed = sent"
      by (auto simp: slice_to_def Let_def split: exit.splits sum.splits)
    with sent Suc.IH [OF rest] b show ?thesis
      by (auto split: if_splits dest: prefix_length_le)
  qed
qed

end

text \<open>A master end with chunks that arrive, empty ones while nothing has, and a terminal that is full at times.\<close>

record demo =
  incoming :: "bytes list"
  outgoing :: bytes
  stalls :: nat

definition would_block :: io_error where
  "would_block = io_error_new WouldBlock ''would block''"

definition demo_master :: "demo master" where
  "demo_master =
     \<lparr>m_read = (\<lambda>n w. case incoming w of
          [] \<Rightarrow> (Inr [], w)
        | c # cs \<Rightarrow>
            if c = [] then (Inl would_block, w\<lparr>incoming := cs\<rparr>)
            else (Inr (take n c), w\<lparr>incoming := (if length c \<le> n then cs else drop n c # cs)\<rparr>)),
      m_write = (\<lambda>xs w.
        if stalls w > 0 then (Inl would_block, w\<lparr>stalls := stalls w - 1\<rparr>)
        else (Inr (min 2 (length xs)), w\<lparr>outgoing := outgoing w @ take 2 xs, stalls := 1\<rparr>)),
      m_poll = (\<lambda>w. (Inr (), w)), m_sleep = (\<lambda>w. w), set_deadline = (\<lambda>w. w),
      now_before = (\<lambda>w. (True, w)), io_error_from = (\<lambda>k. io_error_new k ''error'')\<rparr>"

interpretation demo: master_end demo_master
  by unfold_locales (auto simp: demo_master_def split: list.splits if_splits)

subsection \<open>pty.rs\<close>

datatype box_error = Io io_error | Message string | Parse_error

datatype reply = Reply string | Hangup

text \<open>\<open>u8::from_str_radix(_, 16)\<close> of at most two characters; a sign may precede a digit.\<close>

fun hex_digits :: "nat \<Rightarrow> string \<Rightarrow> nat option" where
  "hex_digits n [] = Some n"
| "hex_digits n (c # cs) =
     (if is_ascii_hexdigit c then hex_digits (16 * n + digit_value (ascii_lower c)) cs else None)"

definition from_hex :: "string \<Rightarrow> u8 option" where
  "from_hex s =
     (case s of
        [] \<Rightarrow> None
      | c # cs \<Rightarrow>
          if cs = [] \<and> (c = CHR ''+'' \<or> c = CHR ''-'') then None
          else map_option word_of_nat (hex_digits 0 (if c = CHR ''+'' then cs else s)))"

text \<open>The bytes of a write command.\<close>

definition decode_hex :: "string \<Rightarrow> box_error + bytes" where
  "decode_hex value =
     (if \<not> list_all (\<lambda>c. byte c < 128) value \<or> length value mod 2 \<noteq> 0
      then Inl (Message ''Invalid hexadecimal data'')
      else case those (map (\<lambda>i. from_hex (take 2 (drop (2 * i) value))) [0..<length value div 2]) of
             None \<Rightarrow> Inl Parse_error
           | Some bs \<Rightarrow> Inr bs)"

text \<open>\<open>str::parse::<usize>\<close>\<close>

fun usize_digits :: "nat \<Rightarrow> string \<Rightarrow> nat option" where
  "usize_digits n [] = Some n"
| "usize_digits n (c # cs) =
     (let d = of_char c :: nat in
      if 48 \<le> d \<and> d \<le> 57 \<and> 10 * n + (d - 48) < 2 ^ 64 then usize_digits (10 * n + (d - 48)) cs
      else None)"

definition parse_usize :: "string \<Rightarrow> nat option" where
  "parse_usize s =
     (case s of
        [] \<Rightarrow> None
      | c # cs \<Rightarrow>
          if cs = [] \<and> (c = CHR ''+'' \<or> c = CHR ''-'') then None
          else usize_digits 0 (if c = CHR ''+'' then cs else s))"

text \<open>Reading a given number of bytes before the deadline.\<close>

fun read_exact ::
  "('w, 'z) master_scheme \<Rightarrow> nat \<Rightarrow> bytes \<Rightarrow> nat \<Rightarrow> 'w \<Rightarrow> bytes io_result exit \<times> bytes \<times> 'w" where
  "read_exact m 0 buffer offset w = (Running, [], w)"
| "read_exact m (Suc n) buffer offset w =
     (if offset < length buffer then
        (case slice_from buffer offset of
           None \<Rightarrow> (Panicked, [], w)
         | Some rest \<Rightarrow>
             (case m_read m (length rest) w of
                (Inr bs, w) \<Rightarrow>
                  if bs = [] then (Exited (Inl (io_error_from m UnexpectedEof)), [], w)
                  else
                    let buffer = take offset buffer @ bs @ drop (offset + length bs) buffer;
                        (x, received, w) = read_exact m n buffer (offset + length bs) w
                    in (x, bs @ received, w)
              | (Inl e, w) \<Rightarrow>
                  let (early, w) = (if kind e = WouldBlock then now_before m w else (False, w)) in
                  if early then read_exact m n buffer offset (m_sleep m w)
                  else (Exited (Inl e), [], w)))
      else (Exited (Inr buffer), [], w))"

definition byte_hex :: "u8 \<Rightarrow> string" where
  "byte_hex b = hex_format 2 (unat b)"

definition pty_command ::
  "('w, 'z) master_scheme \<Rightarrow> nat \<Rightarrow> string \<Rightarrow> 'w \<Rightarrow> (box_error + reply) exit \<times> bytes \<times> 'w" where
  "pty_command m n line w =
     (let (op, value) = (case split_once CHR '' '' line of None \<Rightarrow> (line, []) | Some parts \<Rightarrow> parts) in
      if op = ''write'' then
        (case decode_hex value of
           Inl e \<Rightarrow> (Exited (Inl e), [], w)
         | Inr bs \<Rightarrow>
             (case write_all m (\<lambda>w. (Inr (), m_sleep m w)) n bs 0 w of
                (Exited (Inr _), sent, w) \<Rightarrow> (Exited (Inr (Reply ''ok'')), sent, w)
              | (Exited (Inl e), sent, w) \<Rightarrow> (Exited (Inl (Io e)), sent, w)
              | (Panicked, sent, w) \<Rightarrow> (Panicked, sent, w)
              | (Running, sent, w) \<Rightarrow> (Running, sent, w)))
      else if op = ''read'' then
        (case parse_usize value of
           None \<Rightarrow> (Exited (Inl Parse_error), [], w)
         | Some k \<Rightarrow>
             (case read_exact m n (replicate k 0) 0 (set_deadline m w) of
                (Exited (Inr bs), _, w) \<Rightarrow> (Exited (Inr (Reply (concat (map byte_hex bs)))), [], w)
              | (Exited (Inl e), _, w) \<Rightarrow> (Exited (Inl (Io e)), [], w)
              | (Panicked, _, w) \<Rightarrow> (Panicked, [], w)
              | (Running, _, w) \<Rightarrow> (Running, [], w)))
      else if op = ''hangup'' then (Exited (Inr Hangup), [], w)
      else (Exited (Inl (Message ''Unknown command'')), [], w))"

text \<open>The command loop over the lines of the standard input, with the lines it prints.\<close>

fun pty_loop ::
  "('w, 'z) master_scheme \<Rightarrow> nat \<Rightarrow> (io_error + string) list \<Rightarrow> 'w
     \<Rightarrow> (box_error + unit) exit \<times> string list \<times> 'w" where
  "pty_loop m n [] w = (Exited (Inr ()), [], w)"
| "pty_loop m n (Inl e # lines) w = (Exited (Inl (Io e)), [], w)"
| "pty_loop m n (Inr line # lines) w =
     (case pty_command m n line w of
        (Exited (Inr (Reply out)), _, w) \<Rightarrow>
          let (x, outs, w) = pty_loop m n lines w in (x, out # outs, w)
      | (Exited (Inr Hangup), _, w) \<Rightarrow> (Exited (Inr ()), [], w)
      | (Exited (Inl e), _, w) \<Rightarrow> (Exited (Inl e), [], w)
      | (Panicked, _, w) \<Rightarrow> (Panicked, [], w)
      | (Running, _, w) \<Rightarrow> (Running, [], w))"

subsection \<open>Hexadecimal bytes\<close>

lemma hex_digit_facts:
  assumes "d < 16"
  shows "is_ascii_hexdigit (hex_digit d)" "digit_value (ascii_lower (hex_digit d)) = d"
    "byte (hex_digit d) < 128" "hex_digit d \<noteq> CHR ''+''"
  using assms
  by (auto simp: hex_digit_def is_ascii_hexdigit_def ascii_lower_def digit_value_def byte_def Let_def
      char_of_eq_iff take_bit_nat_eq_self)

lemma byte_hex_digits: "byte_hex b = [hex_digit (unat b div 16), hex_digit (unat b mod 16)]" "unat b div 16 < 16"
proof -
  show "unat b div 16 < 16" using unsigned_less [of b] by (simp add: div_less_iff_less_mult)
  then show "byte_hex b = [hex_digit (unat b div 16), hex_digit (unat b mod 16)]"
    by (simp add: byte_hex_def hex_format_def upt_rec)
qed

lemma from_hex_byte_hex: "from_hex (byte_hex b) = Some b"
  using byte_hex_digits(2) [of b]
  by (simp add: from_hex_def byte_hex_digits(1) hex_digit_facts)

lemma byte_hex_at: "i < length bs \<Longrightarrow> take 2 (drop (2 * i) (concat (map byte_hex bs))) = byte_hex (bs ! i)"
proof (induction bs arbitrary: i)
  case (Cons b bs)
  then show ?case
    by (cases i) (simp_all add: byte_hex_digits(1))
qed simp

lemma those_map_Some: "those (map (\<lambda>i. Some (f i)) xs) = Some (map f xs)"
  by (induction xs) simp_all

text \<open>What a read prints, a write takes.\<close>

lemma decode_hex_byte_hex: "decode_hex (concat (map byte_hex bs)) = Inr bs"
proof -
  let ?v = "concat (map byte_hex bs)"
  have len: "length ?v = 2 * length bs"
    by (induction bs) (simp_all add: byte_hex_digits(1))
  have ascii: "list_all (\<lambda>c. byte c < 128) ?v"
    using byte_hex_digits by (induction bs) (simp_all add: hex_digit_facts)
  have "map (\<lambda>i. from_hex (take 2 (drop (2 * i) ?v))) [0..<length bs] = map (\<lambda>i. Some (bs ! i)) [0..<length bs]"
    by (simp add: byte_hex_at from_hex_byte_hex)
  then have "those (map (\<lambda>i. from_hex (take 2 (drop (2 * i) ?v))) [0..<length bs]) = Some bs"
    by (simp only: those_map_Some map_nth)
  with ascii len show ?thesis by (simp add: decode_hex_def del: map_concat)
qed

subsection \<open>Exact transfers\<close>

context master_end
begin

lemma read_exact_all:
  assumes "read_exact m n buffer offset w = (x, received, w')" and "offset \<le> length buffer"
  shows "x \<noteq> Panicked \<and> (\<forall>bs. x = Exited (Inr bs) \<longrightarrow>
      bs = take offset buffer @ received \<and> length bs = length buffer)"
  using assms
proof (induction n arbitrary: buffer offset w x received w')
  case 0
  then show ?case by auto
next
  case (Suc n)
  show ?case
  proof (cases "offset < length buffer")
    case False
    with Suc.prems show ?thesis by auto
  next
    case True
    obtain y v where y: "m_read m (length buffer - offset) w = (y, v)" by fastforce
    show ?thesis
    proof (cases y)
      case (Inl e)
      with True Suc.prems y Suc.IH show ?thesis
        by (auto simp: slice_from_def Let_def split: if_splits prod.splits)
    next
      case (Inr bs)
      have len: "length bs \<le> length buffer - offset" using read_fits y Inr by simp
      let ?b = "take offset buffer @ bs @ drop (offset + length bs) buffer"
      obtain x2 received2 v2 where rest: "read_exact m n ?b (offset + length bs) v = (x2, received2, v2)"
        by (metis prod_cases3)
      have b: "length ?b = length buffer" "take (offset + length bs) ?b = take offset buffer @ bs"
        "offset + length bs \<le> length ?b"
        using len True by simp_all
      have "bs \<noteq> [] \<Longrightarrow> x = x2 \<and> received = bs @ received2"
        using Suc.prems(1) True y Inr rest by (simp add: slice_from_def)
      moreover have "bs = [] \<Longrightarrow> x = Exited (Inl (io_error_from m UnexpectedEof))"
        using Suc.prems(1) True y Inr by (simp add: slice_from_def)
      ultimately show ?thesis using Suc.IH [OF rest b(3)] b by (cases "bs = []") auto
    qed
  qed
qed

end

subsection \<open>Properties\<close>

text \<open>
  The echo program returns what it receives: in order and without a gap, at most one buffer of
  64 KiB behind, however often the terminal is full or has nothing to read, and when it ends without
  an error everything it has received is back. It never panics.
\<close>

lemma echo_returns_input:
  assumes "master_end m" and "echo m n w = (x, received, echoed, w')"
  shows "x \<noteq> Panicked \<and> prefix echoed received \<and> length received \<le> length echoed + 64 * 1024
    \<and> (x = Exited (Inr ()) \<longrightarrow> echoed = received)"
  using master_end.echo_loop_prefix [OF assms(1) assms(2) [unfolded echo_def]] by simp

definition demo_input :: demo where
  "demo_input = \<lparr>incoming = [[1, 2, 3], [], [4]], outgoing = [], stalls = 0\<rparr>"

lemma demo_echo:
  assumes "length buffer = 65536"
  shows "\<exists>w. echo_loop demo_master 12 buffer demo_input = (Exited (Inr ()), [1, 2, 3, 4], [1, 2, 3, 4], w)"
proof -
  have twelve: "(12 :: nat) = Suc (Suc (Suc (Suc (Suc (Suc (Suc (Suc (Suc (Suc (Suc (Suc 0)))))))))))" by simp
  show ?thesis
    unfolding twelve using assms
    by (simp add: demo_input_def demo_master_def slice_from_def slice_to_def would_block_def Let_def
        del: length_0_conv)
qed

lemma echo_returns_input_witness:
  "\<exists>received echoed w. echo demo_master 12 demo_input = (Exited (Inr ()), received, echoed, w)
     \<and> echoed = received \<and> received = [1, 2, 3, 4]"
proof -
  obtain w where w: "echo demo_master 12 demo_input = (Exited (Inr ()), [1, 2, 3, 4], [1, 2, 3, 4], w)"
    using demo_echo [of "replicate (64 * 1024) 0"] unfolding echo_def length_replicate by auto
  from echo_returns_input [OF demo.master_end_axioms this] w show ?thesis by simp
qed

text \<open>
  The command program writes exactly the bytes it is given when it answers \<open>ok\<close>, and prints as
  many bytes as it is asked for in the form a write command takes.
\<close>

lemma pty_writes_and_reads:
  assumes "master_end m" and "pty_command m n line w = (Exited (Inr (Reply out)), sent, w')"
  shows "line = ''write '' @ concat (map byte_hex data) \<Longrightarrow> out = ''ok'' \<and> sent = data"
    and "line = ''read '' @ value \<Longrightarrow>
      \<exists>data. decode_hex out = Inr data \<and> Some (length data) = parse_usize value \<and> sent = []"
proof -
  note written_all = master_end.write_all_prefix [OF assms(1)]
  note read_all = master_end.read_exact_all [OF assms(1)]
  show "out = ''ok'' \<and> sent = data" if "line = ''write '' @ concat (map byte_hex data)"
    using assms(2) that
    by (auto simp: pty_command_def decode_hex_byte_hex split: prod.splits exit.splits sum.splits dest!: written_all)
  show "\<exists>data. decode_hex out = Inr data \<and> Some (length data) = parse_usize value \<and> sent = []"
    if "line = ''read '' @ value"
    using assms(2) that
    by (auto simp: pty_command_def decode_hex_byte_hex split: option.splits prod.splits exit.splits sum.splits
        dest!: read_all)
qed

end
