(* ===== verification/Spec2Isabelle.thy ===== *)
theory Spec2Isabelle
  imports Port_Correct Reactor_Progress Reactor_Protocol Settings_Correct Environment Listing Windows_Stream Unit_Tests Pty_Tests Test_Peers
begin

text \<open>
  A model of node-serialport-rs, a serial-port addon for Node.js written in Rust (\<open>src/src\<close>).

  \<^bold>\<open>The program.\<close> JavaScript creates a \<open>NativePort\<close>, which shares a control block with a
  reactor, a task that opens the device and owns it until the port is closed. The JavaScript thread
  sends commands over a bounded channel and may write to the device itself while no command is
  outstanding; the reactor executes the commands in order, reads the device as far as JavaScript has
  granted credit, and publishes events through a threadsafe function. Reactors share a few threads. An
  environment that is torn down stops the ports created in it. Besides, the addon lists the serial
  ports of the machine.

  \<^bold>\<open>Theories and sources.\<close>
  \<^item> \<open>Prelude\<close>: options, slices, subtractions that can panic, clamping, machine words.
  \<^item> \<open>Errors\<close>: \<open>error.rs\<close>. \<open>Commands\<close>: \<open>command.rs\<close>.
  \<^item> \<open>Events\<close>: the limits and events of \<open>lib.rs\<close> and the callback that copies a read into
    a pooled buffer.
  \<^item> \<open>Serial_Stream\<close>: the interface of \<open>platform::SerialStream\<close>, a record of operations over
    an arbitrary state of the device, with the contract \<open>duplex\<close>.
  \<^item> \<open>Unix_Stream\<close>: \<open>platform/unix.rs\<close>, and a terminal for the concrete instances.
    \<open>Windows_Stream\<close>: \<open>platform/windows.rs\<close>.
  \<^item> \<open>Transfer_Poller\<close>: \<open>transfer.rs\<close>, the fair sharing of a port between a read and a write.
  \<^item> \<open>Control\<close>: \<open>struct Control\<close> of \<open>lib.rs\<close> with its channel, as the record
    \<open>control\<close>, the atomic accesses to it, and the contract \<open>command_channel\<close>.
  \<^item> \<open>Native_Port\<close>: the methods of \<open>NativePort\<close> in \<open>lib.rs\<close>.
    \<open>Native_Port_Correct\<close>: what they guarantee.
  \<^item> \<open>Reactor\<close>: \<open>reactor.rs\<close>; the local variables of \<open>run_open\<close> are the record
    \<open>reactor\<close>, one pass of its loop or one poll of its \<open>select!\<close> is \<open>turn\<close>.
    \<open>Reactor_Facts\<close> and \<open>Reactor_Invariant\<close>: the invariant every turn keeps.
    \<open>Reactor_Correct\<close>: what holds of every execution, and how a port ends.
    \<open>Reactor_Protocol\<close>: the protocol of requests, answers and credit its log follows.
    \<open>Reactor_Progress\<close>: the queue is worked off on a device that accepts bytes.
  \<^item> \<open>Port_System\<close>, \<open>Js_Thread\<close> and \<open>Port_Correct\<close>: both threads together, and the
    pipe they refine.
  \<^item> \<open>Settings\<close>: \<open>settings.rs\<close> and the opening, speeds and line settings of
    \<open>platform.rs\<close>. \<open>Settings_Correct\<close>: what they guarantee.
  \<^item> \<open>Workers\<close>: \<open>workers.rs\<close>. \<open>Registry\<close>: \<open>register_cleanup\<close> and
    \<open>NativePort::new\<close> of \<open>lib.rs\<close>. \<open>Environment\<close>: the cleanup hook and the reactors it stops.
  \<^item> \<open>Text\<close>: the string functions of the standard library the listing uses.
    \<open>Metadata\<close>: \<open>platform/windows_list.rs\<close>. \<open>Setup_Api\<close>:
    \<open>platform/windows_list/os.rs\<close>. \<open>Listing\<close>: \<open>ListTask\<close> of \<open>lib.rs\<close>,
    \<open>port_ids\<close> of \<open>platform.rs\<close>, \<open>platform/macos_list.rs\<close>.
  \<^item> \<open>Unit_Tests\<close> and \<open>Pty_Tests\<close>: the unit tests of these files, run on the model; those of
    \<open>Pty_Tests\<close> pass on every pseudo-terminal that keeps a contract. \<open>Test_Peers\<close>: the
    loops of \<open>src/examples\<close>, the programs at the other end of a pseudo-terminal.

  \<^bold>\<open>Conventions.\<close> A Rust panic is \<open>None\<close>; an error is \<open>Inl\<close>; a pending future is
  \<open>Pending\<close>. Integers keep their width where they can wrap (\<open>pending_ops\<close>, credits, flags,
  identifiers); a \<open>usize\<close> that only measures a buffer is a \<open>nat\<close>, its subtractions checked.
  The field \<open>log\<close> of the reactor and the history in \<open>Port_Correct\<close> are ghosts: no step
  reads them.

  \<^bold>\<open>Concurrency.\<close> Before each access to the shared state a function \<open>peer\<close> does to it
  whatever the other threads did meanwhile. The theorems of \<open>Reactor_Correct\<close> hold for every such
  function. The two threads of a port are composed by rely and guarantee: \<open>Port_System\<close> and
  \<open>Port_Correct\<close> run the reactor against any accesses of the relation \<open>js_access\<close>, one
  access being one atomic operation; \<open>Js_Thread\<close> shows that the methods of \<open>NativePort\<close>
  make only those, against any reactor that never raises the counter; and
  \<open>reactor_never_raises\<close> shows that the reactor is one. In \<open>Workers\<close> the other threads drop
  leases during an acquisition.

  \<^bold>\<open>Parameters.\<close> Code that is not under \<open>src\<close> is an argument of the definitions that use it:
  the descriptor or pipe and the control port of a device, tokio's channel, notification, timer and
  blocking pool and the threadsafe function (\<open>runtime\<close>), the Node-API environment of the
  callback, the \<open>serialport\<close> crate's open and enumeration, SetupAPI and the Windows calls. What
  the program relies on of them is stated as a locale (\<open>duplex\<close>, \<open>async_fd\<close>,
  \<open>descriptor_table\<close>, \<open>pipe_contract\<close>, \<open>handle_table\<close>, \<open>command_channel\<close>,
  \<open>tracked_channel\<close>, \<open>quiet_channel\<close>, \<open>master_end\<close>, \<open>wire\<close>, \<open>device_wire\<close>, \<open>steady_port\<close>, \<open>registry_value\<close>,
  \<open>setup_handles\<close>, \<open>pty_writing\<close>, \<open>pty_pair\<close>) and each locale is interpreted on a concrete device or system.

  \<^bold>\<open>What is shown.\<close>
  \<^item> The whole: a port refines a pipe of bytes under any interleaving of the threads, so that no byte is
    lost, duplicated or overtaken on either path, and its counter of pending operations is exact
    (\<open>Port_Correct\<close>).
  \<^item> The reactor: no panic; writes and received data in order; completions tell the truth; credit is
    conserved; every request is answered once and every read is within the credit; the queue of events
    to JavaScript never fills up; bounded bursts and buffers; queued commands complete within two turns a byte on a device
    that accepts bytes; closing stops it within two turns; one close event at the end, after the device
    was closed.
  \<^item> The operations of JavaScript: all-or-nothing admission, splitting of a write, equivalence of
    vectored and plain writes.
  \<^item> Devices: retry loops end, a blocked writer no signal interrupts delivers exactly its data, polls respect their buffers and serve both directions, opening leaks
    no handle on Unix or Windows, settings are exactly those asked for.
  \<^item> Threads and environments: at most four threads, spread evenly and stopped when unused; tearing
    down an environment ends its reactors and touches no other; a failed construction leaves nothing
    behind.
  \<^item> Listing: exactly the enumerated ports, sorted; the grammar of device identifiers; metadata that
    only improves a port; registry strings and locations that round-trip; every handle closed.

  \<^bold>\<open>Bounds.\<close> A reactor runs for as long as its port is open, so its executions are numbers of
  turns (\<open>run_open n\<close>), and theorems hold for every \<open>n\<close>; closing needs two.
  \<open>collect_ready\<close> takes at most the fifteen followers of a burst, and \<open>enrich_devices\<close> ends
  at the \<open>2 ^ 32 - 1\<close> indices of the code. The retry loops of \<open>Unix_Stream\<close> are partial
  functions, total under \<open>async_fd\<close>.

  \<^bold>\<open>Not modelled.\<close> The TypeScript side of the addon (\<open>ts\<close>); the schedule of the worker threads, of which
  only start, stop and references are modelled; \<open>poll_flush\<close>,
  \<open>poll_shutdown\<close> and the raw handles of the streams, which the program never calls; relaxed
  memory orders, since each shared variable is accessed by single atomic operations; the time limits
  of the waits in the tests, and the set-up of the programs of \<open>src/examples\<close>.
\<close>

end
